(* ===== verification/Relay_Prelude.thy ===== *)
theory Relay_Prelude
  imports "HOL-Library.AList" "HOL-Library.Word" "HOL-Library.Multiset"
begin

text \<open>
  Vocabulary that every component shares: the machine types of the Rust source, durations,
  hash maps as association lists with distinct keys, and the lemmas about them that carry the
  component proofs.  The collection \<open>hm_simps\<close> rewrites every hash-map operation to a
  statement about the partial function \<open>map_of m\<close>; \<open>relay_defs\<close> collects the small
  definitions that component proofs unfold together.
\<close>

named_theorems hm_simps
named_theorems relay_defs

section \<open>Machine types\<close>

text \<open>
  \<open>i64\<close> values are 64-bit words: \<open>+\<close> wraps as it does in a release build, and every
  comparison of the source is a comparison of \<open>sint\<close>.  A Rust \<open>String\<close> is a list of bytes
  (its \<open>len\<close> counts bytes), so \<open>string\<close> models it.
\<close>

type_synonym i64 = "64 word"
type_synonym bytes = "8 word list"
type_synonym chan = nat
type_synonym anyhow = string

text \<open>A \<open>Duration\<close> is its whole number of nanoseconds (std keeps seconds and nanoseconds).\<close>

type_synonym duration = nat

definition from_secs :: "nat \<Rightarrow> duration" where
  "from_secs s = s * 1000000000"

definition as_millis :: "duration \<Rightarrow> nat" where
  "as_millis d = d div 1000000"

lemma as_millis_from_secs [simp]: "as_millis (from_secs s) = s * 1000"
  by (simp add: as_millis_def from_secs_def)

text \<open>Signed 64-bit addition is exact while it stays in range.\<close>

lemma sint_add_i64:
  fixes a :: i64
  assumes "0 \<le> sint a" and "sint a + int n < 2 ^ 63"
  shows "sint (a + of_nat n) = sint a + int n"
proof -
  have "sint (of_nat n :: i64) = int n"
    using assms by (simp add: signed_of_nat signed_take_bit_int_eq_self)
  then show ?thesis
    using assms by (simp add: sint_word_ariths signed_take_bit_int_eq_self)
qed

section \<open>Hash maps\<close>

text \<open>
  A \<open>HashMap\<close> is an association list with distinct keys, in its current iteration order.
  Nothing proved here depends on that order.
\<close>

type_synonym ('k, 'v) hash_map = "('k \<times> 'v) list"

definition hm_ok :: "('k, 'v) hash_map \<Rightarrow> bool" where
  "hm_ok m \<longleftrightarrow> distinct (map fst m)"

definition hm_contains :: "'k \<Rightarrow> ('k, 'v) hash_map \<Rightarrow> bool" where
  "hm_contains k m \<longleftrightarrow> map_of m k \<noteq> None"

abbreviation hm_insert :: "'k \<Rightarrow> 'v \<Rightarrow> ('k, 'v) hash_map \<Rightarrow> ('k, 'v) hash_map" where
  "hm_insert \<equiv> AList.update"

abbreviation hm_remove :: "'k \<Rightarrow> ('k, 'v) hash_map \<Rightarrow> ('k, 'v) hash_map" where
  "hm_remove \<equiv> AList.delete"

lemma hm_ok_Nil [simp]: "hm_ok []"
  by (simp add: hm_ok_def)

lemma hm_ok_insert [simp]: "hm_ok m \<Longrightarrow> hm_ok (hm_insert k v m)"
  by (simp add: hm_ok_def distinct_update)

lemma hm_ok_remove [simp]: "hm_ok m \<Longrightarrow> hm_ok (hm_remove k m)"
  by (simp add: hm_ok_def distinct_delete)

lemma hm_ok_filter [simp]: "hm_ok m \<Longrightarrow> hm_ok (filter P m)"
  by (simp add: hm_ok_def distinct_map_filter)

lemma hm_ok_map_snd [simp]: "hm_ok (map (\<lambda>(k, v). (k, f v)) m) = hm_ok m"
  by (simp add: hm_ok_def case_prod_unfold comp_def)

lemma hm_get_insert [hm_simps]: "map_of (hm_insert k v m) = (map_of m)(k \<mapsto> v)"
  by (rule update_conv')

lemma hm_get_remove [hm_simps]: "map_of (hm_remove k m) = (map_of m)(k := None)"
  by (rule delete_conv')

lemma hm_get_filter [hm_simps]:
  "hm_ok m \<Longrightarrow> map_of (filter P m) k =
     (case map_of m k of None \<Rightarrow> None | Some v \<Rightarrow> if P (k, v) then Some v else None)"
  by (induction m) (auto simp: hm_ok_def map_of_eq_None_iff image_iff split: option.splits)

lemma hm_get_map_snd [hm_simps]:
  "map_of (map (\<lambda>(k, v). (k, f v)) m) k = map_option f (map_of m k)"
  by (induction m) auto

lemma hm_mem: "hm_ok m \<Longrightarrow> (k, v) \<in> set m \<longleftrightarrow> map_of m k = Some v"
  by (simp add: hm_ok_def)

lemma hm_card: "hm_ok m \<Longrightarrow> card (dom (map_of m)) = length m"
  by (simp add: hm_ok_def dom_map_of_conv_image_fst distinct_card flip: set_map)

lemma hm_length_insert:
  "length (hm_insert k v m) = (if map_of m k = None then Suc (length m) else length m)"
  by (induction m) auto

lemma hm_length_remove_le: "length (hm_remove k m) \<le> length m"
  by (simp add: length_delete_le)

lemma hm_length_remove:
  assumes "hm_ok m" and "map_of m k \<noteq> None"
  shows "Suc (length (hm_remove k m)) = length m"
proof -
  have "dom (map_of (hm_remove k m)) = dom (map_of m) - {k}"
    by (auto simp: hm_get_remove)
  then have "card (dom (map_of (hm_remove k m))) = card (dom (map_of m)) - 1"
    using assms by (simp add: domIff)
  moreover have "card (dom (map_of m)) > 0"
    using assms by (auto simp: card_gt_0_iff finite_dom_map_of)
  ultimately show ?thesis
    using assms by (simp add: hm_card)
qed

lemma hm_remove_id: "map_of m k = None \<Longrightarrow> hm_remove k m = m"
  by (simp add: map_of_eq_None_iff delete_idem)

lemma hm_insert_twice: "hm_insert k v (hm_insert k u m) = hm_insert k v m"
  by (induction m) auto

text \<open>Removing a list of keys one after the other.\<close>

lemma hm_get_remove_all:
  "map_of (fold hm_remove ks m) k = (if k \<in> set ks then None else map_of m k)"
  by (induction ks arbitrary: m) (auto simp: hm_get_remove)

lemma hm_ok_remove_all [simp]: "hm_ok m \<Longrightarrow> hm_ok (fold hm_remove ks m)"
  by (induction ks arbitrary: m) auto

lemma hm_length_remove_all: "length (fold hm_remove ks m) \<le> length m"
  by (induction ks arbitrary: m) (auto intro: order_trans hm_length_remove_le)

section \<open>Lists\<close>

lemma length_filter_split: "length (filter P xs) + length (filter (\<lambda>x. \<not> P x) xs) = length xs"
  by (rule sum_length_filter_compl)

lemma mset_filter_split: "mset (filter P xs) + mset (filter (\<lambda>x. \<not> P x) xs) = mset xs"
  by (induction xs) auto

lemma sum_list_bounded: "\<forall>x \<in> set xs. f x \<le> b \<Longrightarrow> sum_list (map f xs) \<le> length xs * b" for b :: nat
  by (induction xs) auto

end
