(* ===== verification/Relay_Types.thy ===== *)
theory Relay_Types
  imports Relay_Prelude
begin

text \<open>
  The shared data types: \<open>Message\<close> and the error enums of \<open>waiting_list.rs\<close>, the types of
  \<open>types.rs\<close>, and the environment of one operation.  Everything an operation reads from
  outside its own state is a field of \<open>env\<close>: each place in the code that reads a clock has its
  own field, and no operation of the waiting list passes the same place twice, so one record per
  operation loses nothing.
\<close>

section \<open>Messages, entries and outcomes\<close>

record message =
  body :: bytes
  msg_content_type :: "string option"

lemma message_eta [simp]: "\<lparr>body = body m, msg_content_type = msg_content_type m\<rparr> = m"
  by (cases m) simp

record stored_entry =
  message_body :: "bytes option"
  content_type :: "string option"
  acked :: bool
  expires_at :: i64

datatype insert_outcome = Stored | StoreFull

datatype subscribe_error = WaiterLimitReached | NotFound

datatype store_and_subscribe_error =
  SasWaiterLimitReached | SasStoreFull | SasNotFound | SasStorage anyhow

text \<open>\<open>impl From<SubscribeError> for StoreAndSubscribeError\<close>\<close>

fun sas_from :: "subscribe_error \<Rightarrow> store_and_subscribe_error" where
  "sas_from WaiterLimitReached = SasWaiterLimitReached"
| "sas_from NotFound = SasNotFound"

datatype get_or_subscribe_result = GotMessage message | Waiting chan

section \<open>The environment of one operation\<close>

text \<open>
  The SQL statements of \<open>persistence.rs\<close>.  Each of them can fail at run time; a failed
  statement changes nothing (SQLite runs every statement as its own transaction).
\<close>

datatype stmt =
  S_exists | S_count | S_prepare_delete_expired | S_delete_expired | S_delete_acked
| S_upsert | S_select | S_ack | S_delete

definition all_stmts :: "stmt list" where
  "all_stmts = [S_exists, S_count, S_prepare_delete_expired, S_delete_expired, S_delete_acked,
     S_upsert, S_select, S_ack, S_delete]"

text \<open>
  \<^item> \<open>t_store\<close>, \<open>t_insert\<close>, \<open>t_purge\<close>, \<open>t_check\<close>: what \<open>unix_timestamp_millis\<close> returns in
    \<open>WaitingList::store\<close>, in \<open>insert\<close> (\<open>created_at\<close>), in \<open>delete_expired\<close> and in \<open>is_expired\<close>;
  \<^item> \<open>m_elapsed\<close>, \<open>m_prune\<close>: the monotonic clock (\<open>Instant\<close>, in nanoseconds) at
    \<open>last_prune.elapsed()\<close> and at \<open>Instant::now()\<close> in \<open>ensure_waiter_capacity\<close>;
  \<^item> \<open>fault\<close>: which SQL statements fail;
  \<^item> \<open>scan\<close>: the order in which the storage engine visits entries where neither SQL nor
    \<open>HashMap\<close> fixes one;
  \<^item> \<open>closed\<close>: what \<open>Sender::is_closed\<close> answers, i.e. whose receiver is gone.
\<close>

record 'x env =
  t_store :: i64
  t_insert :: i64
  t_purge :: i64
  t_check :: i64
  m_elapsed :: nat
  m_prune :: nat
  fault :: "stmt \<Rightarrow> bool"
  scan :: "'x list \<Rightarrow> 'x list"
  closed :: "chan \<Rightarrow> bool"

definition fair_scan :: "'x env \<Rightarrow> bool" where
  "fair_scan e \<longleftrightarrow> (\<forall>xs. mset (scan e xs) = mset xs)"

definition reliable :: "'x env \<Rightarrow> bool" where
  "reliable e \<longleftrightarrow> list_all (\<lambda>s. \<not> fault e s) all_stmts"

lemma reliableD [simp]: "reliable e \<Longrightarrow> \<not> fault e s"
  by (cases s) (auto simp: reliable_def all_stmts_def)

text \<open>An environment where every clock shows the same time and nothing fails.\<close>

definition calm_env :: "i64 \<Rightarrow> nat \<Rightarrow> (chan \<Rightarrow> bool) \<Rightarrow> 'x env" where
  "calm_env t m cl = \<lparr>t_store = t, t_insert = t, t_purge = t, t_check = t, m_elapsed = m,
     m_prune = m, fault = (\<lambda>_. False), scan = (\<lambda>xs. xs), closed = cl\<rparr>"

lemma calm_env_simps [simp]:
  "t_store (calm_env t m cl) = t" "t_insert (calm_env t m cl) = t"
  "t_purge (calm_env t m cl) = t" "t_check (calm_env t m cl) = t"
  "m_elapsed (calm_env t m cl) = m" "m_prune (calm_env t m cl) = m"
  "fault (calm_env t m cl) = (\<lambda>_. False)" "scan (calm_env t m cl) = (\<lambda>xs. xs)"
  "closed (calm_env t m cl) = cl"
  by (simp_all add: calm_env_def)

lemma calm_env_ok [simp]: "fair_scan (calm_env t m cl)" "reliable (calm_env t m cl)"
  by (simp_all add: fair_scan_def reliable_def list_all_iff)

section \<open>Expiry\<close>

text \<open>
  The code compares with the clock in two ways: \<open>WaitingList::is_expired\<close> counts the instant
  \<open>expires_at\<close> itself as expired, \<open>delete_expired\<close> does not.
\<close>

definition is_expired :: "i64 \<Rightarrow> i64 \<Rightarrow> bool" where
  "is_expired now x \<longleftrightarrow> sint now \<ge> sint x"

definition expired_before :: "i64 \<Rightarrow> i64 \<Rightarrow> bool" where
  "expired_before now x \<longleftrightarrow> sint x < sint now"

lemma expired_before_is_expired: "expired_before now x \<Longrightarrow> is_expired now x"
  by (simp add: expired_before_def is_expired_def)

lemma is_expired_mono: "is_expired t x \<Longrightarrow> sint t \<le> sint t' \<Longrightarrow> is_expired t' x"
  by (simp add: is_expired_def)

end
