(* ===== verification/Http_Response.thy ===== *)
theory Http_Response
  imports Relay_Types
begin

text \<open>
  \<open>response.rs\<close> and the parts of HTTP that the handlers use.  The http and axum crates come in as
  the record \<open>http_lib\<close>.  A \<open>HeaderMap\<close> is what it answers to \<open>get_all\<close>, by header name in lower
  case; \<open>insert\<close> replaces all values of a name.
\<close>

type_synonym header_map = "string \<Rightarrow> bytes list"

datatype status_code =
  STATUS_OK | BAD_REQUEST | NOT_FOUND | REQUEST_TIMEOUT | INTERNAL_SERVER_ERROR | SERVICE_UNAVAILABLE

fun status_as_u16 :: "status_code \<Rightarrow> nat" where
  "status_as_u16 STATUS_OK = 200"
| "status_as_u16 BAD_REQUEST = 400"
| "status_as_u16 NOT_FOUND = 404"
| "status_as_u16 REQUEST_TIMEOUT = 408"
| "status_as_u16 INTERNAL_SERVER_ERROR = 500"
| "status_as_u16 SERVICE_UNAVAILABLE = 503"

record response =
  status :: status_code
  response_headers :: header_map
  response_body :: bytes

text \<open>
  \<^item> \<open>to_str\<close>: \<open>HeaderValue::to_str\<close>, \<open>None\<close> for an error;
  \<^item> \<open>parse_value\<close>: \<open>str::parse::<HeaderValue>\<close>;
  \<^item> \<open>base_headers\<close>: the headers that \<open>(StatusCode, Bytes).into_response()\<close> sets.
\<close>

record http_lib =
  to_str :: "bytes \<Rightarrow> string option"
  parse_value :: "string \<Rightarrow> bytes option"
  base_headers :: header_map

text \<open>The bytes of a string literal.\<close>

definition text_bytes :: "string \<Rightarrow> bytes" where
  "text_bytes s = map (\<lambda>c. of_char c) s"

lemma text_bytes_Nil [simp]: "text_bytes [] = []"
  by (simp add: text_bytes_def)

definition header_get :: "string \<Rightarrow> header_map \<Rightarrow> bytes option" where
  "header_get name headers = (case headers name of [] \<Rightarrow> None | v # _ \<Rightarrow> Some v)"

definition header_insert :: "string \<Rightarrow> bytes \<Rightarrow> header_map \<Rightarrow> header_map" where
  "header_insert name v headers = headers(name := [v])"

definition into_response :: "http_lib \<Rightarrow> status_code \<Rightarrow> bytes \<Rightarrow> response" where
  "into_response lib st b = \<lparr>status = st, response_headers = base_headers lib, response_body = b\<rparr>"

section \<open>IDs\<close>

definition max_id_length :: nat where
  "max_id_length = 256"

definition validate_id_length :: "string \<Rightarrow> string \<Rightarrow> (status_code \<times> bytes) + unit" where
  "validate_id_length id_text id_name =
     (if length id_text > max_id_length
      then Inl (BAD_REQUEST, text_bytes (id_name @ '' too long''))
      else Inr ())"

lemma validate_id_length_iff:
  "validate_id_length k name = Inr () \<longleftrightarrow> length k \<le> max_id_length"
  "validate_id_length k name = Inl p \<longleftrightarrow>
     length k > max_id_length \<and> p = (BAD_REQUEST, text_bytes (name @ '' too long''))"
  by (auto simp: validate_id_length_def)

section \<open>Messages\<close>

text \<open>The Content-Type that a handler reads from the request, \<open>None\<close> if it is not text.\<close>

definition request_content_type :: "http_lib \<Rightarrow> header_map \<Rightarrow> string option" where
  "request_content_type lib headers =
     (case header_get ''content-type'' headers of None \<Rightarrow> None | Some v \<Rightarrow> to_str lib v)"

definition message_response :: "http_lib \<Rightarrow> message \<Rightarrow> response" where
  "message_response lib m =
     (let r = into_response lib STATUS_OK (body m);
          h1 = (case (case msg_content_type m of None \<Rightarrow> None | Some ct \<Rightarrow> parse_value lib ct) of
                  None \<Rightarrow> response_headers r
                | Some v \<Rightarrow> header_insert ''content-type'' v (response_headers r));
          h2 = header_insert ''content-security-policy'' (text_bytes ''sandbox'') h1;
          h3 = header_insert ''x-content-type-options'' (text_bytes ''nosniff'') h2
      in r\<lparr>response_headers := h3\<rparr>)"

text \<open>\<open>headers_mut().insert("Deprecation", "true")\<close> of the link handlers\<close>

definition deprecated :: "response \<Rightarrow> response" where
  "deprecated r = r\<lparr>response_headers := header_insert ''deprecation'' (text_bytes ''true'') (response_headers r)\<rparr>"

lemma into_response_simps [simp]:
  "status (into_response lib st b) = st" "response_body (into_response lib st b) = b"
  "response_headers (into_response lib st b) = base_headers lib"
  by (simp_all add: into_response_def)

lemma message_response_simps [simp]:
  "status (message_response lib m) = STATUS_OK" "response_body (message_response lib m) = body m"
  by (simp_all add: message_response_def Let_def)

lemma deprecated_simps [simp]:
  "status (deprecated r) = status r" "response_body (deprecated r) = response_body r"
  "response_headers (deprecated r) n =
     (if n = ''deprecation'' then [text_bytes ''true''] else response_headers r n)"
  by (simp_all add: deprecated_def header_insert_def)

lemma message_response_headers:
  "response_headers (message_response lib m) n =
     (if n = ''x-content-type-options'' then [text_bytes ''nosniff'']
      else if n = ''content-security-policy'' then [text_bytes ''sandbox'']
      else if n = ''content-type'' then
        (case Option.bind (msg_content_type m) (parse_value lib) of
           None \<Rightarrow> base_headers lib n | Some v \<Rightarrow> [v])
      else base_headers lib n)"
  by (cases "msg_content_type m") (auto simp: message_response_def Let_def header_insert_def split: option.splits)

section \<open>What a handler does next\<close>

text \<open>
  A handler runs in sections between its \<open>await\<close> points.  The section that takes the lock of the
  waiting list ends with a response, or with a receiver to wait on; \<open>Panicked\<close> stands for
  \<open>unreachable!()\<close>.  What the wait on a oneshot receiver under \<open>tokio::time::timeout\<close> yields is
  \<open>Received\<close>, \<open>SenderDropped\<close> or \<open>Elapsed\<close>.
\<close>

datatype outcome = Responded response | Waits chan | Panicked

datatype 'a received = Received 'a | SenderDropped | Elapsed

end
