(* ===== verification/Client_Ip.thy ===== *)
theory Client_Ip
  imports Relay_Types "HOL-Library.Char_ord"
begin

unbundle bit_operations_syntax

text \<open>
  \<open>client_ip.rs\<close>: who sent a request.  \<open>IpAddr\<close> and its parser belong to the standard library and
  are modelled; \<open>IpNet\<close> (crate ipnet) is a type parameter with its \<open>contains\<close> as an argument, and
  so is \<open>HeaderValue::to_str\<close> (crate http).  The header lines of one name come as the list that
  \<open>HeaderMap::get_all\<close> iterates over.
\<close>

section \<open>Addresses\<close>

datatype ip_addr = V4 "32 word" | V6 "128 word"

text \<open>\<open>IpAddr::to_canonical\<close>: \<open>::ffff:a.b.c.d\<close> becomes \<open>a.b.c.d\<close>.\<close>

fun to_canonical :: "ip_addr \<Rightarrow> ip_addr" where
  "to_canonical (V4 a) = V4 a"
| "to_canonical (V6 w) = (if drop_bit 32 w = 0xFFFF then V4 (ucast w) else V6 w)"

lemma to_canonical_idem [simp]: "to_canonical (to_canonical ip) = to_canonical ip"
  by (cases ip) auto

section \<open>Parsing an address\<close>

text \<open>
  The parser of \<open>core::net\<close>: a reader consumes a prefix of the text or fails, and the whole text
  must be consumed.  Numbers are read as naturals and bounded like \<open>checked_add\<close> does.
\<close>

type_synonym 'a reader = "string \<Rightarrow> ('a \<times> string) option"

definition to_digit :: "nat \<Rightarrow> char \<Rightarrow> nat option" where
  "to_digit radix c =
     (let n = of_char c :: nat;
          d = (if 48 \<le> n \<and> n \<le> 57 then Some (n - 48)
               else if 97 \<le> n \<and> n \<le> 122 then Some (n - 87)
               else if 65 \<le> n \<and> n \<le> 90 then Some (n - 55) else None)
      in case d of None \<Rightarrow> None | Some v \<Rightarrow> if v < radix then Some v else None)"

fun digits :: "nat \<Rightarrow> string \<Rightarrow> nat list \<times> string" where
  "digits radix [] = ([], [])"
| "digits radix (c # cs) =
     (case to_digit radix c of
        None \<Rightarrow> ([], c # cs)
      | Some d \<Rightarrow> (let (ds, rest) = digits radix cs in (d # ds, rest)))"

definition read_number :: "nat \<Rightarrow> nat \<Rightarrow> bool \<Rightarrow> nat \<Rightarrow> nat reader" where
  "read_number radix max_digits allow_zero_prefix bound s =
     (let (ds, rest) = digits radix s; n = foldl (\<lambda>acc d. acc * radix + d) 0 ds in
      if ds = [] \<or> length ds > max_digits \<or> n > bound \<or>
         (\<not> allow_zero_prefix \<and> hd ds = 0 \<and> length ds > 1)
      then None else Some (n, rest))"

definition read_given_char :: "char \<Rightarrow> string \<Rightarrow> string option" where
  "read_given_char c s = (case s of [] \<Rightarrow> None | x # xs \<Rightarrow> if x = c then Some xs else None)"

definition read_separator :: "char \<Rightarrow> nat \<Rightarrow> 'a reader \<Rightarrow> 'a reader" where
  "read_separator sep index inner s =
     (if index > 0 then (case read_given_char sep s of None \<Rightarrow> None | Some r \<Rightarrow> inner r) else inner s)"

fun read_octets :: "nat \<Rightarrow> nat \<Rightarrow> nat list reader" where
  "read_octets 0 index s = Some ([], s)"
| "read_octets (Suc n) index s =
     (case read_separator CHR ''.'' index (read_number 10 3 False 255) s of
        None \<Rightarrow> None
      | Some (b, rest) \<Rightarrow>
          (case read_octets n (Suc index) rest of
             None \<Rightarrow> None
           | Some (bs, rest') \<Rightarrow> Some (b # bs, rest')))"

definition from_groups :: "nat \<Rightarrow> nat list \<Rightarrow> 'w::len word" where
  "from_groups bits gs = foldl (\<lambda>acc g. push_bit bits acc OR of_nat g) 0 gs"

definition read_ipv4_addr :: "(32 word) reader" where
  "read_ipv4_addr s = map_option (\<lambda>(bs, rest). (from_groups 8 bs, rest)) (read_octets 4 0 s)"

text \<open>
  \<open>read_groups\<close> fills at most \<open>n\<close> further slots from index \<open>index\<close> on; the result has the groups
  read, whether they end in an embedded IPv4 address, and the rest of the text.
\<close>

fun read_groups :: "nat \<Rightarrow> nat \<Rightarrow> string \<Rightarrow> nat list \<times> bool \<times> string" where
  "read_groups 0 index s = ([], False, s)"
| "read_groups (Suc n) index s =
     (case (if n > 0 then read_separator CHR '':'' index read_ipv4_addr s else None) of
        Some (a, rest) \<Rightarrow> ([unat (drop_bit 16 a), unat (a AND 0xFFFF)], True, rest)
      | None \<Rightarrow>
          (case read_separator CHR '':'' index (read_number 16 4 True 0xFFFF) s of
             None \<Rightarrow> ([], False, s)
           | Some (g, rest) \<Rightarrow>
               (let (gs, v4, rest') = read_groups n (Suc index) rest in (g # gs, v4, rest'))))"

definition read_ipv6_addr :: "(128 word) reader" where
  "read_ipv6_addr s =
     (let (head, head_ipv4, r) = read_groups 8 0 s in
      if length head = 8 then Some (from_groups 16 head, r)
      else if head_ipv4 then None
      else case read_given_char CHR '':'' r of
        None \<Rightarrow> None
      | Some r1 \<Rightarrow> (case read_given_char CHR '':'' r1 of
          None \<Rightarrow> None
        | Some r2 \<Rightarrow>
            (let (tail, _, rest) = read_groups (8 - (length head + 1)) 0 r2
             in Some (from_groups 16 (head @ replicate (8 - length head - length tail) 0 @ tail), rest))))"

definition parse_ip :: "string \<Rightarrow> ip_addr option" where
  "parse_ip s =
     (case read_ipv4_addr s of
        Some (a, rest) \<Rightarrow> if rest = [] then Some (V4 a) else None
      | None \<Rightarrow> (case read_ipv6_addr s of
          Some (a, rest) \<Rightarrow> if rest = [] then Some (V6 a) else None
        | None \<Rightarrow> None))"

section \<open>Text helpers\<close>

text \<open>\<open>u8::escape_ascii\<close>\<close>

definition hex_digit :: "nat \<Rightarrow> char" where
  "hex_digit n = char_of (if n < 10 then n + 48 else n + 87)"

definition escape_ascii_byte :: "8 word \<Rightarrow> string" where
  "escape_ascii_byte b =
     (let n = unat b in
      if n = 9 then [CHR 0x5C, CHR ''t'']
      else if n = 10 then [CHR 0x5C, CHR ''n'']
      else if n = 13 then [CHR 0x5C, CHR ''r'']
      else if n \<in> {34, 39, 92} then [CHR 0x5C, char_of n]
      else if 32 \<le> n \<and> n < 127 then [char_of n]
      else [CHR 0x5C, CHR ''x'', hex_digit (n div 16), hex_digit (n mod 16)])"

definition escape_ascii :: "bytes \<Rightarrow> string" where
  "escape_ascii bs = concat (map escape_ascii_byte bs)"

text \<open>\<open>str::split(',')\<close> from left to right; \<open>rsplit\<close> yields the same pieces in reverse.\<close>

fun split_on :: "char \<Rightarrow> string \<Rightarrow> string list" where
  "split_on c [] = [[]]"
| "split_on c (x # xs) =
     (if x = c then [] # split_on c xs
      else (case split_on c xs of [] \<Rightarrow> [[x]] | p # ps \<Rightarrow> (x # p) # ps))"

definition is_whitespace :: "char \<Rightarrow> bool" where
  "is_whitespace c = (of_char c = (32 :: nat) \<or> (9 \<le> (of_char c :: nat) \<and> (of_char c :: nat) \<le> 13))"

definition trim :: "string \<Rightarrow> string" where
  "trim s = rev (dropWhile is_whitespace (rev (dropWhile is_whitespace s)))"

section \<open>The client of a request\<close>

datatype forwarded_for_error = Missing | NotAnIpAddress string

text \<open>\<open>TrustedProxies\<close> is its list of networks; \<open>net_contains\<close> is \<open>IpNet::contains\<close>.\<close>

type_synonym 'net trusted_proxies = "'net list"

definition contains_ip :: "('net \<Rightarrow> ip_addr \<Rightarrow> bool) \<Rightarrow> 'net trusted_proxies \<Rightarrow> ip_addr \<Rightarrow> bool" where
  "contains_ip net_contains proxies ip =
     list_ex (\<lambda>network. net_contains network (to_canonical ip)) proxies"

text \<open>
  The two nested loops of \<open>client_ip\<close>, each a recursion over what its iterator still yields.  A
  loop ends with \<open>Inl\<close> when the method returns inside it and with \<open>Inr\<close> of
  \<open>leftmost_proxy_ip\<close> when it runs to its end.
\<close>

fun scan_entries ::
    "('net \<Rightarrow> ip_addr \<Rightarrow> bool) \<Rightarrow> 'net trusted_proxies \<Rightarrow> string list \<Rightarrow> ip_addr option \<Rightarrow>
     (forwarded_for_error + ip_addr) + ip_addr option" where
  "scan_entries nc proxies [] leftmost = Inr leftmost"
| "scan_entries nc proxies (entry # entries) leftmost =
     (case parse_ip entry of
        None \<Rightarrow> Inl (Inl (NotAnIpAddress entry))
      | Some entry_ip \<Rightarrow>
          if \<not> contains_ip nc proxies entry_ip then Inl (Inr (to_canonical entry_ip))
          else scan_entries nc proxies entries (Some (to_canonical entry_ip)))"

definition line_entries :: "string \<Rightarrow> string list" where
  "line_entries value = filter (\<lambda>entry. entry \<noteq> []) (map trim (rev (split_on CHR '','' value)))"

fun scan_lines ::
    "(bytes \<Rightarrow> string option) \<Rightarrow> ('net \<Rightarrow> ip_addr \<Rightarrow> bool) \<Rightarrow> 'net trusted_proxies \<Rightarrow> bytes list \<Rightarrow>
     ip_addr option \<Rightarrow> (forwarded_for_error + ip_addr) + ip_addr option" where
  "scan_lines to_str nc proxies [] leftmost = Inr leftmost"
| "scan_lines to_str nc proxies (line # lines) leftmost =
     (case to_str line of
        None \<Rightarrow> Inl (Inl (NotAnIpAddress (escape_ascii line)))
      | Some value \<Rightarrow>
          (case scan_entries nc proxies (line_entries value) leftmost of
             Inl result \<Rightarrow> Inl result
           | Inr leftmost' \<Rightarrow> scan_lines to_str nc proxies lines leftmost'))"

definition client_ip ::
    "(bytes \<Rightarrow> string option) \<Rightarrow> ('net \<Rightarrow> ip_addr \<Rightarrow> bool) \<Rightarrow> 'net trusted_proxies \<Rightarrow> ip_addr \<Rightarrow>
     bytes list \<Rightarrow> forwarded_for_error + ip_addr" where
  "client_ip to_str nc proxies peer_ip lines =
     (if \<not> contains_ip nc proxies peer_ip then Inr (to_canonical peer_ip)
      else (case scan_lines to_str nc proxies (rev lines) None of
         Inl result \<Rightarrow> result
       | Inr None \<Rightarrow> Inl Missing
       | Inr (Some ip) \<Rightarrow> Inr ip))"

definition forwarded_for_error_display :: "forwarded_for_error \<Rightarrow> string" where
  "forwarded_for_error_display err =
     (case err of
        Missing \<Rightarrow> ''missing X-Forwarded-For header''
      | NotAnIpAddress entry \<Rightarrow>
          ''X-Forwarded-For entry '' @ [CHR 0x60] @ entry @ [CHR 0x60] @ '' is not an IP address'')"

section \<open>Reference: the header as one list\<close>

text \<open>
  What the documentation of \<open>client_ip\<close> says, without the loops: the entries of all lines from
  right to left, where an unreadable line counts as one bad entry.  The client is the first one
  that is not a trusted proxy.
\<close>

datatype forwarded_entry = Bad string | Address ip_addr

definition read_line :: "(bytes \<Rightarrow> string option) \<Rightarrow> bytes \<Rightarrow> forwarded_entry list" where
  "read_line to_str line =
     (case to_str line of
        None \<Rightarrow> [Bad (escape_ascii line)]
      | Some value \<Rightarrow>
          map (\<lambda>entry. case parse_ip entry of None \<Rightarrow> Bad entry | Some ip \<Rightarrow> Address ip) (line_entries value))"

definition forwarded_entries :: "(bytes \<Rightarrow> string option) \<Rightarrow> bytes list \<Rightarrow> forwarded_entry list" where
  "forwarded_entries to_str lines = concat (map (read_line to_str) (rev lines))"

definition is_proxy :: "('net \<Rightarrow> ip_addr \<Rightarrow> bool) \<Rightarrow> 'net trusted_proxies \<Rightarrow> forwarded_entry \<Rightarrow> bool" where
  "is_proxy nc proxies entry =
     (case entry of Bad _ \<Rightarrow> False | Address ip \<Rightarrow> contains_ip nc proxies ip)"

definition forwarded_client ::
    "('net \<Rightarrow> ip_addr \<Rightarrow> bool) \<Rightarrow> 'net trusted_proxies \<Rightarrow> forwarded_entry list \<Rightarrow>
     forwarded_for_error + ip_addr" where
  "forwarded_client nc proxies entries =
     (case dropWhile (is_proxy nc proxies) entries of
        Bad entry # _ \<Rightarrow> Inl (NotAnIpAddress entry)
      | Address ip # _ \<Rightarrow> Inr (to_canonical ip)
      | [] \<Rightarrow> (if entries = [] then Inl Missing
               else case last entries of Address ip \<Rightarrow> Inr (to_canonical ip)
                    | Bad entry \<Rightarrow> Inl (NotAnIpAddress entry)))"

lemmas client_ip_defs [relay_defs] =
  forwarded_client_def is_proxy_def read_line_def forwarded_entries_def

text \<open>How the loops walk over one list of entries.\<close>

definition scan_spec ::
    "('net \<Rightarrow> ip_addr \<Rightarrow> bool) \<Rightarrow> 'net trusted_proxies \<Rightarrow> forwarded_entry list \<Rightarrow> ip_addr option \<Rightarrow>
     (forwarded_for_error + ip_addr) + ip_addr option" where
  "scan_spec nc proxies entries leftmost =
     (case dropWhile (is_proxy nc proxies) entries of
        Bad entry # _ \<Rightarrow> Inl (Inl (NotAnIpAddress entry))
      | Address ip # _ \<Rightarrow> Inl (Inr (to_canonical ip))
      | [] \<Rightarrow> Inr (if entries = [] then leftmost
                  else case last entries of Address ip \<Rightarrow> Some (to_canonical ip) | Bad _ \<Rightarrow> None))"

lemma is_proxy_simps [simp]:
  "is_proxy nc ps (Address ip) = contains_ip nc ps ip" "\<not> is_proxy nc ps (Bad t)"
  by (simp_all add: is_proxy_def)

lemmas keep_dropWhile = dropWhile_eq_Nil_conv

text \<open>The scan runs dry on nothing, runs dry on proxies only, or stops.\<close>

lemma stop_cases:
  obtains (empty) "es = []" "dropWhile (is_proxy nc ps) es = []"
  | (proxies) ip where "es \<noteq> []" "dropWhile (is_proxy nc ps) es = []" "last es = Address ip"
      "contains_ip nc ps ip" "\<forall>e \<in> set es. is_proxy nc ps e" "Address ip \<in> set es"
  | (stop) e fs where "dropWhile (is_proxy nc ps) es = e # fs" "e \<in> set es" "\<not> is_proxy nc ps e" "es \<noteq> []"
proof (cases "dropWhile (is_proxy nc ps) es")
  case Nil
  show thesis
  proof (cases "es = []")
    case True
    then show thesis using empty by simp
  next
    case False
    have all: "\<forall>e \<in> set es. is_proxy nc ps e" using Nil by (simp add: dropWhile_eq_Nil_conv)
    moreover from False have "last es \<in> set es" by simp
    ultimately obtain ip where "last es = Address ip" "contains_ip nc ps ip"
      by (cases "last es") (auto simp: is_proxy_def)
    with False Nil all \<open>last es \<in> set es\<close> show thesis using proxies by simp
  qed
next
  case (Cons e fs)
  have "e \<in> set es" using Cons by (metis list.set_intros(1) set_dropWhileD)
  moreover have "\<not> is_proxy nc ps e" using Cons hd_dropWhile by (metis list.distinct(1) list.sel(1))
  ultimately show thesis using stop Cons by force
qed

lemma scan_spec_simps [simp]:
  "scan_spec nc ps [] l = Inr l"
  "scan_spec nc ps (Bad t # es) l = Inl (Inl (NotAnIpAddress t))"
  "scan_spec nc ps (Address ip # es) l =
     (if contains_ip nc ps ip then scan_spec nc ps es (Some (to_canonical ip))
      else Inl (Inr (to_canonical ip)))"
proof -
  show "scan_spec nc ps (Address ip # es) l =
     (if contains_ip nc ps ip then scan_spec nc ps es (Some (to_canonical ip))
      else Inl (Inr (to_canonical ip)))"
    by (cases rule: stop_cases[of es nc ps]) (simp_all add: scan_spec_def del: keep_dropWhile)
qed (simp_all add: scan_spec_def)

lemma scan_spec_append:
  "scan_spec nc ps (es @ fs) l =
     (case scan_spec nc ps es l of Inl res \<Rightarrow> Inl res | Inr l' \<Rightarrow> scan_spec nc ps fs l')"
proof (induction es arbitrary: l)
  case (Cons e es)
  then show ?case by (cases e) auto
qed simp

lemma scan_entries_spec:
  "scan_entries nc ps es l =
     scan_spec nc ps (map (\<lambda>e. case parse_ip e of None \<Rightarrow> Bad e | Some ip \<Rightarrow> Address ip) es) l"
  by (induction es arbitrary: l) (auto split: option.splits)

lemma scan_lines_spec:
  "scan_lines to_str nc ps ls l = scan_spec nc ps (concat (map (read_line to_str) ls)) l"
  by (induction ls arbitrary: l)
    (auto simp: read_line_def scan_spec_append scan_entries_spec split: option.splits sum.splits)

lemma client_ip_forwarded:
  assumes "contains_ip nc ps peer"
  shows "client_ip to_str nc ps peer ls = forwarded_client nc ps (forwarded_entries to_str ls)"
proof -
  have "client_ip to_str nc ps peer ls =
      (case scan_spec nc ps (forwarded_entries to_str ls) None of
         Inl result \<Rightarrow> result | Inr None \<Rightarrow> Inl Missing | Inr (Some ip) \<Rightarrow> Inr ip)"
    using assms by (simp add: client_ip_def scan_lines_spec forwarded_entries_def)
  also have "\<dots> = forwarded_client nc ps (forwarded_entries to_str ls)"
    by (cases rule: stop_cases[of "forwarded_entries to_str ls" nc ps])
      (auto simp: scan_spec_def forwarded_client_def simp del: keep_dropWhile split: forwarded_entry.split)
  finally show ?thesis .
qed

lemma contains_canonical [simp]: "contains_ip nc ps (to_canonical ip) = contains_ip nc ps ip"
  by (simp add: contains_ip_def)

text \<open>Entries to the left of an untrusted one are never looked at.\<close>

lemma forwarded_client_prefix:
  "\<not> is_proxy nc ps e \<Longrightarrow> forwarded_client nc ps (es @ e # fs) = forwarded_client nc ps (es @ [e])"
  by (induction es) (auto simp: forwarded_client_def split: if_splits list.splits forwarded_entry.splits)

lemma forwarded_client_cases:
  assumes "forwarded_client nc ps es = Inr ip"
  obtains a where "Address a \<in> set es" "ip = to_canonical a" "to_canonical ip = ip"
    "contains_ip nc ps ip \<Longrightarrow> \<forall>e \<in> set es. is_proxy nc ps e"
proof (cases rule: stop_cases[of es nc ps])
  case empty
  with assms show thesis by (simp add: forwarded_client_def)
next
  case (proxies a)
  have "ip = to_canonical a"
    using assms proxies(1-4) by (simp add: forwarded_client_def del: keep_dropWhile)
  with proxies(5,6) show thesis by (intro that[of a]) auto
next
  case (stop e fs)
  with assms obtain a where "e = Address a" "ip = to_canonical a"
    by (auto simp: forwarded_client_def split: forwarded_entry.splits)
  with stop show thesis by (intro that[of a]) auto
qed

end
