(* ===== verification/Storage_Spec.thy ===== *)
theory Storage_Spec
  imports Relay_Types
begin

text \<open>
  The contract of \<open>EntryRepository\<close>.  The crate compiles one of two modules under that name
  (\<open>persistence.rs\<close> with SQLite, or \<open>storage_memory.rs\<close>), and the waiting list uses whichever
  it gets.  \<open>repo_ops\<close> is the interface, the locale \<open>entry_store\<close> is the contract, stated over
  the abstract content \<open>view r :: string \<rightharpoonup> stored_entry\<close>.  The two back ends interpret it in
  their own theories, and everything about the waiting list is proved from it.
\<close>

section \<open>Interface\<close>

record ('r, 'x) repo_ops =
  repo_insert :: "'x env \<Rightarrow> 'r \<Rightarrow> string \<Rightarrow> bytes \<Rightarrow> string option \<Rightarrow> i64 \<Rightarrow> 'r \<times> (anyhow + insert_outcome)"
  repo_get :: "'x env \<Rightarrow> 'r \<Rightarrow> string \<Rightarrow> anyhow + stored_entry option"
  repo_ack :: "'x env \<Rightarrow> 'r \<Rightarrow> string \<Rightarrow> 'r \<times> (anyhow + bool)"
  repo_delete :: "'x env \<Rightarrow> 'r \<Rightarrow> string \<Rightarrow> 'r \<times> (anyhow + bool)"
  repo_cleanup :: "'x env \<Rightarrow> 'r \<Rightarrow> 'r \<times> (anyhow + string list)"
  repo_count :: "'x env \<Rightarrow> 'r \<Rightarrow> anyhow + nat"
  repo_max :: "'r \<Rightarrow> nat"

section \<open>Abstract content\<close>

text \<open>
  An entry is disposable once it no longer holds a message for a consumer: it was acknowledged,
  or it is expired.  \<open>held\<close> are the IDs whose entry is not.  \<open>purged now v v'\<close>: going from \<open>v\<close>
  to \<open>v'\<close>, some disposable entries were deleted and nothing else happened.
\<close>

definition disposable :: "i64 \<Rightarrow> stored_entry \<Rightarrow> bool" where
  "disposable now s \<longleftrightarrow> acked s \<or> expired_before now (expires_at s)"

definition held :: "i64 \<Rightarrow> (string \<rightharpoonup> stored_entry) \<Rightarrow> string set" where
  "held now v = {k. \<exists>s. v k = Some s \<and> \<not> disposable now s}"

definition purged :: "i64 \<Rightarrow> (string \<rightharpoonup> stored_entry) \<Rightarrow> (string \<rightharpoonup> stored_entry) \<Rightarrow> bool" where
  "purged now v v' \<longleftrightarrow> v' \<subseteq>\<^sub>m v \<and> (\<forall>k s. v k = Some s \<and> v' k = None \<longrightarrow> disposable now s)"

definition fresh_entry :: "bytes \<Rightarrow> string option \<Rightarrow> i64 \<Rightarrow> stored_entry" where
  "fresh_entry b ct x = \<lparr>message_body = Some b, content_type = ct, acked = False, expires_at = x\<rparr>"

definition acked_entry :: "stored_entry \<Rightarrow> stored_entry" where
  "acked_entry s = s\<lparr>message_body := None, acked := True\<rparr>"

lemma fresh_entry_simps [simp]:
  "message_body (fresh_entry b ct x) = Some b" "content_type (fresh_entry b ct x) = ct"
  "\<not> acked (fresh_entry b ct x)" "expires_at (fresh_entry b ct x) = x"
  by (simp_all add: fresh_entry_def)

lemma acked_entry_simps [simp]:
  "message_body (acked_entry s) = None" "content_type (acked_entry s) = content_type s"
  "acked (acked_entry s)" "expires_at (acked_entry s) = expires_at s"
  by (simp_all add: acked_entry_def)

lemma purged_refl [simp]: "purged now v v"
  by (auto simp: purged_def)

lemma purged_le: "purged now v v' \<Longrightarrow> v' k = Some s \<Longrightarrow> v k = Some s"
  by (auto simp: purged_def map_le_def dom_def)

lemma purged_None: "purged now v v' \<Longrightarrow> v k = None \<Longrightarrow> v' k = None"
  by (cases "v' k") (auto dest: purged_le)

lemma purged_held: "purged now v v' \<Longrightarrow> k \<in> held now v \<Longrightarrow> v' k = v k"
proof (cases "v' k")
  case None
  moreover assume "purged now v v'" and "k \<in> held now v"
  ultimately show ?thesis by (auto simp: purged_def held_def)
next
  case (Some s)
  moreover assume "purged now v v'"
  ultimately show ?thesis by (simp add: purged_le)
qed

lemma purged_restrict: "(\<And>k s. v k = Some s \<Longrightarrow> k \<notin> A \<Longrightarrow> disposable now s) \<Longrightarrow> purged now v (v |` A)"
  by (auto simp: purged_def map_le_def restrict_map_def split: if_splits)

lemma held_subset: "held now v \<subseteq> dom v"
  by (auto simp: held_def)

section \<open>Contract\<close>

text \<open>
  \<open>entry_reader\<close> is what a reader relies on: a lookup returns the content or an error, an error
  only when the storage engine fails, and an entry has a body exactly while it is not
  acknowledged.
\<close>

locale entry_reader =
  fixes ops :: "('r, 'x) repo_ops"
    and invar :: "'r \<Rightarrow> bool"
    and view :: "'r \<Rightarrow> string \<rightharpoonup> stored_entry"
  assumes finite_view: "invar r \<Longrightarrow> finite (dom (view r))"
    and get_sound: "invar r \<Longrightarrow> repo_get ops e r k = Inr v \<Longrightarrow> v = view r k"
    and get_reliable: "invar r \<Longrightarrow> reliable e \<Longrightarrow> \<exists>v. repo_get ops e r k = Inr v"
    and body_iff_unacked: "invar r \<Longrightarrow> view r k = Some s \<Longrightarrow> (message_body s = None) = acked s"
begin

lemma get_calm: "invar r \<Longrightarrow> reliable e \<Longrightarrow> repo_get ops e r k = Inr (view r k)"
  using get_sound get_reliable by metis

lemma get_cases:
  assumes "invar r"
  obtains (error) err where "repo_get ops e r k = Inl err"
  | (content) "repo_get ops e r k = Inr (view r k)"
  using assms get_sound by (cases "repo_get ops e r k") auto

end

text \<open>
  \<open>entry_store\<close> adds what the writing operations promise.  Insertion: an existing ID is always
  replaced; a new ID may make room by deleting disposable entries, and is rejected exactly when
  \<open>max_entries\<close> IDs or more are held.
\<close>

locale entry_store = entry_reader ops invar view
  for ops :: "('r, 'x) repo_ops"
    and invar :: "'r \<Rightarrow> bool"
    and view :: "'r \<Rightarrow> string \<rightharpoonup> stored_entry" +
  assumes insert_keeps:
      "invar r \<Longrightarrow> fair_scan e \<Longrightarrow> repo_insert ops e r k b ct x = (r', res) \<Longrightarrow>
        invar r' \<and> repo_max ops r' = repo_max ops r \<and>
        card (dom (view r')) \<le> max (card (dom (view r))) (repo_max ops r)"
    and insert_stored:
      "invar r \<Longrightarrow> fair_scan e \<Longrightarrow> repo_insert ops e r k b ct x = (r', Inr Stored) \<Longrightarrow>
        \<exists>v. (if view r k = None then purged (t_purge e) (view r) v else v = view r) \<and>
            view r' = v(k \<mapsto> fresh_entry b ct x) \<and>
            (view r k = None \<longrightarrow> card (held (t_purge e) (view r)) < repo_max ops r)"
    and insert_full:
      "invar r \<Longrightarrow> fair_scan e \<Longrightarrow> repo_insert ops e r k b ct x = (r', Inr StoreFull) \<Longrightarrow>
        view r k = None \<and> view r' = view r |` held (t_purge e) (view r) \<and>
        repo_max ops r \<le> card (held (t_purge e) (view r))"
    and insert_error:
      "invar r \<Longrightarrow> fair_scan e \<Longrightarrow> repo_insert ops e r k b ct x = (r', Inl err) \<Longrightarrow>
        (if view r k = None then purged (t_purge e) (view r) (view r') else view r' = view r)"
    and insert_reliable:
      "invar r \<Longrightarrow> reliable e \<Longrightarrow> \<exists>out. snd (repo_insert ops e r k b ct x) = Inr out"
    and ack_keeps:
      "invar r \<Longrightarrow> repo_ack ops e r k = (r', ack_res) \<Longrightarrow>
        invar r' \<and> repo_max ops r' = repo_max ops r \<and>
        (case ack_res of Inl _ \<Rightarrow> view r' = view r
         | Inr found \<Rightarrow> found = (view r k \<noteq> None) \<and>
             view r' = (case view r k of None \<Rightarrow> view r | Some s \<Rightarrow> (view r)(k \<mapsto> acked_entry s)))"
    and ack_reliable: "invar r \<Longrightarrow> reliable e \<Longrightarrow> \<exists>found. snd (repo_ack ops e r k) = Inr found"
    and cleanup_keeps:
      "invar r \<Longrightarrow> fair_scan e \<Longrightarrow> repo_cleanup ops e r = (r', ids_res) \<Longrightarrow>
        invar r' \<and> repo_max ops r' = repo_max ops r \<and>
        (case ids_res of Inl _ \<Rightarrow> view r' = view r
         | Inr ids \<Rightarrow> distinct ids \<and> view r' = view r |` (- set ids) \<and>
             set ids = {k. \<exists>s. view r k = Some s \<and> expired_before (t_purge e) (expires_at s)})"
    and cleanup_reliable: "invar r \<Longrightarrow> reliable e \<Longrightarrow> \<exists>ids. snd (repo_cleanup ops e r) = Inr ids"
begin

text \<open>Whatever the outcome, no other ID that holds a message is touched.\<close>

lemma insert_frame:
  assumes "invar r" and "fair_scan e" and ins: "repo_insert ops e r k b ct x = (r', res)"
    and j: "j \<in> held (t_purge e) (view r)" "j \<noteq> k"
  shows "view r' j = view r j"
proof (cases res)
  case Inl: (Inl err)
  from insert_error[OF assms(1,2) ins[unfolded Inl]] j show ?thesis
    by (auto split: if_splits dest: purged_held)
next
  case (Inr out)
  show ?thesis
  proof (cases out)
    case Stored
    from insert_stored[OF assms(1,2) ins[unfolded Inr Stored]] j show ?thesis
      by (fastforce split: if_splits dest: purged_held)
  next
    case StoreFull
    from insert_full[OF assms(1,2) ins[unfolded Inr StoreFull]] j show ?thesis
      by (auto simp: restrict_map_def)
  qed
qed

text \<open>Insertion never invents an entry for another ID and never alters one.\<close>

lemma insert_other_le:
  assumes "invar r" and "fair_scan e" and ins: "repo_insert ops e r k b ct x = (r', res)"
    and "view r' j = Some s" and "j \<noteq> k"
  shows "view r j = Some s"
proof (cases res)
  case Inl: (Inl err)
  from insert_error[OF assms(1,2) ins[unfolded Inl]] assms(4,5) show ?thesis
    by (auto split: if_splits dest: purged_le)
next
  case (Inr out)
  show ?thesis
  proof (cases out)
    case Stored
    from insert_stored[OF assms(1,2) ins[unfolded Inr Stored]] assms(4,5) show ?thesis
      by (fastforce split: if_splits dest: purged_le)
  next
    case StoreFull
    from insert_full[OF assms(1,2) ins[unfolded Inr StoreFull]] assms(4,5) show ?thesis
      by (auto simp: restrict_map_def split: if_splits)
  qed
qed

text \<open>The admission rule, exactly.\<close>

lemma insert_admission:
  assumes "invar r" and "fair_scan e" and "reliable e"
  shows "snd (repo_insert ops e r k b ct x) =
    Inr (if view r k \<noteq> None \<or> card (held (t_purge e) (view r)) < repo_max ops r
         then Stored else StoreFull)"
proof -
  obtain r' out where ins: "repo_insert ops e r k b ct x = (r', Inr out)"
    using insert_reliable[OF assms(1,3)] by (metis prod.collapse)
  show ?thesis
  proof (cases out)
    case Stored
    with insert_stored[OF assms(1,2)] ins show ?thesis by fastforce
  next
    case StoreFull
    with insert_full[OF assms(1,2)] ins show ?thesis by fastforce
  qed
qed

end

end
