(* ===== verification/Storage_Sqlite.thy ===== *)
theory Storage_Sqlite
  imports Storage_Spec
begin

text \<open>
  \<open>persistence.rs\<close>: the repository over SQLite (feature \<open>persist\<close>, the default).  The table
  \<open>entries\<close> is a list of rows with distinct primary keys.  Each SQL statement of the source is
  one definition with the statement's meaning; each Rust function composes them with the early
  returns of its \<open>?\<close> operators, so an error leaves behind exactly the statements that ran before
  it.  The theory ends with the interpretation of the storage contract.
\<close>

section \<open>The table and its statements\<close>

record row =
  row_id :: string
  row_message_body :: "bytes option"
  row_content_type :: "string option"
  row_acked :: int
  row_expires_at :: i64
  row_created_at :: i64

text \<open>\<open>SELECT EXISTS(SELECT 1 FROM entries WHERE id = ?1)\<close>\<close>

definition sql_exists :: "string \<Rightarrow> row list \<Rightarrow> bool" where
  "sql_exists k t = list_ex (\<lambda>w. row_id w = k) t"

text \<open>\<open>INSERT OR REPLACE INTO entries ...\<close>: a row with the same key is deleted first.\<close>

definition sql_upsert :: "row \<Rightarrow> row list \<Rightarrow> row list" where
  "sql_upsert w t = filter (\<lambda>u. row_id u \<noteq> row_id w) t @ [w]"

text \<open>\<open>DELETE FROM entries WHERE expires_at < ?1 RETURNING id\<close>\<close>

definition sql_delete_expired :: "i64 \<Rightarrow> row list \<Rightarrow> row list \<times> string list" where
  "sql_delete_expired now t =
     (filter (\<lambda>w. \<not> expired_before now (row_expires_at w)) t,
      map row_id (filter (\<lambda>w. expired_before now (row_expires_at w)) t))"

text \<open>
  \<open>SELECT id FROM entries WHERE acked = 1 ORDER BY created_at ASC LIMIT ?1\<close>.  SQL does not fix
  the order of rows with equal \<open>created_at\<close>; \<open>visit\<close> is the order in which they are met.
\<close>

definition sql_oldest_acked :: "(row list \<Rightarrow> row list) \<Rightarrow> nat \<Rightarrow> row list \<Rightarrow> string list" where
  "sql_oldest_acked visit n t =
     map row_id (take n (sort_key (\<lambda>w. sint (row_created_at w))
       (visit (filter (\<lambda>w. row_acked w = 1) t))))"

text \<open>\<open>DELETE FROM entries WHERE id IN (...)\<close>, with the number of rows deleted\<close>

definition sql_delete_acked :: "(row list \<Rightarrow> row list) \<Rightarrow> nat \<Rightarrow> row list \<Rightarrow> row list \<times> nat" where
  "sql_delete_acked visit n t =
     (let ids = sql_oldest_acked visit n t in
      (filter (\<lambda>w. row_id w \<notin> set ids) t, length (filter (\<lambda>w. row_id w \<in> set ids) t)))"

text \<open>\<open>SELECT message_body, content_type, acked, expires_at FROM entries WHERE id = ?1\<close>\<close>

definition stored_of_row :: "row \<Rightarrow> stored_entry" where
  "stored_of_row w = \<lparr>message_body = row_message_body w, content_type = row_content_type w,
     acked = (row_acked w \<noteq> 0), expires_at = row_expires_at w\<rparr>"

definition sql_select :: "string \<Rightarrow> row list \<Rightarrow> stored_entry option" where
  "sql_select k t = map_option stored_of_row (find (\<lambda>w. row_id w = k) t)"

text \<open>\<open>UPDATE entries SET acked = 1, message_body = NULL WHERE id = ?1\<close>\<close>

definition sql_ack :: "string \<Rightarrow> row list \<Rightarrow> row list \<times> nat" where
  "sql_ack k t =
     (map (\<lambda>w. if row_id w = k then w\<lparr>row_acked := 1, row_message_body := None\<rparr> else w) t,
      length (filter (\<lambda>w. row_id w = k) t))"

text \<open>\<open>DELETE FROM entries WHERE id = ?1\<close>\<close>

definition sql_delete :: "string \<Rightarrow> row list \<Rightarrow> row list \<times> nat" where
  "sql_delete k t =
     (filter (\<lambda>w. row_id w \<noteq> k) t, length (filter (\<lambda>w. row_id w = k) t))"

section \<open>\<open>EntryRepository\<close>\<close>

record sqlite_repo =
  table :: "row list"
  sqlite_max_entries :: nat

text \<open>
  \<open>new\<close> with \<open>create_schema\<close>: \<open>db\<close> is the content of the database file, \<open>None\<close> for a new file
  or an in-memory database.  \<open>CREATE TABLE IF NOT EXISTS\<close> keeps the rows of an existing table.
\<close>

definition create_schema :: "row list option \<Rightarrow> row list" where
  "create_schema db = (case db of None \<Rightarrow> [] | Some t \<Rightarrow> t)"

definition sqlite_new :: "row list option \<Rightarrow> nat \<Rightarrow> sqlite_repo" where
  "sqlite_new db n = \<lparr>table = create_schema db, sqlite_max_entries = n\<rparr>"

text \<open>
  Each step of \<open>new\<close> can fail.  \<open>db\<close> is the content of a database file, \<open>None\<close> if it does not exist
  yet; a database in memory starts empty.
\<close>

datatype open_step = O_open | O_secure_delete | O_wal | O_schema

definition sqlite_open ::
    "(open_step \<Rightarrow> bool) \<Rightarrow> (string \<Rightarrow> row list option) \<Rightarrow> string option \<Rightarrow> nat \<Rightarrow> anyhow + sqlite_repo" where
  "sqlite_open failing db path n =
     (if failing O_open then
        Inl (if path \<noteq> None then ''Failed to open SQLite database file''
             else ''Failed to open in-memory SQLite database'')
      else if failing O_secure_delete then Inl ''Failed to enable secure delete''
      else if path \<noteq> None \<and> failing O_wal then Inl ''Failed to enable WAL mode''
      else if failing O_schema then Inl ''Failed to create database schema''
      else Inr (sqlite_new (case path of None \<Rightarrow> None | Some p \<Rightarrow> db p) n))"

definition contains :: "row env \<Rightarrow> row list \<Rightarrow> string \<Rightarrow> anyhow + bool" where
  "contains e t k =
     (if fault e S_exists then Inl ''Failed to check for existing entry''
      else Inr (sql_exists k t))"

definition count_entries :: "row env \<Rightarrow> row list \<Rightarrow> anyhow + nat" where
  "count_entries e t =
     (if fault e S_count then Inl ''Failed to count entries'' else Inr (length t))"

definition delete_expired :: "row env \<Rightarrow> row list \<Rightarrow> row list \<times> (anyhow + string list)" where
  "delete_expired e t =
     (if fault e S_prepare_delete_expired then
        (t, Inl ''Failed to prepare deletion of expired entries'')
      else if fault e S_delete_expired then (t, Inl ''Failed to delete expired entries'')
      else (let (t', ids) = sql_delete_expired (t_purge e) t in (t', Inr ids)))"

definition make_room :: "row env \<Rightarrow> nat \<Rightarrow> row list \<Rightarrow> row list \<times> (anyhow + bool)" where
  "make_room e limit t =
     (case count_entries e t of
        Inl err \<Rightarrow> (t, Inl err)
      | Inr count0 \<Rightarrow>
          if count0 < limit then (t, Inr True)
          else (case delete_expired e t of
             (t1, Inl err) \<Rightarrow> (t1, Inl err)
           | (t1, Inr ids) \<Rightarrow>
               let count1 = count0 - length ids in
               if count1 < limit then (t1, Inr True)
               else let entries_over_limit = count1 + 1 - limit in
                 if fault e S_delete_acked then
                   (t1, Inl ''Failed to delete acknowledged entries'')
                 else let (t2, deleted) = sql_delete_acked (scan e) entries_over_limit t1;
                          count2 = count1 - deleted
                   in (t2, Inr (count2 < limit))))"

definition sqlite_write :: "row env \<Rightarrow> sqlite_repo \<Rightarrow> row \<Rightarrow> sqlite_repo \<times> (anyhow + insert_outcome)" where
  "sqlite_write e r w =
     (if fault e S_upsert then (r, Inl ''Failed to insert entry'')
      else (r\<lparr>table := sql_upsert w (table r)\<rparr>, Inr Stored))"

definition sqlite_insert ::
    "row env \<Rightarrow> sqlite_repo \<Rightarrow> string \<Rightarrow> bytes \<Rightarrow> string option \<Rightarrow> i64 \<Rightarrow>
     sqlite_repo \<times> (anyhow + insert_outcome)" where
  "sqlite_insert e r k b ct x =
     (let w = \<lparr>row_id = k, row_message_body = Some b, row_content_type = ct, row_acked = 0,
               row_expires_at = x, row_created_at = t_insert e\<rparr> in
      case contains e (table r) k of
        Inl err \<Rightarrow> (r, Inl err)
      | Inr True \<Rightarrow> sqlite_write e r w
      | Inr False \<Rightarrow>
          (case make_room e (sqlite_max_entries r) (table r) of
             (t, Inl err) \<Rightarrow> (r\<lparr>table := t\<rparr>, Inl err)
           | (t, Inr False) \<Rightarrow> (r\<lparr>table := t\<rparr>, Inr StoreFull)
           | (t, Inr True) \<Rightarrow> sqlite_write e (r\<lparr>table := t\<rparr>) w))"

definition sqlite_get :: "row env \<Rightarrow> sqlite_repo \<Rightarrow> string \<Rightarrow> anyhow + stored_entry option" where
  "sqlite_get e r k =
     (if fault e S_select then Inl ''Failed to get entry'' else Inr (sql_select k (table r)))"

definition sqlite_ack :: "row env \<Rightarrow> sqlite_repo \<Rightarrow> string \<Rightarrow> sqlite_repo \<times> (anyhow + bool)" where
  "sqlite_ack e r k =
     (if fault e S_ack then (r, Inl ''Failed to acknowledge entry'')
      else (let (t, rows_affected) = sql_ack k (table r) in
            (r\<lparr>table := t\<rparr>, Inr (rows_affected > 0))))"

definition sqlite_delete :: "row env \<Rightarrow> sqlite_repo \<Rightarrow> string \<Rightarrow> sqlite_repo \<times> (anyhow + bool)" where
  "sqlite_delete e r k =
     (if fault e S_delete then (r, Inl ''Failed to delete entry'')
      else (let (t, rows_affected) = sql_delete k (table r) in
            (r\<lparr>table := t\<rparr>, Inr (rows_affected > 0))))"

definition sqlite_cleanup_expired :: "row env \<Rightarrow> sqlite_repo \<Rightarrow> sqlite_repo \<times> (anyhow + string list)" where
  "sqlite_cleanup_expired e r =
     (let (t, res) = delete_expired e (table r) in (r\<lparr>table := t\<rparr>, res))"

definition sqlite_count :: "row env \<Rightarrow> sqlite_repo \<Rightarrow> anyhow + nat" where
  "sqlite_count e r = count_entries e (table r)"

text \<open>The accessor \<open>max_entries\<close>, from which \<open>WaitingList::new\<close> takes its own limit\<close>

definition sqlite_limit :: "sqlite_repo \<Rightarrow> nat" where
  "sqlite_limit r = sqlite_max_entries r"

definition sqlite_ops :: "(sqlite_repo, row) repo_ops" where
  "sqlite_ops = \<lparr>repo_insert = sqlite_insert, repo_get = sqlite_get, repo_ack = sqlite_ack,
     repo_delete = sqlite_delete, repo_cleanup = sqlite_cleanup_expired,
     repo_count = sqlite_count, repo_max = sqlite_limit\<rparr>"

lemma sqlite_ops_simps [simp]:
  "repo_insert sqlite_ops = sqlite_insert" "repo_get sqlite_ops = sqlite_get"
  "repo_ack sqlite_ops = sqlite_ack" "repo_delete sqlite_ops = sqlite_delete"
  "repo_cleanup sqlite_ops = sqlite_cleanup_expired" "repo_count sqlite_ops = sqlite_count"
  "repo_max sqlite_ops = sqlite_max_entries"
  by (simp_all add: sqlite_ops_def sqlite_limit_def fun_eq_iff)

section \<open>Invariant and abstract content\<close>

definition table_ok :: "row list \<Rightarrow> bool" where
  "table_ok t \<longleftrightarrow> distinct (map row_id t) \<and>
     (\<forall>w \<in> set t. (row_acked w = 0 \<and> row_message_body w \<noteq> None) \<or>
                  (row_acked w = 1 \<and> row_message_body w = None))"

definition sqlite_invar :: "sqlite_repo \<Rightarrow> bool" where
  "sqlite_invar r \<longleftrightarrow> table_ok (table r)"

definition table_view :: "row list \<Rightarrow> string \<rightharpoonup> stored_entry" where
  "table_view t k = sql_select k t"

definition sqlite_view :: "sqlite_repo \<Rightarrow> string \<rightharpoonup> stored_entry" where
  "sqlite_view r = table_view (table r)"

text \<open>The table as a keyed list, which brings in the lemmas on hash maps.\<close>

definition keyed :: "row list \<Rightarrow> (string, row) hash_map" where
  "keyed t = map (\<lambda>w. (row_id w, w)) t"

lemma keyed_ok: "table_ok t \<Longrightarrow> hm_ok (keyed t)"
  by (simp add: table_ok_def hm_ok_def keyed_def comp_def)

lemma keyed_filter: "keyed (filter P t) = filter (\<lambda>(k, w). P w) (keyed t)"
  by (induction t) (auto simp: keyed_def)

lemma find_keyed: "find (\<lambda>w. row_id w = k) t = map_of (keyed t) k"
  by (induction t) (auto simp: keyed_def)

lemma table_view_eq: "table_view t k = map_option stored_of_row (map_of (keyed t) k)"
  by (simp add: table_view_def sql_select_def find_keyed)

lemma table_view_mem:
  assumes "table_ok t"
  shows "table_view t k = Some s \<longleftrightarrow> (\<exists>w \<in> set t. row_id w = k \<and> s = stored_of_row w)"
proof -
  have "(k, w) \<in> set (keyed t) \<longleftrightarrow> w \<in> set t \<and> row_id w = k" for w
    by (auto simp: keyed_def)
  then show ?thesis
    using hm_mem[OF keyed_ok[OF assms]] by (auto simp: table_view_eq)
qed

lemma keyed_get_filter:
  assumes "table_ok t"
  shows "map_of (keyed (filter P t)) k =
    (case map_of (keyed t) k of None \<Rightarrow> None | Some w \<Rightarrow> if P w then Some w else None)"
  using hm_get_filter[OF keyed_ok[OF assms]] by (simp add: keyed_filter split: option.splits)

lemma keyed_mem: "map_of (keyed t) k = Some w \<Longrightarrow> w \<in> set t \<and> row_id w = k"
  by (auto simp: keyed_def dest!: map_of_SomeD)

lemma table_view_dom: "dom (table_view t) = row_id ` set t"
  by (auto simp: dom_def table_view_eq keyed_def map_of_eq_None_iff image_iff)

lemma table_view_card: "table_ok t \<Longrightarrow> card (dom (table_view t)) = length t"
  by (simp add: table_view_dom table_ok_def distinct_card flip: set_map)

lemma table_ok_filter [simp]: "table_ok t \<Longrightarrow> table_ok (filter P t)"
  by (auto simp: table_ok_def distinct_map_filter)

section \<open>What each statement does to the content\<close>

definition row_disposable :: "i64 \<Rightarrow> row \<Rightarrow> bool" where
  "row_disposable now w \<longleftrightarrow> row_acked w = 1 \<or> expired_before now (row_expires_at w)"

lemma row_disposable_iff:
  "table_ok t \<Longrightarrow> w \<in> set t \<Longrightarrow> disposable now (stored_of_row w) = row_disposable now w"
  by (auto simp: table_ok_def disposable_def row_disposable_def stored_of_row_def)

lemma sql_exists_view: "sql_exists k t \<longleftrightarrow> table_view t k \<noteq> None"
proof -
  have "sql_exists k t \<longleftrightarrow> k \<in> dom (table_view t)"
    by (auto simp: sql_exists_def list_ex_iff table_view_dom)
  then show ?thesis by (simp add: domIff)
qed

lemma upsert_ok:
  "table_ok t \<Longrightarrow> row_acked w = 0 \<Longrightarrow> row_message_body w \<noteq> None \<Longrightarrow> table_ok (sql_upsert w t)"
  by (auto simp: table_ok_def sql_upsert_def distinct_map_filter)

lemma upsert_view:
  assumes "table_ok t"
  shows "table_view (sql_upsert w t) = (table_view t)(row_id w \<mapsto> stored_of_row w)"
proof
  fix k
  have "keyed (sql_upsert w t) = filter (\<lambda>(k, u). row_id u \<noteq> row_id w) (keyed t) @ [(row_id w, w)]"
    by (simp add: sql_upsert_def keyed_filter[symmetric]) (simp add: keyed_def)
  then show "table_view (sql_upsert w t) k = ((table_view t)(row_id w \<mapsto> stored_of_row w)) k"
    using hm_get_filter[OF keyed_ok[OF assms]]
    by (auto simp: table_view_eq map_add_def dest: keyed_mem split: option.splits)
qed

lemma upsert_length:
  assumes "table_ok t"
  shows "length (sql_upsert w t) \<le> Suc (length t)"
    and "table_view t (row_id w) \<noteq> None \<Longrightarrow> length (sql_upsert w t) = length t"
proof -
  show "length (sql_upsert w t) \<le> Suc (length t)"
    by (simp add: sql_upsert_def)
  assume old: "table_view t (row_id w) \<noteq> None"
  have "distinct (map row_id (sql_upsert w t))"
    using assms by (auto simp: table_ok_def sql_upsert_def distinct_map_filter)
  then have "length (sql_upsert w t) = card (row_id ` set (sql_upsert w t))"
    by (metis distinct_card length_map list.set_map)
  also have "row_id ` set (sql_upsert w t) = row_id ` set t"
  proof -
    have "row_id w \<in> row_id ` set t" using old by (metis domI not_None_eq table_view_dom)
    then show ?thesis by (auto simp: sql_upsert_def)
  qed
  also have "card (row_id ` set t) = length t"
    using table_view_card[OF assms] by (simp add: table_view_dom)
  finally show "length (sql_upsert w t) = length t" .
qed

lemma filter_purged:
  assumes "table_ok t" and "\<And>w. w \<in> set t \<Longrightarrow> \<not> P w \<Longrightarrow> row_disposable now w"
  shows "purged now (table_view t) (table_view (filter P t))"
  unfolding purged_def map_le_def
proof (intro conjI ballI allI impI)
  fix k assume "k \<in> dom (table_view (filter P t))"
  then show "table_view (filter P t) k = table_view t k"
    by (auto simp: keyed_get_filter[OF assms(1)] table_view_eq split: option.splits if_splits)
next
  fix k s assume "table_view t k = Some s \<and> table_view (filter P t) k = None"
  then obtain w where "map_of (keyed t) k = Some w" "\<not> P w" "s = stored_of_row w"
    by (auto simp: keyed_get_filter[OF assms(1)] table_view_eq split: option.splits if_splits)
  then show "disposable now s"
    using assms keyed_mem row_disposable_iff by metis
qed

text \<open>Keeping exactly the rows that are not disposable leaves exactly the held entries.\<close>

lemma filter_held:
  assumes "table_ok t"
  shows "table_view (filter (\<lambda>w. \<not> row_disposable now w) t) = table_view t |` held now (table_view t)"
proof
  fix k
  show "table_view (filter (\<lambda>w. \<not> row_disposable now w) t) k =
      (table_view t |` held now (table_view t)) k"
    by (auto simp: keyed_get_filter[OF assms] restrict_map_def held_def table_view_eq
        row_disposable_iff[OF assms] dest: keyed_mem split: option.splits)
qed

lemma victims_props:
  fixes n :: nat
  assumes "table_ok t" and fair: "\<And>xs. mset (visit xs) = mset xs"
  defines "A \<equiv> filter (\<lambda>w. row_acked w = 1) t"
    and "ids \<equiv> sql_oldest_acked visit n t"
  shows "distinct ids" and "length ids = min n (length A)" and "set ids \<subseteq> row_id ` set A"
    and "length A \<le> n \<Longrightarrow> set ids = row_id ` set A"
proof -
  let ?S = "sort_key (\<lambda>w. sint (row_created_at w)) (visit A)"
  have ids: "ids = take n (map row_id ?S)"
    by (simp add: ids_def sql_oldest_acked_def A_def take_map)
  have m: "mset (map row_id ?S) = mset (map row_id A)"
    by (simp add: fair)
  have "distinct (map row_id A)"
    using assms(1) by (simp add: table_ok_def A_def distinct_map_filter)
  then have d: "distinct (map row_id ?S)"
    using m mset_eq_imp_distinct_iff by blast
  have l: "length ?S = length A"
    using m by (metis length_map size_mset)
  have s: "set (map row_id ?S) = row_id ` set A"
    using m by (metis list.set_map set_mset_mset)
  show "distinct ids" using d by (simp add: ids)
  show "length ids = min n (length A)" using l by (simp add: ids)
  show "set ids \<subseteq> row_id ` set A" using s set_take_subset ids by metis
  show "set ids = row_id ` set A" if "length A \<le> n" using that s l by (simp add: ids)
qed

text \<open>The rows deleted are counted exactly: at most \<open>n\<close>, and all acknowledged rows if there are
  no more than \<open>n\<close>.\<close>

lemma delete_acked_count:
  assumes "table_ok t" and fair: "\<And>xs. mset (visit xs) = mset xs"
    and del: "sql_delete_acked visit n t = (t', d)"
  shows "d = min n (length (filter (\<lambda>w. row_acked w = 1) t))" and "length t' + d = length t"
proof -
  let ?ids = "sql_oldest_acked visit n t"
  have t': "t' = filter (\<lambda>w. row_id w \<notin> set ?ids) t" and d: "d = length (filter (\<lambda>w. row_id w \<in> set ?ids) t)"
    using del by (auto simp: sql_delete_acked_def Let_def)
  note v = victims_props[OF assms(1) fair, of n]
  have "distinct (map row_id (filter (\<lambda>w. row_id w \<in> set ?ids) t))"
    using assms(1) by (simp add: table_ok_def distinct_map_filter)
  then have "d = card (row_id ` set (filter (\<lambda>w. row_id w \<in> set ?ids) t))"
    by (metis d distinct_card length_map list.set_map)
  also have "row_id ` set (filter (\<lambda>w. row_id w \<in> set ?ids) t) = set ?ids"
    using v(3) by auto
  also have "card (set ?ids) = min n (length (filter (\<lambda>w. row_acked w = 1) t))"
    using v(1,2) by (simp add: distinct_card)
  finally show "d = min n (length (filter (\<lambda>w. row_acked w = 1) t))" .
  show "length t' + d = length t"
    using length_filter_split[of "\<lambda>w. row_id w \<in> set ?ids" t] by (simp add: t' d)
qed

lemma delete_acked_rows:
  assumes "table_ok t" and fair: "\<And>xs. mset (visit xs) = mset xs"
    and del: "sql_delete_acked visit n t = (t', d)"
  shows "\<exists>P. t' = filter P t \<and> (\<forall>w \<in> set t. \<not> P w \<longrightarrow> row_acked w = 1)"
    and "d < n \<Longrightarrow> t' = filter (\<lambda>w. row_acked w \<noteq> 1) t"
proof -
  let ?ids = "sql_oldest_acked visit n t"
  have t': "t' = filter (\<lambda>w. row_id w \<notin> set ?ids) t"
    using del by (auto simp: sql_delete_acked_def Let_def)
  note v = victims_props[OF assms(1) fair, of n]
  have inj: "inj_on row_id (set t)"
    using assms(1) by (simp add: table_ok_def distinct_map)
  have only: "row_acked w = 1" if "w \<in> set t" "row_id w \<in> set ?ids" for w
    using that v(3) inj by (auto dest: inj_onD)
  show "\<exists>P. t' = filter P t \<and> (\<forall>w \<in> set t. \<not> P w \<longrightarrow> row_acked w = 1)"
    using t' only by blast
  assume "d < n"
  then have "set ?ids = row_id ` set (filter (\<lambda>w. row_acked w = 1) t)"
    using v(4) delete_acked_count(1)[OF assms] by simp
  then show "t' = filter (\<lambda>w. row_acked w \<noteq> 1) t"
    using only by (auto simp: t' intro!: filter_cong)
qed

section \<open>The repository functions\<close>

lemma delete_expired_cases:
  assumes "delete_expired e t = (t', res)"
  obtains (failed) err where "res = Inl err" "t' = t" "\<not> reliable e"
  | (purge) ids where "res = Inr ids" "t' = filter (\<lambda>w. \<not> expired_before (t_purge e) (row_expires_at w)) t"
      "ids = map row_id (filter (\<lambda>w. expired_before (t_purge e) (row_expires_at w)) t)"
      "length ids + length t' = length t"
  using assms
proof (cases "fault e S_prepare_delete_expired \<or> fault e S_delete_expired")
  case True
  then have "\<not> reliable e" by auto
  with True assms that(1) show ?thesis by (auto simp: delete_expired_def split: if_splits)
next
  case False
  with assms that(2) show ?thesis
    by (auto simp: delete_expired_def sql_delete_expired_def length_filter_split)
qed

text \<open>The last step of \<open>make_room\<close>: \<open>t1\<close> is the table without its expired rows.\<close>

lemma filter_pure:
  assumes "table_ok t" and "\<And>w. w \<in> set t \<Longrightarrow> \<not> P w \<Longrightarrow> row_disposable now w"
  shows "table_ok (filter P t) \<and> length (filter P t) \<le> length t \<and>
    purged now (table_view t) (table_view (filter P t))"
  using assms filter_purged by simp

lemma delete_acked_makes_room:
  assumes ok: "table_ok t" and fair: "\<And>xs. mset (visit xs) = mset xs"
    and t1: "t1 = filter (\<lambda>w. \<not> expired_before now (row_expires_at w)) t"
    and over: "limit \<le> length t1" "over = length t1 + 1 - limit"
    and da: "sql_delete_acked visit over t1 = (t2, d)"
  shows "table_ok t2 \<and> length t2 \<le> length t \<and> purged now (table_view t) (table_view t2)"
    and "length t1 - d = length t2"
    and "\<not> length t2 < limit \<Longrightarrow> table_view t2 = table_view t |` held now (table_view t) \<and>
           limit \<le> card (held now (table_view t))"
proof -
  have ok1: "table_ok t1" using ok by (simp add: t1)
  note cnt = delete_acked_count[OF ok1 fair da] and rows = delete_acked_rows[OF ok1 fair da]
  obtain P where P: "t2 = filter P t1" "\<forall>w \<in> set t1. \<not> P w \<longrightarrow> row_acked w = 1"
    using rows(1) by blast
  have t2: "t2 = filter (\<lambda>w. P w \<and> \<not> expired_before now (row_expires_at w)) t"
    by (simp add: P(1) t1 conj_commute)
  show pure2: "table_ok t2 \<and> length t2 \<le> length t \<and> purged now (table_view t) (table_view t2)"
    unfolding t2 using ok by (rule filter_pure) (use P(2) t1 in \<open>auto simp: row_disposable_def\<close>)
  show "length t1 - d = length t2" using cnt(2) by simp
  assume nr: "\<not> length t2 < limit"
  then have "d < over" using cnt over by (auto simp: min_def split: if_splits)
  then have "t2 = filter (\<lambda>w. \<not> row_disposable now w) t"
    using rows(2) by (simp add: t1 row_disposable_def conj_commute)
  then have v: "table_view t2 = table_view t |` held now (table_view t)"
    using filter_held[OF ok] by simp
  then have "dom (table_view t2) = held now (table_view t)"
    using held_subset[of now "table_view t"] by auto
  then have "card (held now (table_view t)) = length t2"
    using table_view_card pure2 by metis
  with v nr show "table_view t2 = table_view t |` held now (table_view t) \<and>
      limit \<le> card (held now (table_view t))" by simp
qed

text \<open>
  \<open>make_room\<close> only deletes disposable rows; if it reports a slot there is one, and if it reports
  none then every row left holds a message and they fill the store.
\<close>

lemma make_room_spec:
  assumes ok: "table_ok t" and fair: "\<And>xs. mset (scan e xs) = mset xs"
    and mr: "make_room e limit t = (t', res)"
  shows "table_ok t' \<and> length t' \<le> length t \<and> purged (t_purge e) (table_view t) (table_view t') \<and>
    (res = Inr True \<longrightarrow> length t' < limit) \<and>
    (res = Inr False \<longrightarrow> table_view t' = table_view t |` held (t_purge e) (table_view t) \<and>
       limit \<le> card (held (t_purge e) (table_view t)))"
proof (cases "fault e S_count \<or> length t < limit")
  case True
  with mr ok show ?thesis by (auto simp: make_room_def count_entries_def split: if_splits)
next
  case False
  obtain t1 dres where de: "delete_expired e t = (t1, dres)" by fastforce
  from de show ?thesis
  proof (cases rule: delete_expired_cases)
    case failed
    with mr ok de False show ?thesis by (auto simp: make_room_def count_entries_def)
  next
    case (purge ids)
    have len1: "length t - length ids = length t1" using purge(4) by simp
    show ?thesis
    proof (cases "length t1 < limit \<or> fault e S_delete_acked")
      case True
      have "table_ok t1 \<and> length t1 \<le> length t \<and> purged (t_purge e) (table_view t) (table_view t1)"
        unfolding purge(2) using ok by (rule filter_pure) (simp add: row_disposable_def)
      with True mr False de purge(1) len1 show ?thesis
        by (auto simp: make_room_def count_entries_def Let_def split: if_splits)
    next
      case more: False
      define over where "over = length t1 + 1 - limit"
      obtain t2 d where da: "sql_delete_acked (scan e) over t1 = (t2, d)" by fastforce
      have "limit \<le> length t1" using more by simp
      note last = delete_acked_makes_room[OF ok fair purge(2) this over_def da]
      have "t' = t2" "res = Inr (length t2 < limit)"
        using mr False de purge(1) len1 more da last(2)
        by (auto simp: make_room_def count_entries_def Let_def over_def)
      with last(1,3) show ?thesis by auto
    qed
  qed
qed

lemma make_room_reliable: "reliable e \<Longrightarrow> \<exists>ok. snd (make_room e limit t) = Inr ok"
  by (auto simp: make_room_def count_entries_def delete_expired_def sql_delete_expired_def
      Let_def split: prod.splits)

lemma sqlite_insert_reliable:
  assumes "reliable e"
  shows "\<exists>out. snd (sqlite_insert e r k b ct x) = Inr out"
proof -
  obtain t ok where "make_room e (sqlite_max_entries r) (table r) = (t, Inr ok)"
    using make_room_reliable[OF assms] by (metis prod.collapse)
  then show ?thesis
    using assms by (cases ok; cases "sql_exists k (table r)")
      (simp_all add: sqlite_insert_def contains_def sqlite_write_def)
qed

text \<open>Writing the row once there is room, or the key is there already.\<close>

lemma sqlite_write_spec:
  assumes "table_ok (table r)" and "row_acked w = 0" and "row_message_body w = Some b"
    and "sqlite_write e r w = (r', res)"
  shows "sqlite_max_entries r' = sqlite_max_entries r \<and> table_ok (table r') \<and>
    (case res of Inl _ \<Rightarrow> r' = r
     | Inr out \<Rightarrow> out = Stored \<and>
         table_view (table r') =
           (table_view (table r))(row_id w \<mapsto> fresh_entry b (row_content_type w) (row_expires_at w)) \<and>
         length (table r') \<le> Suc (length (table r)) \<and>
         (table_view (table r) (row_id w) \<noteq> None \<longrightarrow> length (table r') = length (table r)))"
proof -
  have "stored_of_row w = fresh_entry b (row_content_type w) (row_expires_at w)"
    using assms(2,3) by (simp add: stored_of_row_def fresh_entry_def)
  then show ?thesis
    using assms upsert_view[OF assms(1)] upsert_length[OF assms(1)] upsert_ok[OF assms(1)]
    by (auto simp: sqlite_write_def split: if_splits)
qed

lemma sqlite_insert_spec:
  assumes inv: "sqlite_invar r" and fair: "fair_scan e"
    and ins: "sqlite_insert e r k b ct x = (r', res)"
  defines "v \<equiv> sqlite_view r" and "v' \<equiv> sqlite_view r'" and "n \<equiv> sqlite_max_entries r"
  shows "sqlite_invar r' \<and> sqlite_max_entries r' = n \<and>
    length (table r') \<le> max (length (table r)) n \<and>
    (res = Inr Stored \<longrightarrow> (\<exists>u. (if v k = None then purged (t_purge e) v u else u = v) \<and>
        v' = u(k \<mapsto> fresh_entry b ct x) \<and> (v k = None \<longrightarrow> card (held (t_purge e) v) < n))) \<and>
    (res = Inr StoreFull \<longrightarrow> v k = None \<and> v' = v |` held (t_purge e) v \<and>
        n \<le> card (held (t_purge e) v)) \<and>
    (\<forall>err. res = Inl err \<longrightarrow> (if v k = None then purged (t_purge e) v v' else v' = v))"
proof -
  let ?w = "\<lparr>row_id = k, row_message_body = Some b, row_content_type = ct, row_acked = 0,
               row_expires_at = x, row_created_at = t_insert e\<rparr>"
  have ok: "table_ok (table r)" using inv by (simp add: sqlite_invar_def)
  have fair': "mset (scan e xs) = mset xs" for xs using fair by (simp add: fair_scan_def)
  consider (lookup_failed) "fault e S_exists" | (old) "\<not> fault e S_exists" "v k \<noteq> None"
    | (new) "\<not> fault e S_exists" "v k = None" by blast
  then show ?thesis
  proof cases
    case lookup_failed
    with ins inv show ?thesis
      by (auto simp: sqlite_insert_def contains_def v_def v'_def n_def)
  next
    case old
    then have "sqlite_write e r ?w = (r', res)"
      using ins by (simp add: sqlite_insert_def contains_def sql_exists_view v_def sqlite_view_def)
    from sqlite_write_spec[OF ok _ _ this] old show ?thesis
      by (auto simp: sqlite_invar_def v_def v'_def n_def sqlite_view_def split: sum.splits)
  next
    case new
    obtain t mres where mr: "make_room e n (table r) = (t, mres)" by fastforce
    note room = make_room_spec[OF ok fair' mr]
    have call: "(case mres of Inl err \<Rightarrow> (r\<lparr>table := t\<rparr>, Inl err)
        | Inr False \<Rightarrow> (r\<lparr>table := t\<rparr>, Inr StoreFull)
        | Inr True \<Rightarrow> sqlite_write e (r\<lparr>table := t\<rparr>) ?w) = (r', res)"
      using ins new mr
      by (auto simp: sqlite_insert_def contains_def sql_exists_view v_def sqlite_view_def n_def
          split: sum.splits bool.splits)
    show ?thesis
    proof (cases "mres = Inr True")
      case True
      have below: "card (held (t_purge e) v) < n"
      proof -
        have "held (t_purge e) v \<subseteq> dom (table_view t)"
          using room purged_held[of "t_purge e" v "table_view t"]
          by (fastforce simp: v_def sqlite_view_def held_def)
        then have "card (held (t_purge e) v) \<le> length t"
          using room table_view_card[of t] by (metis card_mono finite_dom_map_of finite_imageI
              finite_set table_view_dom)
        then show ?thesis using room True by simp
      qed
      have "sqlite_write e (r\<lparr>table := t\<rparr>) ?w = (r', res)" using call True by simp
      from sqlite_write_spec[OF _ _ _ this] room True new below show ?thesis
        by (auto simp: sqlite_invar_def v_def v'_def n_def sqlite_view_def split: sum.splits)
    next
      case False
      with call room inv new show ?thesis
        by (auto simp: sqlite_invar_def v_def v'_def n_def sqlite_view_def
            split: sum.splits bool.splits)
    qed
  qed
qed

lemma sql_ack_spec:
  assumes ok: "table_ok t" and ack: "sql_ack k t = (t', n)"
  shows "table_ok t'" and "(n > 0) = (table_view t k \<noteq> None)"
    and "table_view t' = (case table_view t k of None \<Rightarrow> table_view t
           | Some s \<Rightarrow> (table_view t)(k \<mapsto> acked_entry s))"
proof -
  let ?f = "\<lambda>w. if row_id w = k then w\<lparr>row_acked := 1, row_message_body := None\<rparr> else w"
  have t': "t' = map ?f t" and n: "n = length (filter (\<lambda>w. row_id w = k) t)"
    using ack by (auto simp: sql_ack_def)
  have ids: "map row_id t' = map row_id t" by (simp add: t')
  show "table_ok t'"
    using ok unfolding table_ok_def ids by (auto simp: t')
  show "(n > 0) = (table_view t k \<noteq> None)"
    using sql_exists_view[of k t] by (auto simp: n sql_exists_def list_ex_iff filter_empty_conv)
  have m: "map_of (keyed t') j = map_option ?f (map_of (keyed t) j)" for j
    unfolding t' keyed_def by (induction t) auto
  show "table_view t' = (case table_view t k of None \<Rightarrow> table_view t
           | Some s \<Rightarrow> (table_view t)(k \<mapsto> acked_entry s))"
  proof
    fix j
    have hit: "row_id w = i" if "map_of (keyed t) i = Some w" for i w
      using that by (simp add: keyed_mem)
    show "table_view t' j = (case table_view t k of None \<Rightarrow> table_view t
           | Some s \<Rightarrow> (table_view t)(k \<mapsto> acked_entry s)) j"
      by (cases "map_of (keyed t) j"; cases "j = k")
         (auto simp: table_view_eq m stored_of_row_def acked_entry_def dest: hit split: option.splits)
  qed
qed

section \<open>The storage contract holds\<close>

lemma sqlite_view_get: "sqlite_get e r k = Inr v \<Longrightarrow> v = sqlite_view r k"
  by (simp add: sqlite_get_def sqlite_view_def table_view_def split: if_splits)

lemma sqlite_body_iff:
  assumes "sqlite_invar r" and "sqlite_view r k = Some s"
  shows "(message_body s = None) = acked s"
  using assms
  by (auto simp: sqlite_invar_def sqlite_view_def table_view_mem table_ok_def stored_of_row_def)

lemma sqlite_card: "sqlite_invar r \<Longrightarrow> card (dom (sqlite_view r)) = length (table r)"
  by (simp add: sqlite_invar_def sqlite_view_def table_view_card)

lemma sqlite_cleanup_spec:
  assumes inv: "sqlite_invar r" and cl: "sqlite_cleanup_expired e r = (r', res)"
  shows "sqlite_invar r' \<and> sqlite_max_entries r' = sqlite_max_entries r \<and>
    (case res of Inl _ \<Rightarrow> sqlite_view r' = sqlite_view r
     | Inr ids \<Rightarrow> distinct ids \<and> sqlite_view r' = sqlite_view r |` (- set ids) \<and>
         set ids = {k. \<exists>s. sqlite_view r k = Some s \<and> expired_before (t_purge e) (expires_at s)})"
proof -
  have ok: "table_ok (table r)" using inv by (simp add: sqlite_invar_def)
  obtain t where de: "delete_expired e (table r) = (t, res)" and r': "r' = r\<lparr>table := t\<rparr>"
    using cl by (auto simp: sqlite_cleanup_expired_def split: prod.splits)
  from de show ?thesis
  proof (cases rule: delete_expired_cases)
    case failed
    with r' ok show ?thesis by (simp add: sqlite_invar_def)
  next
    case (purge ids)
    have ids: "set ids = {k. \<exists>s. table_view (table r) k = Some s \<and> expired_before (t_purge e) (expires_at s)}"
      using purge(3) by (auto simp: table_view_mem[OF ok] stored_of_row_def)
    have d: "distinct ids" using ok purge(3) by (simp add: table_ok_def distinct_map_filter)
    have "table_view t k = (table_view (table r) |` (- set ids)) k" for k
      unfolding purge(2) ids
      by (auto simp: table_view_eq keyed_get_filter[OF ok] restrict_map_def stored_of_row_def
          split: option.splits)
    then have v: "table_view t = table_view (table r) |` (- set ids)" by (rule ext)
    show ?thesis using ok v purge(1,2) ids d r' by (simp add: sqlite_invar_def sqlite_view_def)
  qed
qed

interpretation sqlite: entry_store sqlite_ops sqlite_invar sqlite_view
proof unfold_locales
  fix r and e :: "row env" and k v
  assume inv: "sqlite_invar r"
  show "finite (dom (sqlite_view r))" by (simp add: sqlite_view_def table_view_dom)
  show "v = sqlite_view r k" if "repo_get sqlite_ops e r k = Inr v"
    using that by (simp add: sqlite_view_get)
  show "\<exists>v. repo_get sqlite_ops e r k = Inr v" if "reliable e"
    using that by (simp add: sqlite_get_def)
  show "(message_body s = None) = acked s" if "sqlite_view r k = Some s" for s
    using inv that by (rule sqlite_body_iff)
  show "\<exists>found. snd (repo_ack sqlite_ops e r k) = Inr found" if "reliable e"
    using that by (simp add: sqlite_ack_def split: prod.splits)
  show "\<exists>ids. snd (repo_cleanup sqlite_ops e r) = Inr ids" if "reliable e"
    using that by (simp add: sqlite_cleanup_expired_def delete_expired_def sql_delete_expired_def)
next
  fix r and e :: "row env" and k b ct x
  assume "sqlite_invar r" "reliable e"
  then show "\<exists>out. snd (repo_insert sqlite_ops e r k b ct x) = Inr out"
    by (simp add: sqlite_insert_reliable)
next
  fix r and e :: "row env" and k r' res
  assume "sqlite_invar r" and "repo_ack sqlite_ops e r k = (r', res)"
  then show "sqlite_invar r' \<and> repo_max sqlite_ops r' = repo_max sqlite_ops r \<and>
      (case res of Inl _ \<Rightarrow> sqlite_view r' = sqlite_view r
       | Inr found \<Rightarrow> found = (sqlite_view r k \<noteq> None) \<and> sqlite_view r' =
           (case sqlite_view r k of None \<Rightarrow> sqlite_view r
            | Some s \<Rightarrow> (sqlite_view r)(k \<mapsto> acked_entry s)))"
    using sql_ack_spec[of "table r" k]
    by (auto simp: sqlite_ack_def sqlite_invar_def sqlite_view_def split: if_splits prod.splits)
next
  fix r and e :: "row env" and r' res
  assume "sqlite_invar r" and "repo_cleanup sqlite_ops e r = (r', res)"
  then show "sqlite_invar r' \<and> repo_max sqlite_ops r' = repo_max sqlite_ops r \<and>
      (case res of Inl _ \<Rightarrow> sqlite_view r' = sqlite_view r
       | Inr ids \<Rightarrow> distinct ids \<and> sqlite_view r' = sqlite_view r |` (- set ids) \<and>
         set ids = {k. \<exists>s. sqlite_view r k = Some s \<and> expired_before (t_purge e) (expires_at s)})"
    using sqlite_cleanup_spec by simp
qed (use sqlite_insert_spec sqlite_card in \<open>force+\<close>)

end
