(* ===== verification/Storage_Memory.thy ===== *)
theory Storage_Memory
  imports Storage_Spec
begin

text \<open>
  \<open>storage_memory.rs\<close>: the repository over a \<open>HashMap\<close> (without feature \<open>persist\<close>).  Nothing
  here can fail; what the source leaves open is the iteration order of the map, which decides
  between acknowledged entries of the same age (\<open>scan\<close>).  The theory ends with the
  interpretation of the storage contract: both back ends keep the same promises.
\<close>

section \<open>\<open>EntryRepository\<close>\<close>

record entry =
  e_message_body :: "bytes option"
  e_content_type :: "string option"
  e_acked :: bool
  e_expires_at :: i64
  e_created_at :: i64

type_synonym entry_map = "(string, entry) hash_map"

record memory_repo =
  entries :: entry_map
  memory_max_entries :: nat

definition memory_new :: "nat \<Rightarrow> memory_repo" where
  "memory_new n = \<lparr>entries = [], memory_max_entries = n\<rparr>"

text \<open>\<open>Iterator::min_by_key\<close> returns the first of several minimal elements.\<close>

fun min_by_key :: "('a \<Rightarrow> int) \<Rightarrow> 'a list \<Rightarrow> 'a option" where
  "min_by_key f [] = None"
| "min_by_key f (x # xs) =
     (case min_by_key f xs of None \<Rightarrow> Some x | Some y \<Rightarrow> if f y < f x then Some y else Some x)"

definition memory_delete_expired ::
    "(string \<times> entry) env \<Rightarrow> entry_map \<Rightarrow> entry_map \<times> string list" where
  "memory_delete_expired e m =
     (let expired_ids = map fst (filter (\<lambda>(_, w). expired_before (t_purge e) (e_expires_at w)) (scan e m))
      in (fold hm_remove expired_ids m, expired_ids))"

definition oldest_acked_id :: "(string \<times> entry) env \<Rightarrow> entry_map \<Rightarrow> string option" where
  "oldest_acked_id e m =
     map_option fst (min_by_key (\<lambda>(_, w). sint (e_created_at w)) (filter (\<lambda>(_, w). e_acked w) (scan e m)))"

definition memory_make_room ::
    "(string \<times> entry) env \<Rightarrow> nat \<Rightarrow> entry_map \<Rightarrow> entry_map \<times> bool" where
  "memory_make_room e limit m =
     (if length m < limit then (m, True)
      else let m1 = fst (memory_delete_expired e m) in
        if length m1 < limit then (m1, True)
        else let m2 = (case oldest_acked_id e m1 of None \<Rightarrow> m1 | Some k \<Rightarrow> hm_remove k m1)
          in (m2, length m2 < limit))"

definition memory_insert ::
    "(string \<times> entry) env \<Rightarrow> memory_repo \<Rightarrow> string \<Rightarrow> bytes \<Rightarrow> string option \<Rightarrow> i64 \<Rightarrow>
     memory_repo \<times> (anyhow + insert_outcome)" where
  "memory_insert e r k b ct x =
     (let created_at = t_insert e;
          is_new_id = \<not> hm_contains k (entries r);
          (m, room) = (if is_new_id then memory_make_room e (memory_max_entries r) (entries r)
                       else (entries r, True))
      in if \<not> room then (r\<lparr>entries := m\<rparr>, Inr StoreFull)
         else (r\<lparr>entries := hm_insert k
                 \<lparr>e_message_body = Some b, e_content_type = ct, e_acked = False,
                  e_expires_at = x, e_created_at = created_at\<rparr> m\<rparr>, Inr Stored))"

definition stored_of_entry :: "entry \<Rightarrow> stored_entry" where
  "stored_of_entry w = \<lparr>message_body = e_message_body w, content_type = e_content_type w,
     acked = e_acked w, expires_at = e_expires_at w\<rparr>"

definition memory_get ::
    "(string \<times> entry) env \<Rightarrow> memory_repo \<Rightarrow> string \<Rightarrow> anyhow + stored_entry option" where
  "memory_get e r k = Inr (map_option stored_of_entry (map_of (entries r) k))"

definition memory_ack ::
    "(string \<times> entry) env \<Rightarrow> memory_repo \<Rightarrow> string \<Rightarrow> memory_repo \<times> (anyhow + bool)" where
  "memory_ack e r k =
     (case map_of (entries r) k of
        Some w \<Rightarrow> (r\<lparr>entries := hm_insert k (w\<lparr>e_acked := True, e_message_body := None\<rparr>) (entries r)\<rparr>,
                   Inr True)
      | None \<Rightarrow> (r, Inr False))"

definition memory_delete ::
    "(string \<times> entry) env \<Rightarrow> memory_repo \<Rightarrow> string \<Rightarrow> memory_repo \<times> (anyhow + bool)" where
  "memory_delete e r k =
     (r\<lparr>entries := hm_remove k (entries r)\<rparr>, Inr (hm_contains k (entries r)))"

definition memory_cleanup_expired ::
    "(string \<times> entry) env \<Rightarrow> memory_repo \<Rightarrow> memory_repo \<times> (anyhow + string list)" where
  "memory_cleanup_expired e r =
     (let (m, ids) = memory_delete_expired e (entries r) in (r\<lparr>entries := m\<rparr>, Inr ids))"

definition memory_count :: "(string \<times> entry) env \<Rightarrow> memory_repo \<Rightarrow> anyhow + nat" where
  "memory_count e r = Inr (length (entries r))"

text \<open>The accessor \<open>max_entries\<close>\<close>

definition memory_limit :: "memory_repo \<Rightarrow> nat" where
  "memory_limit r = memory_max_entries r"

definition memory_ops :: "(memory_repo, string \<times> entry) repo_ops" where
  "memory_ops = \<lparr>repo_insert = memory_insert, repo_get = memory_get, repo_ack = memory_ack,
     repo_delete = memory_delete, repo_cleanup = memory_cleanup_expired,
     repo_count = memory_count, repo_max = memory_limit\<rparr>"

lemma memory_ops_simps [simp]:
  "repo_insert memory_ops = memory_insert" "repo_get memory_ops = memory_get"
  "repo_ack memory_ops = memory_ack" "repo_delete memory_ops = memory_delete"
  "repo_cleanup memory_ops = memory_cleanup_expired" "repo_count memory_ops = memory_count"
  "repo_max memory_ops = memory_max_entries"
  by (simp_all add: memory_ops_def memory_limit_def fun_eq_iff)

section \<open>Invariant and abstract content\<close>

definition map_ok :: "entry_map \<Rightarrow> bool" where
  "map_ok m \<longleftrightarrow> hm_ok m \<and> (\<forall>(k, w) \<in> set m. (e_message_body w = None) = e_acked w)"

definition memory_invar :: "memory_repo \<Rightarrow> bool" where
  "memory_invar r \<longleftrightarrow> map_ok (entries r) \<and> length (entries r) \<le> memory_max_entries r"

definition map_view :: "entry_map \<Rightarrow> string \<rightharpoonup> stored_entry" where
  "map_view m k = map_option stored_of_entry (map_of m k)"

definition memory_view :: "memory_repo \<Rightarrow> string \<rightharpoonup> stored_entry" where
  "memory_view r = map_view (entries r)"

lemma map_view_card: "map_ok m \<Longrightarrow> card (dom (map_view m)) = length m"
  by (simp add: map_ok_def hm_card map_view_def dom_def flip: hm_card)

lemma map_view_finite: "finite (dom (map_view m))"
proof -
  have "dom (map_view m) = dom (map_of m)" by (auto simp: map_view_def)
  then show ?thesis by (simp add: finite_dom_map_of)
qed

lemma map_view_insert: "map_view (hm_insert k w m) = (map_view m)(k \<mapsto> stored_of_entry w)"
  by (auto simp: map_view_def hm_simps fun_eq_iff)

lemma map_view_remove: "map_view (hm_remove k m) = (map_view m)(k := None)"
  by (auto simp: map_view_def hm_simps fun_eq_iff)

lemma map_ok_iff:
  "map_ok m \<longleftrightarrow> hm_ok m \<and> (\<forall>k w. map_of m k = Some w \<longrightarrow> (e_message_body w = None) = e_acked w)"
  by (auto simp: map_ok_def hm_mem)

lemma map_ok_insert:
  "map_ok m \<Longrightarrow> (e_message_body w = None) = e_acked w \<Longrightarrow> map_ok (hm_insert k w m)"
  by (auto simp: map_ok_iff hm_simps)

lemma map_ok_remove: "map_ok m \<Longrightarrow> map_ok (hm_remove k m)"
  by (auto simp: map_ok_iff hm_simps)

lemma map_ok_remove_all: "map_ok m \<Longrightarrow> map_ok (fold hm_remove ks m)"
  by (induction ks arbitrary: m) (auto simp: map_ok_remove)

lemma min_by_key_None [simp]: "min_by_key f xs = None \<longleftrightarrow> xs = []"
  by (cases xs) (auto split: option.splits)

lemma min_by_key_Some:
  "min_by_key f xs = Some y \<Longrightarrow> y \<in> set xs \<and> (\<forall>x \<in> set xs. f y \<le> f x)"
proof (induction xs arbitrary: y)
  case (Cons x xs)
  then show ?case
    by (cases "min_by_key f xs") (fastforce split: if_splits)+
qed simp

section \<open>The repository functions\<close>

lemma memory_delete_expired_spec:
  assumes ok: "map_ok m" and fair: "mset (scan e m) = mset m"
    and de: "memory_delete_expired e m = (m', ids)"
  shows "map_ok m'" and "length m' \<le> length m" and "distinct ids"
    and "set ids = {k. \<exists>s. map_view m k = Some s \<and> expired_before (t_purge e) (expires_at s)}"
    and "map_view m' = map_view m |` (- set ids)"
proof -
  have m': "m' = fold hm_remove ids m"
    and ids: "ids = map fst (filter (\<lambda>(_, w). expired_before (t_purge e) (e_expires_at w)) (scan e m))"
    using de by (auto simp: memory_delete_expired_def Let_def)
  have s: "set (scan e m) = set m" using fair by (metis set_mset_mset)
  have "distinct (map fst (scan e m))"
    using fair ok by (metis (no_types) hm_ok_def map_ok_def mset_map mset_eq_imp_distinct_iff)
  then show "distinct ids" unfolding ids by (rule distinct_map_filter)
  show "map_ok m'" "length m' \<le> length m"
    using ok by (auto simp: m' map_ok_remove_all hm_length_remove_all)
  have mem: "(k, w) \<in> set m \<longleftrightarrow> map_of m k = Some w" for k w
    using ok by (simp add: map_ok_def hm_mem)
  show "set ids = {k. \<exists>s. map_view m k = Some s \<and> expired_before (t_purge e) (expires_at s)}"
    by (force simp: ids s mem map_view_def stored_of_entry_def)
  show "map_view m' = map_view m |` (- set ids)"
    by (auto simp: fun_eq_iff map_view_def m' hm_get_remove_all restrict_map_def)
qed

lemma memory_delete_expired_purged:
  assumes "map_ok m" and "mset (scan e m) = mset m"
    and "memory_delete_expired e m = (m', ids)"
  shows "purged (t_purge e) (map_view m) (map_view m')"
  unfolding memory_delete_expired_spec(5)[OF assms]
  by (rule purged_restrict) (use memory_delete_expired_spec(4)[OF assms] in \<open>auto simp: disposable_def\<close>)

lemma oldest_acked_id_spec:
  assumes ok: "map_ok m" and fair: "mset (scan e m) = mset m"
  shows "oldest_acked_id e m = Some k \<Longrightarrow> \<exists>s. map_view m k = Some s \<and> acked s"
    and "oldest_acked_id e m = None \<Longrightarrow> map_view m k = Some s \<Longrightarrow> \<not> acked s"
proof -
  have s: "set (scan e m) = set m" using fair by (metis set_mset_mset)
  have mem: "(k, w) \<in> set m \<longleftrightarrow> map_of m k = Some w" for k w
    using ok by (simp add: map_ok_def hm_mem)
  show "\<exists>s. map_view m k = Some s \<and> acked s" if "oldest_acked_id e m = Some k"
    using that by (auto simp: oldest_acked_id_def map_view_def stored_of_entry_def s mem dest!: min_by_key_Some)
  show "\<not> acked s" if "oldest_acked_id e m = None" "map_view m k = Some s"
    using that by (auto simp: oldest_acked_id_def map_view_def stored_of_entry_def filter_empty_conv s
        simp flip: mem)
qed

lemma purged_trans: "purged now u v \<Longrightarrow> purged now v w \<Longrightarrow> purged now u w"
  unfolding purged_def by (metis map_le_trans map_le_implies_dom_le domIff map_le_def not_None_eq subsetD)

lemma memory_make_room_spec:
  assumes ok: "map_ok m" and len: "length m \<le> limit" and fair: "\<And>xs. mset (scan e xs) = mset xs"
    and mr: "memory_make_room e limit m = (m', room)"
  shows "map_ok m' \<and> length m' \<le> length m \<and> purged (t_purge e) (map_view m) (map_view m') \<and>
    (room \<longrightarrow> length m' < limit) \<and>
    (\<not> room \<longrightarrow> map_view m' = map_view m |` held (t_purge e) (map_view m) \<and>
       limit \<le> card (held (t_purge e) (map_view m)))"
proof (cases "length m < limit")
  case True
  with mr ok show ?thesis by (auto simp: memory_make_room_def)
next
  case False
  obtain m1 ids where de: "memory_delete_expired e m = (m1, ids)" by fastforce
  note d = memory_delete_expired_spec[OF ok fair de] and p = memory_delete_expired_purged[OF ok fair de]
  consider (freed) "length m1 < limit"
    | (stuck) "\<not> length m1 < limit" "oldest_acked_id e m1 = None"
    | (acked) k where "\<not> length m1 < limit" "oldest_acked_id e m1 = Some k" by fastforce
  then show ?thesis
  proof cases
    case freed
    with mr False de d p show ?thesis by (auto simp: memory_make_room_def Let_def)
  next
    case stuck
    have v: "map_view m1 = map_view m |` held (t_purge e) (map_view m)"
    proof
      fix j
      have no_ack: "\<not> acked s" if "map_view m j = Some s" "j \<notin> set ids" for s
        using oldest_acked_id_spec(2)[OF d(1) fair stuck(2), of j s] that d(5)
        by (simp add: restrict_map_def)
      show "map_view m1 j = (map_view m |` held (t_purge e) (map_view m)) j"
        using no_ack unfolding d(5)
        by (cases "map_view m j") (auto simp: d(4) restrict_map_def held_def disposable_def)
    qed
    then have "dom (map_view m1) = held (t_purge e) (map_view m)"
      using held_subset[of "t_purge e" "map_view m"] by auto
    then have "card (held (t_purge e) (map_view m)) = length m1"
      using map_view_card[OF d(1)] by simp
    with mr False de d p stuck v show ?thesis by (auto simp: memory_make_room_def Let_def)
  next
    case (acked k)
    obtain s where s: "map_view m1 k = Some s" "Relay_Types.acked s"
      using oldest_acked_id_spec(1)[OF d(1) fair acked(2)] by blast
    have "purged (t_purge e) (map_view m1) (map_view (hm_remove k m1))"
      using s by (auto simp: purged_def map_le_def map_view_remove disposable_def split: if_splits)
    then have "purged (t_purge e) (map_view m) (map_view (hm_remove k m1))"
      using p purged_trans by blast
    moreover have "Suc (length (hm_remove k m1)) = length m1"
      using s d(1) by (intro hm_length_remove) (auto simp: map_ok_def map_view_def)
    ultimately show ?thesis
      using mr False de d acked len map_ok_remove by (auto simp: memory_make_room_def Let_def)
  qed
qed

lemma memory_insert_spec:
  assumes inv: "memory_invar r" and fair: "fair_scan e"
    and ins: "memory_insert e r k b ct x = (r', res)"
  defines "v \<equiv> memory_view r" and "v' \<equiv> memory_view r'" and "n \<equiv> memory_max_entries r"
  shows "memory_invar r' \<and> memory_max_entries r' = n \<and>
    (res = Inr Stored \<longrightarrow> (\<exists>u. (if v k = None then purged (t_purge e) v u else u = v) \<and>
        v' = u(k \<mapsto> fresh_entry b ct x) \<and> (v k = None \<longrightarrow> card (held (t_purge e) v) < n))) \<and>
    (res = Inr StoreFull \<longrightarrow> v k = None \<and> v' = v |` held (t_purge e) v \<and>
        n \<le> card (held (t_purge e) v)) \<and> (\<exists>out. res = Inr out)"
proof -
  let ?w = "\<lparr>e_message_body = Some b, e_content_type = ct, e_acked = False, e_expires_at = x,
              e_created_at = t_insert e\<rparr>"
  have ok: "map_ok (entries r)" and len: "length (entries r) \<le> n"
    using inv by (simp_all add: memory_invar_def n_def)
  have fair': "mset (scan e xs) = mset xs" for xs using fair by (simp add: fair_scan_def)
  have w: "stored_of_entry ?w = fresh_entry b ct x" by (simp add: stored_of_entry_def fresh_entry_def)
  show ?thesis
  proof (cases "v k = None")
    case False
    then have "map_of (entries r) k \<noteq> None" by (simp add: v_def memory_view_def map_view_def)
    with False ins ok len show ?thesis
      by (auto simp: memory_insert_def hm_contains_def memory_invar_def v_def v'_def n_def
          memory_view_def map_view_insert w map_ok_insert hm_length_insert)
  next
    case True
    then have new: "map_of (entries r) k = None" by (simp add: v_def memory_view_def map_view_def)
    obtain m room where mr: "memory_make_room e n (entries r) = (m, room)" by fastforce
    note spec = memory_make_room_spec[OF ok len fair' mr]
    have below: "card (held (t_purge e) v) < n" if room
    proof -
      have "held (t_purge e) v \<subseteq> dom (map_view m)"
        using spec purged_held[of "t_purge e" v "map_view m"]
        by (fastforce simp: v_def memory_view_def held_def)
      moreover have "finite (dom (map_view m))" by (rule map_view_finite)
      ultimately have "card (held (t_purge e) v) \<le> length m"
        using spec map_view_card[of m] by (metis card_mono)
      then show ?thesis using spec that by simp
    qed
    have "(if \<not> room then (r\<lparr>entries := m\<rparr>, Inr StoreFull)
        else (r\<lparr>entries := hm_insert k ?w m\<rparr>, Inr Stored)) = (r', res)"
      using ins new mr by (simp add: memory_insert_def hm_contains_def n_def Let_def)
    with spec True len below show ?thesis
      by (auto simp: memory_invar_def v_def v'_def n_def memory_view_def map_view_insert w
          map_ok_insert hm_length_insert split: if_splits)
  qed
qed

section \<open>The storage contract holds\<close>

lemma memory_ack_spec:
  assumes inv: "memory_invar r" and ack: "memory_ack e r k = (r', res)"
  shows "memory_invar r' \<and> memory_max_entries r' = memory_max_entries r \<and>
    (case res of Inl _ \<Rightarrow> memory_view r' = memory_view r
     | Inr found \<Rightarrow> found = (memory_view r k \<noteq> None) \<and> memory_view r' =
         (case memory_view r k of None \<Rightarrow> memory_view r
          | Some s \<Rightarrow> (memory_view r)(k \<mapsto> acked_entry s)))"
proof (cases "map_of (entries r) k")
  case None
  with inv ack show ?thesis by (auto simp: memory_ack_def memory_view_def map_view_def)
next
  case (Some w)
  have w: "stored_of_entry (w\<lparr>e_acked := True, e_message_body := None\<rparr>) = acked_entry (stored_of_entry w)"
    by (simp add: stored_of_entry_def acked_entry_def)
  have "memory_view r k = Some (stored_of_entry w)" using Some by (simp add: memory_view_def map_view_def)
  with Some inv ack w show ?thesis
    by (auto simp: memory_ack_def memory_invar_def memory_view_def map_view_insert map_ok_insert
        hm_length_insert)
qed

lemma memory_cleanup_spec:
  assumes inv: "memory_invar r" and fair: "fair_scan e"
    and cl: "memory_cleanup_expired e r = (r', res)"
  shows "memory_invar r' \<and> memory_max_entries r' = memory_max_entries r \<and>
    (case res of Inl _ \<Rightarrow> memory_view r' = memory_view r
     | Inr ids \<Rightarrow> distinct ids \<and> memory_view r' = memory_view r |` (- set ids) \<and>
         set ids = {k. \<exists>s. memory_view r k = Some s \<and> expired_before (t_purge e) (expires_at s)})"
proof -
  obtain m ids where de: "memory_delete_expired e (entries r) = (m, ids)" by fastforce
  have "map_ok (entries r)" "mset (scan e (entries r)) = mset (entries r)"
    using inv fair by (simp_all add: memory_invar_def fair_scan_def)
  note d = memory_delete_expired_spec[OF this de]
  have "r' = r\<lparr>entries := m\<rparr>" "res = Inr ids" using cl de by (auto simp: memory_cleanup_expired_def)
  with d inv show ?thesis by (auto simp: memory_invar_def memory_view_def)
qed

lemma memory_card: "memory_invar r \<Longrightarrow> card (dom (memory_view r)) = length (entries r)"
  by (simp add: memory_invar_def memory_view_def map_view_card)

interpretation memory: entry_store memory_ops memory_invar memory_view
proof unfold_locales
  fix r and e :: "(string \<times> entry) env" and k v
  assume inv: "memory_invar r"
  show "finite (dom (memory_view r))" by (simp add: memory_view_def map_view_finite)
  show "v = memory_view r k" if "repo_get memory_ops e r k = Inr v"
    using that by (simp add: memory_get_def memory_view_def map_view_def)
  show "\<exists>v. repo_get memory_ops e r k = Inr v" by (simp add: memory_get_def)
  show "(message_body s = None) = acked s" if "memory_view r k = Some s" for s
    using inv that
    by (auto simp: memory_invar_def map_ok_iff memory_view_def map_view_def stored_of_entry_def)
  show "\<exists>found. snd (repo_ack memory_ops e r k) = Inr found"
    by (cases "map_of (entries r) k") (auto simp: memory_ack_def)
  show "\<exists>ids. snd (repo_cleanup memory_ops e r) = Inr ids"
    by (simp add: memory_cleanup_expired_def split: prod.splits)
next
  fix r and e :: "(string \<times> entry) env" and k b ct x r' res
  show "\<exists>out. snd (repo_insert memory_ops e r k b ct x) = Inr out"
    by (simp add: memory_insert_def split: prod.splits)
  assume inv: "memory_invar r" and fair: "fair_scan e"
  show "memory_invar r' \<and> repo_max memory_ops r' = repo_max memory_ops r \<and>
      card (dom (memory_view r')) \<le> max (card (dom (memory_view r))) (repo_max memory_ops r)"
    if "repo_insert memory_ops e r k b ct x = (r', res)"
    using memory_insert_spec[OF inv fair, of k b ct x r' res] that memory_card[of r']
    by (auto simp: memory_invar_def)
  show "\<exists>v. (if memory_view r k = None then purged (t_purge e) (memory_view r) v else v = memory_view r) \<and>
      memory_view r' = v(k \<mapsto> fresh_entry b ct x) \<and>
      (memory_view r k = None \<longrightarrow> card (held (t_purge e) (memory_view r)) < repo_max memory_ops r)"
    if "repo_insert memory_ops e r k b ct x = (r', Inr Stored)"
    using memory_insert_spec[OF inv fair] that by simp
  show "memory_view r k = None \<and> memory_view r' = memory_view r |` held (t_purge e) (memory_view r) \<and>
      repo_max memory_ops r \<le> card (held (t_purge e) (memory_view r))"
    if "repo_insert memory_ops e r k b ct x = (r', Inr StoreFull)"
    using memory_insert_spec[OF inv fair] that by simp
  show "if memory_view r k = None then purged (t_purge e) (memory_view r) (memory_view r')
      else memory_view r' = memory_view r"
    if "repo_insert memory_ops e r k b ct x = (r', Inl err)" for err
    using memory_insert_spec[OF inv fair] that by fastforce
next
  fix r and e :: "(string \<times> entry) env" and k r' res
  assume "memory_invar r" and "repo_ack memory_ops e r k = (r', res)"
  then show "memory_invar r' \<and> repo_max memory_ops r' = repo_max memory_ops r \<and>
      (case res of Inl _ \<Rightarrow> memory_view r' = memory_view r
       | Inr found \<Rightarrow> found = (memory_view r k \<noteq> None) \<and> memory_view r' =
           (case memory_view r k of None \<Rightarrow> memory_view r
            | Some s \<Rightarrow> (memory_view r)(k \<mapsto> acked_entry s)))"
    using memory_ack_spec[of r e k r' res] by simp
next
  fix r and e :: "(string \<times> entry) env" and r' res
  assume "memory_invar r" and "fair_scan e" and "repo_cleanup memory_ops e r = (r', res)"
  then show "memory_invar r' \<and> repo_max memory_ops r' = repo_max memory_ops r \<and>
      (case res of Inl _ \<Rightarrow> memory_view r' = memory_view r
       | Inr ids \<Rightarrow> distinct ids \<and> memory_view r' = memory_view r |` (- set ids) \<and>
         set ids = {k. \<exists>s. memory_view r k = Some s \<and> expired_before (t_purge e) (expires_at s)})"
    using memory_cleanup_spec[of r e r' res] by simp
qed

end
