(* ===== verification/Waiters.thy ===== *)
theory Waiters
  imports Relay_Types
begin

text \<open>
  \<open>struct Waiters\<close> of \<open>waiting_list.rs\<close>: the oneshot senders of the requests that wait for one
  ID.  A sender is named by its channel.  What the code does to channels is recorded as signals in
  the order it happens: \<open>SentMessage\<close> and \<open>SentAck\<close> for \<open>Sender::send\<close>, \<open>Dropped\<close> for a
  sender that goes away without sending.  Whether a receiver is gone is an input
  (\<open>Sender::is_closed\<close>).
\<close>

datatype signal = SentMessage chan message | SentAck chan | Dropped chan

fun signal_chan :: "signal \<Rightarrow> chan" where
  "signal_chan (SentMessage c _) = c"
| "signal_chan (SentAck c) = c"
| "signal_chan (Dropped c) = c"

record waiters =
  ack_waiters :: "chan list"
  message_waiters :: "chan list"

definition max_waiters_per_entry :: nat where
  "max_waiters_per_entry = 10"

definition waiters_new :: waiters where
  "waiters_new = \<lparr>ack_waiters = [], message_waiters = []\<rparr>"

definition waiters_is_empty :: "waiters \<Rightarrow> bool" where
  "waiters_is_empty w \<longleftrightarrow> ack_waiters w = [] \<and> message_waiters w = []"

text \<open>\<open>Vec::retain(|sender| !sender.is_closed())\<close>: what stays, and the drops it causes\<close>

definition retain_open :: "(chan \<Rightarrow> bool) \<Rightarrow> chan list \<Rightarrow> chan list \<times> signal list" where
  "retain_open is_closed cs =
     (filter (\<lambda>c. \<not> is_closed c) cs, map Dropped (filter is_closed cs))"

definition add_ack_waiter :: "(chan \<Rightarrow> bool) \<Rightarrow> chan \<Rightarrow> waiters \<Rightarrow> waiters \<times> signal list \<times> bool" where
  "add_ack_waiter is_closed sender w =
     (let (live, drops) = retain_open is_closed (ack_waiters w) in
      if length live \<ge> max_waiters_per_entry
      then (w\<lparr>ack_waiters := live\<rparr>, drops @ [Dropped sender], False)
      else (w\<lparr>ack_waiters := live @ [sender]\<rparr>, drops, True))"

definition add_message_waiter :: "(chan \<Rightarrow> bool) \<Rightarrow> chan \<Rightarrow> waiters \<Rightarrow> waiters \<times> signal list \<times> bool" where
  "add_message_waiter is_closed sender w =
     (let (live, drops) = retain_open is_closed (message_waiters w) in
      if length live \<ge> max_waiters_per_entry
      then (w\<lparr>message_waiters := live\<rparr>, drops @ [Dropped sender], False)
      else (w\<lparr>message_waiters := live @ [sender]\<rparr>, drops, True))"

definition remove_closed_senders :: "(chan \<Rightarrow> bool) \<Rightarrow> waiters \<Rightarrow> waiters \<times> signal list" where
  "remove_closed_senders is_closed w =
     (let (live_acks, drops1) = retain_open is_closed (ack_waiters w);
          (live_msgs, drops2) = retain_open is_closed (message_waiters w)
      in (\<lparr>ack_waiters = live_acks, message_waiters = live_msgs\<rparr>, drops1 @ drops2))"

definition notify_message_waiters :: "message \<Rightarrow> waiters \<Rightarrow> waiters \<times> signal list" where
  "notify_message_waiters m w =
     (\<lparr>ack_waiters = [], message_waiters = []\<rparr>,
      map Dropped (ack_waiters w) @ map (\<lambda>c. SentMessage c m) (message_waiters w))"

definition notify_ack_waiters :: "waiters \<Rightarrow> waiters \<times> signal list" where
  "notify_ack_waiters w = (w\<lparr>ack_waiters := []\<rparr>, map SentAck (ack_waiters w))"

text \<open>Dropping a whole \<open>Waiters\<close> value drops every sender in it.\<close>

definition drop_waiters :: "waiters \<Rightarrow> signal list" where
  "drop_waiters w = map Dropped (ack_waiters w @ message_waiters w)"

definition waiters_bounded :: "waiters \<Rightarrow> bool" where
  "waiters_bounded w \<longleftrightarrow> length (ack_waiters w) \<le> max_waiters_per_entry \<and>
     length (message_waiters w) \<le> max_waiters_per_entry"

definition waiters_chans :: "waiters \<Rightarrow> chan list" where
  "waiters_chans w = ack_waiters w @ message_waiters w"

text \<open>What pruning leaves of a \<open>Waiters\<close> value.\<close>

definition open_waiters :: "(chan \<Rightarrow> bool) \<Rightarrow> waiters \<Rightarrow> waiters" where
  "open_waiters cl w = \<lparr>ack_waiters = filter (\<lambda>c. \<not> cl c) (ack_waiters w),
     message_waiters = filter (\<lambda>c. \<not> cl c) (message_waiters w)\<rparr>"

lemma fst_remove_closed [simp]: "fst (remove_closed_senders cl w) = open_waiters cl w"
  by (simp add: remove_closed_senders_def retain_open_def open_waiters_def)

lemma open_waiters_simps [simp]:
  "ack_waiters (open_waiters cl w) = filter (\<lambda>c. \<not> cl c) (ack_waiters w)"
  "message_waiters (open_waiters cl w) = filter (\<lambda>c. \<not> cl c) (message_waiters w)"
  by (simp_all add: open_waiters_def)

lemma open_waiters_new [simp]: "open_waiters cl waiters_new = waiters_new"
  by (simp add: open_waiters_def waiters_new_def)

lemmas waiters_defs [relay_defs] =
  waiters_new_def waiters_is_empty_def retain_open_def remove_closed_senders_def
  notify_message_waiters_def notify_ack_waiters_def drop_waiters_def waiters_chans_def

section \<open>A bounded queue of senders\<close>

text \<open>
  The two lists of a \<open>Waiters\<close> value follow the same rule: closed senders make way first, then
  the list takes a sender unless it is full.  \<open>slot\<close> is the list, \<open>other\<close> the one that an
  addition leaves alone.
\<close>

locale sender_queue =
  fixes slot other :: "waiters \<Rightarrow> chan list"
    and add :: "(chan \<Rightarrow> bool) \<Rightarrow> chan \<Rightarrow> waiters \<Rightarrow> waiters \<times> signal list \<times> bool"
  assumes add_slot: "add cl c w = (w', sigs, ok) \<Longrightarrow>
      ok = (length (filter (\<lambda>c. \<not> cl c) (slot w)) < max_waiters_per_entry) \<and>
      slot w' = filter (\<lambda>c. \<not> cl c) (slot w) @ (if ok then [c] else []) \<and> other w' = other w"
    and add_signals: "add cl c w = (w', sigs, ok) \<Longrightarrow>
      sigs = map Dropped (filter cl (slot w)) @ (if ok then [] else [Dropped c])"
    and slots_chans: "mset (waiters_chans w) = mset (slot w) + mset (other w)"
    and slots_bounded: "waiters_bounded w \<longleftrightarrow>
      length (slot w) \<le> max_waiters_per_entry \<and> length (other w) \<le> max_waiters_per_entry"
    and slots_open: "slot (open_waiters cl w) = filter (\<lambda>c. \<not> cl c) (slot w) \<and>
      other (open_waiters cl w) = filter (\<lambda>c. \<not> cl c) (other w)"
begin

lemma add_bounded:
  assumes "add cl c w = (w', sigs, ok)" and "length (slot w) \<le> max_waiters_per_entry"
  shows "length (slot w') \<le> max_waiters_per_entry"
  using add_slot[OF assms(1)] order_trans[OF length_filter_le assms(2)] by auto

text \<open>Disconnected clients never keep a new one out: the limit counts open channels only.\<close>

lemma add_accepts_iff:
  assumes "add cl c w = (w', sigs, ok)"
  shows "ok \<longleftrightarrow> length (filter (\<lambda>c. \<not> cl c) (slot w)) < max_waiters_per_entry"
  using add_slot[OF assms] by simp

lemma add_nonempty:
  assumes "add cl c w = (w', sigs, ok)"
  shows "slot w' \<noteq> []"
  using add_slot[OF assms] by (auto simp: max_waiters_per_entry_def)

text \<open>Only channels whose receiver is gone, and a rejected sender itself, are dropped.\<close>

lemma add_drops:
  assumes "add cl c w = (w', sigs, ok)" and "d \<in> set sigs"
  shows "\<exists>x. d = Dropped x \<and> (cl x \<or> (x = c \<and> \<not> ok))"
  using add_signals[OF assms(1)] assms(2) by (auto split: if_splits)

lemma add_keeps_open:
  assumes "add cl c w = (w', sigs, ok)" and "x \<in> set (slot w)" and "\<not> cl x"
  shows "x \<in> set (slot w')"
  using add_slot[OF assms(1)] assms(2,3) by simp

lemma add_chans:
  assumes "add cl c w = (w', sigs, ok)"
  shows "set (slot w') \<subseteq> insert c (set (slot w))" and "c \<in> set (slot w') \<longleftrightarrow> ok \<or> (c \<in> set (slot w) \<and> \<not> cl c)"
  using add_slot[OF assms] by auto

lemma add_waiters_bounded:
  assumes "add cl c w = (w', sigs, ok)" and "waiters_bounded w"
  shows "waiters_bounded w'"
  using assms(2) add_bounded[OF assms(1)] add_slot[OF assms(1)] by (simp add: slots_bounded)

lemma add_not_empty:
  assumes "add cl c w = (w', sigs, ok)"
  shows "\<not> waiters_is_empty w'"
proof -
  have "mset (waiters_chans w') \<noteq> {#}" using add_nonempty[OF assms] by (simp add: slots_chans)
  then show ?thesis by (auto simp: waiters_is_empty_def waiters_chans_def)
qed

lemma add_conserves:
  assumes "add cl c w = (w', sigs, ok)"
  shows "mset (waiters_chans w) + {#c#} = mset (waiters_chans w') + mset (map signal_chan sigs)"
proof -
  have "mset (slot w) = mset (filter cl (slot w)) + mset (filter (\<lambda>c. \<not> cl c) (slot w))"
    by (simp only: mset_filter_split)
  then show ?thesis
    using add_slot[OF assms] add_signals[OF assms] by (simp add: slots_chans comp_def)
qed

end

interpretation acks: sender_queue ack_waiters message_waiters add_ack_waiter
  by unfold_locales
    (auto simp: add_ack_waiter_def retain_open_def not_less waiters_bounded_def waiters_chans_def
      split: if_splits)

interpretation msgs: sender_queue message_waiters ack_waiters add_message_waiter
  by unfold_locales
    (auto simp: add_message_waiter_def retain_open_def not_less waiters_bounded_def waiters_chans_def
      split: if_splits)

section \<open>Invariant lemmas\<close>

lemma bounded_new [simp]: "waiters_bounded waiters_new"
  by (simp add: waiters_bounded_def waiters_new_def)

lemma bounded_remove_closed: "waiters_bounded w \<Longrightarrow> waiters_bounded (fst (remove_closed_senders cl w))"
  by (auto simp: waiters_bounded_def remove_closed_senders_def retain_open_def
      intro: order_trans[OF length_filter_le])

lemma bounded_notify_ack: "waiters_bounded w \<Longrightarrow> waiters_bounded (fst (notify_ack_waiters w))"
  by (simp add: waiters_bounded_def notify_ack_waiters_def)

end
