(* ===== verification/Waiting_List.thy ===== *)
theory Waiting_List
  imports Storage_Spec Waiters
begin

text \<open>
  \<open>WaitingList\<close> of \<open>waiting_list.rs\<close>: the coordination layer between the stored entries and
  the requests that wait.  Every method is a function on the list's state; it also returns the
  signals it gives to channels, in order, and the method's own result.  The repository comes in
  as \<open>ops\<close>.  A method that creates a channel takes the channel's name as \<open>ch\<close>.
\<close>

record 'r waiting_list =
  repository :: 'r
  waiters_map :: "(string, waiters) hash_map"
  max_waiting_ids :: nat
  last_full_map_prune :: "nat option"

definition full_map_prune_interval :: duration where
  "full_map_prune_interval = from_secs 1"

definition waiting_list_new :: "('r, 'x) repo_ops \<Rightarrow> 'r \<Rightarrow> 'r waiting_list" where
  "waiting_list_new ops r =
     \<lparr>repository = r, waiters_map = [], max_waiting_ids = repo_max ops r, last_full_map_prune = None\<rparr>"

section \<open>Methods on the waiter map\<close>

definition wl_notify_message_waiters ::
    "string \<Rightarrow> message \<Rightarrow> 'r waiting_list \<Rightarrow> 'r waiting_list \<times> signal list" where
  "wl_notify_message_waiters k m wl =
     (case map_of (waiters_map wl) k of
        None \<Rightarrow> (wl, [])
      | Some w \<Rightarrow>
          let (w', sigs) = notify_message_waiters m w in
          (wl\<lparr>waiters_map := (if waiters_is_empty w' then hm_remove k (waiters_map wl)
                              else hm_insert k w' (waiters_map wl))\<rparr>, sigs))"

definition wl_notify_ack_waiters ::
    "string \<Rightarrow> 'r waiting_list \<Rightarrow> 'r waiting_list \<times> signal list" where
  "wl_notify_ack_waiters k wl =
     (case map_of (waiters_map wl) k of
        None \<Rightarrow> (wl, [])
      | Some w \<Rightarrow>
          let (w', sigs) = notify_ack_waiters w in
          (wl\<lparr>waiters_map := (if waiters_is_empty w' then hm_remove k (waiters_map wl)
                              else hm_insert k w' (waiters_map wl))\<rparr>, sigs))"

definition remove_closed_waiters ::
    "(chan \<Rightarrow> bool) \<Rightarrow> 'r waiting_list \<Rightarrow> 'r waiting_list \<times> signal list" where
  "remove_closed_waiters is_closed wl =
     (wl\<lparr>waiters_map := filter (\<lambda>(_, w). \<not> waiters_is_empty w)
           (map (\<lambda>(k, w). (k, fst (remove_closed_senders is_closed w))) (waiters_map wl))\<rparr>,
      concat (map (\<lambda>(_, w). snd (remove_closed_senders is_closed w)) (waiters_map wl)))"

definition ensure_waiter_capacity ::
    "'x env \<Rightarrow> string \<Rightarrow> 'r waiting_list \<Rightarrow> 'r waiting_list \<times> signal list \<times> (subscribe_error + unit)" where
  "ensure_waiter_capacity e k wl =
     (if hm_contains k (waiters_map wl) \<or> length (waiters_map wl) < max_waiting_ids wl
      then (wl, [], Inr ())
      else let prune_due = (case last_full_map_prune wl of None \<Rightarrow> True
                            | Some last_prune \<Rightarrow> m_elapsed e - last_prune \<ge> full_map_prune_interval);
               (wl1, sigs) = (if prune_due
                 then (let (wl0, drops) = remove_closed_waiters (closed e) wl
                       in (wl0\<lparr>last_full_map_prune := Some (m_prune e)\<rparr>, drops))
                 else (wl, []))
        in (wl1, sigs, if length (waiters_map wl1) < max_waiting_ids wl1 then Inr ()
                       else Inl WaiterLimitReached))"

definition waiters_for ::
    "'x env \<Rightarrow> string \<Rightarrow> 'r waiting_list \<Rightarrow> 'r waiting_list \<times> signal list \<times> (subscribe_error + waiters)" where
  "waiters_for e k wl =
     (case ensure_waiter_capacity e k wl of
        (wl1, sigs, Inl err) \<Rightarrow> (wl1, sigs, Inl err)
      | (wl1, sigs, Inr _) \<Rightarrow>
          (case map_of (waiters_map wl1) k of
             Some w \<Rightarrow> (wl1, sigs, Inr w)
           | None \<Rightarrow> (wl1\<lparr>waiters_map := hm_insert k waiters_new (waiters_map wl1)\<rparr>, sigs,
                      Inr waiters_new)))"

section \<open>Storing, acknowledging and subscribing\<close>

definition store ::
    "('r, 'x) repo_ops \<Rightarrow> 'x env \<Rightarrow> string \<Rightarrow> message \<Rightarrow> duration \<Rightarrow> 'r waiting_list \<Rightarrow>
     'r waiting_list \<times> signal list \<times> (anyhow + insert_outcome)" where
  "store ops e k m ttl wl =
     (let expires = t_store e + of_nat (as_millis ttl);
          (r, insert_result) =
            repo_insert ops e (repository wl) k (body m) (msg_content_type m) expires;
          wl1 = wl\<lparr>repository := r\<rparr>;
          message_rejected = (insert_result = Inr StoreFull);
          (wl2, sigs) = (if \<not> message_rejected then wl_notify_message_waiters k m wl1 else (wl1, []))
      in (wl2, sigs, insert_result))"

definition ack ::
    "('r, 'x) repo_ops \<Rightarrow> 'x env \<Rightarrow> string \<Rightarrow> 'r waiting_list \<Rightarrow>
     'r waiting_list \<times> signal list \<times> bool" where
  "ack ops e k wl =
     (case repo_get ops e (repository wl) k of
        Inr (Some s) \<Rightarrow>
          if is_expired (t_check e) (expires_at s) then (wl, [], False)
          else if acked s then (wl, [], True)
          else (case repo_ack ops e (repository wl) k of
             (r, Inl _) \<Rightarrow> (wl\<lparr>repository := r\<rparr>, [], False)
           | (r, Inr _) \<Rightarrow>
               let (wl1, sigs) = wl_notify_ack_waiters k (wl\<lparr>repository := r\<rparr>) in (wl1, sigs, True))
      | _ \<Rightarrow> (wl, [], False))"

definition is_acked ::
    "('r, 'x) repo_ops \<Rightarrow> 'x env \<Rightarrow> string \<Rightarrow> 'r waiting_list \<Rightarrow> bool option" where
  "is_acked ops e k wl =
     (case repo_get ops e (repository wl) k of
        Inr (Some s) \<Rightarrow> if is_expired (t_check e) (expires_at s) then None else Some (acked s)
      | _ \<Rightarrow> None)"

definition subscribe_ack ::
    "('r, 'x) repo_ops \<Rightarrow> 'x env \<Rightarrow> chan \<Rightarrow> string \<Rightarrow> 'r waiting_list \<Rightarrow>
     'r waiting_list \<times> signal list \<times> (subscribe_error + chan)" where
  "subscribe_ack ops e ch k wl =
     (case repo_get ops e (repository wl) k of
        Inr (Some s) \<Rightarrow>
          if is_expired (t_check e) (expires_at s) then (wl, [], Inl NotFound)
          else if acked s then (wl, [SentAck ch], Inr ch)
          else (case waiters_for e k wl of
             (wl1, sigs, Inl err) \<Rightarrow> (wl1, sigs @ [Dropped ch], Inl err)
           | (wl1, sigs, Inr w) \<Rightarrow>
               let (w', drops, ok) = add_ack_waiter (closed e) ch w;
                   wl2 = wl1\<lparr>waiters_map := hm_insert k w' (waiters_map wl1)\<rparr>
               in (wl2, sigs @ drops, if ok then Inr ch else Inl WaiterLimitReached))
      | _ \<Rightarrow> (wl, [], Inl NotFound))"

definition store_and_subscribe_ack ::
    "('r, 'x) repo_ops \<Rightarrow> 'x env \<Rightarrow> chan \<Rightarrow> string \<Rightarrow> message \<Rightarrow> duration \<Rightarrow> 'r waiting_list \<Rightarrow>
     'r waiting_list \<times> signal list \<times> (store_and_subscribe_error + chan)" where
  "store_and_subscribe_ack ops e ch k m ttl wl =
     (case ensure_waiter_capacity e k wl of
        (wl1, s1, Inl err) \<Rightarrow> (wl1, s1, Inl (sas_from err))
      | (wl1, s1, Inr _) \<Rightarrow>
          (case store ops e k m ttl wl1 of
             (wl2, s2, Inl err) \<Rightarrow> (wl2, s1 @ s2, Inl (SasStorage err))
           | (wl2, s2, Inr StoreFull) \<Rightarrow> (wl2, s1 @ s2, Inl SasStoreFull)
           | (wl2, s2, Inr Stored) \<Rightarrow>
               (case subscribe_ack ops e ch k wl2 of
                  (wl3, s3, Inl err) \<Rightarrow> (wl3, s1 @ s2 @ s3, Inl (sas_from err))
                | (wl3, s3, Inr rx) \<Rightarrow> (wl3, s1 @ s2 @ s3, Inr rx))))"

definition get_or_subscribe ::
    "('r, 'x) repo_ops \<Rightarrow> 'x env \<Rightarrow> chan \<Rightarrow> string \<Rightarrow> 'r waiting_list \<Rightarrow>
     'r waiting_list \<times> signal list \<times> (subscribe_error + get_or_subscribe_result)" where
  "get_or_subscribe ops e ch k wl =
     (let available = (case repo_get ops e (repository wl) k of
            Inr (Some s) \<Rightarrow>
              if is_expired (t_check e) (expires_at s) then None
              else (case message_body s of None \<Rightarrow> None
                    | Some b \<Rightarrow> Some \<lparr>body = b, msg_content_type = content_type s\<rparr>)
          | _ \<Rightarrow> None)
      in case available of
        Some m \<Rightarrow> (wl, [], Inr (GotMessage m))
      | None \<Rightarrow>
          (case waiters_for e k wl of
             (wl1, sigs, Inl err) \<Rightarrow> (wl1, sigs @ [Dropped ch], Inl err)
           | (wl1, sigs, Inr w) \<Rightarrow>
               let (w', drops, ok) = add_message_waiter (closed e) ch w;
                   wl2 = wl1\<lparr>waiters_map := hm_insert k w' (waiters_map wl1)\<rparr>
               in (wl2, sigs @ drops, if ok then Inr (Waiting ch) else Inl WaiterLimitReached)))"

definition cleanup_expired ::
    "('r, 'x) repo_ops \<Rightarrow> 'x env \<Rightarrow> 'r waiting_list \<Rightarrow> 'r waiting_list \<times> signal list \<times> nat" where
  "cleanup_expired ops e wl =
     (let (r, cleanup_result) = repo_cleanup ops e (repository wl);
          expired_ids = (case cleanup_result of Inr ids \<Rightarrow> ids | Inl _ \<Rightarrow> []);
          drops = concat (map (\<lambda>k. case map_of (waiters_map wl) k of None \<Rightarrow> [] | Some w \<Rightarrow> drop_waiters w)
                              expired_ids);
          wl1 = wl\<lparr>repository := r, waiters_map := fold hm_remove expired_ids (waiters_map wl)\<rparr>;
          (wl2, sigs) = remove_closed_waiters (closed e) wl1
      in (wl2, drops @ sigs, length expired_ids))"

end
