(* ===== verification/Server_Config.thy ===== *)
theory Server_Config
  imports Client_Ip Storage_Sqlite Storage_Memory Waiting_List
begin

text \<open>
  Configuration: \<open>Config\<close>, its default and the builder of \<open>server.rs\<close>, the command line of
  \<open>main.rs\<close>, and how both become the relay's state.  Networks are of the type parameter \<open>'net\<close>
  (\<open>IpNet\<close>).  Paths are strings.
\<close>

section \<open>\<open>Config\<close>\<close>

record 'net config =
  bind_address :: ip_addr
  http_port :: "16 word"
  link_timeout :: duration
  inbox_timeout :: duration
  inbox_cache_ttl :: duration
  max_body_size :: nat
  max_entries :: nat
  persist_db :: "string option"
  cors_allow_all :: bool
  trusted_proxies :: "'net list"

definition default_link_timeout :: duration where
  "default_link_timeout = from_secs (10 * 60)"

definition default_inbox_timeout :: duration where
  "default_inbox_timeout = from_secs 25"

definition default_inbox_cache_ttl :: duration where
  "default_inbox_cache_ttl = from_secs (5 * 60)"

definition default_max_body_size :: nat where
  "default_max_body_size = 2 * 1024"

definition default_max_entries :: nat where
  "default_max_entries = 10000"

definition ipv4_new :: "8 word \<Rightarrow> 8 word \<Rightarrow> 8 word \<Rightarrow> 8 word \<Rightarrow> 32 word" where
  "ipv4_new a b c d = from_groups 8 [unat a, unat b, unat c, unat d]"

definition config_default :: "'net config" where
  "config_default = \<lparr>bind_address = V4 (ipv4_new 127 0 0 1), http_port = 0,
     link_timeout = default_link_timeout, inbox_timeout = default_inbox_timeout,
     inbox_cache_ttl = default_inbox_cache_ttl, max_body_size = default_max_body_size,
     max_entries = default_max_entries, persist_db = None, cors_allow_all = False,
     trusted_proxies = []\<rparr>"

lemmas config_defs [relay_defs] =
  config_default_def default_link_timeout_def default_inbox_timeout_def
  default_inbox_cache_ttl_def default_max_body_size_def default_max_entries_def

section \<open>\<open>HttpRelayBuilder\<close>\<close>

text \<open>A setter of the builder, by its method's name; \<open>build\<close> is a chain of calls.\<close>

datatype 'net setting =
    Bind_address ip_addr | Http_port "16 word" | Link_timeout duration | Inbox_timeout duration
  | Inbox_cache_ttl duration | Max_body_size nat | Max_entries nat | Persist_db "string option"
  | Cors_allow_all bool | Trusted_proxies "'net list"

fun set_option :: "'net setting \<Rightarrow> 'net config \<Rightarrow> 'net config" where
  "set_option (Bind_address addr) c = c\<lparr>bind_address := addr\<rparr>"
| "set_option (Http_port port) c = c\<lparr>http_port := port\<rparr>"
| "set_option (Link_timeout timeout) c = c\<lparr>link_timeout := timeout\<rparr>"
| "set_option (Inbox_timeout timeout) c = c\<lparr>inbox_timeout := timeout\<rparr>"
| "set_option (Inbox_cache_ttl ttl) c = c\<lparr>inbox_cache_ttl := ttl\<rparr>"
| "set_option (Max_body_size n) c = c\<lparr>max_body_size := n\<rparr>"
| "set_option (Max_entries n) c = c\<lparr>max_entries := n\<rparr>"
| "set_option (Persist_db path) c = c\<lparr>persist_db := path\<rparr>"
| "set_option (Cors_allow_all b) c = c\<lparr>cors_allow_all := b\<rparr>"
| "set_option (Trusted_proxies ns) c = c\<lparr>trusted_proxies := ns\<rparr>"

definition build :: "'net setting list \<Rightarrow> 'net config" where
  "build settings = fold set_option settings config_default"

section \<open>Command line\<close>

record 'net args =
  arg_bind :: ip_addr
  arg_port :: "16 word"
  arg_link_timeout :: "64 word"
  arg_inbox_timeout :: "64 word"
  arg_inbox_cache_ttl :: "64 word"
  arg_max_body_size :: nat
  arg_max_entries :: nat
  arg_persist_db :: "string option"
  arg_verbose :: "8 word"
  arg_cors_allow_all :: bool
  arg_trusted_proxy :: "'net list"
  arg_quiet :: bool

text \<open>The values that clap fills in when an option is absent.\<close>

definition args_default :: "'net args" where
  "args_default = \<lparr>arg_bind = V4 (ipv4_new 127 0 0 1), arg_port = 8080, arg_link_timeout = 600,
     arg_inbox_timeout = 25, arg_inbox_cache_ttl = 300, arg_max_body_size = 2 * 1024,
     arg_max_entries = 10000, arg_persist_db = None, arg_verbose = 0, arg_cors_allow_all = False,
     arg_trusted_proxy = [], arg_quiet = False\<rparr>"

definition main_config :: "'net args \<Rightarrow> 'net config" where
  "main_config args = build
     [Bind_address (arg_bind args), Http_port (arg_port args),
      Link_timeout (from_secs (unat (arg_link_timeout args))),
      Inbox_timeout (from_secs (unat (arg_inbox_timeout args))),
      Inbox_cache_ttl (from_secs (unat (arg_inbox_cache_ttl args))),
      Max_body_size (arg_max_body_size args), Max_entries (arg_max_entries args),
      Persist_db (arg_persist_db args), Cors_allow_all (arg_cors_allow_all args),
      Trusted_proxies (arg_trusted_proxy args)]"

text \<open>\<open>parse_net\<close> is \<open>str::parse::<IpNet>\<close>, \<open>net_of_ip\<close> is \<open>IpNet::from\<close> (crate ipnet).\<close>

definition parse_network ::
    "(string \<Rightarrow> 'net option) \<Rightarrow> (ip_addr \<Rightarrow> 'net) \<Rightarrow> string \<Rightarrow> string + 'net" where
  "parse_network parse_net net_of_ip v =
     (case parse_net v of
        Some n \<Rightarrow> Inr n
      | None \<Rightarrow> (case parse_ip v of
          Some ip \<Rightarrow> Inr (net_of_ip ip)
        | None \<Rightarrow> Inl ([CHR 0x60] @ v @ [CHR 0x60] @ '' is not an IP address or CIDR network'')))"

datatype level_filter = OFF | WARN | INFO | DEBUG | TRACE

definition log_level :: "8 word \<Rightarrow> bool \<Rightarrow> level_filter" where
  "log_level verbose quiet =
     (if quiet then OFF
      else if verbose = 0 then WARN
      else if verbose = 1 then INFO
      else if verbose = 2 then DEBUG
      else TRACE)"

text \<open>
  \<open>LevelFilter\<close> is ordered by how much it lets through: each \<open>-v\<close> shows at least as much, and
  \<open>--quiet\<close> shows nothing, whatever else is given.
\<close>

fun level_rank :: "level_filter \<Rightarrow> nat" where
  "level_rank OFF = 0"
| "level_rank WARN = 1"
| "level_rank INFO = 2"
| "level_rank DEBUG = 3"
| "level_rank TRACE = 4"

lemma level_rank_inject: "level_rank a = level_rank b \<longleftrightarrow> a = b"
  by (cases a; cases b) simp_all

instantiation level_filter :: linorder
begin

definition less_eq_level_filter :: "level_filter \<Rightarrow> level_filter \<Rightarrow> bool" where
  "less_eq_level_filter a b \<longleftrightarrow> level_rank a \<le> level_rank b"

definition less_level_filter :: "level_filter \<Rightarrow> level_filter \<Rightarrow> bool" where
  "less_level_filter a b \<longleftrightarrow> level_rank a < level_rank b"

instance
  by standard (auto simp: less_eq_level_filter_def less_level_filter_def level_rank_inject)

end

lemma log_level_mono: "v \<le> v' \<Longrightarrow> log_level v quiet \<le> log_level v' quiet"
proof -
  assume "v \<le> v'"
  then have le: "unat v \<le> unat v'" by (simp add: word_le_nat_alt)
  have eq: "w = 0 \<longleftrightarrow> unat w = 0" "w = 1 \<longleftrightarrow> unat w = 1" "w = 2 \<longleftrightarrow> unat w = 2" for w :: "8 word"
    by (simp_all add: word_unat_eq_iff)
  show ?thesis using le by (simp add: log_level_def less_eq_level_filter_def eq)
qed

lemma quiet_least: "log_level v True \<le> level"
  by (simp add: log_level_def less_eq_level_filter_def)

section \<open>\<open>AppState::new\<close>\<close>

text \<open>
  \<open>AppState\<close> is the configuration with the waiting list that all handlers share.  Which
  \<open>EntryRepository\<close> it holds is decided when the crate is compiled; with SQLite the content of
  the database file is given (\<open>open_db\<close>, or an error).
\<close>

record ('r, 'net) app_state =
  app_config :: "'net config"
  pending_list :: "'r waiting_list"

definition app_state_new ::
    "('r, 'x) repo_ops \<Rightarrow> (string option \<Rightarrow> nat \<Rightarrow> anyhow + 'r) \<Rightarrow> 'net config \<Rightarrow>
     anyhow + ('r, 'net) app_state" where
  "app_state_new ops repo_new cfg =
     (case repo_new (persist_db cfg) (max_entries cfg) of
        Inl err \<Rightarrow> Inl err
      | Inr r \<Rightarrow> Inr \<lparr>app_config = cfg, pending_list = waiting_list_new ops r\<rparr>)"

lemma default_max_entries_same: "max_entries (main_config (args_default :: 'net args)) = default_max_entries"
  by (simp add: main_config_def build_def args_default_def default_max_entries_def)

text \<open>Without options the executable differs from the library's default in the port only.\<close>

lemma main_config_default:
  "main_config (args_default :: 'net args) = (config_default :: 'net config)\<lparr>http_port := 8080\<rparr>"
  by (simp add: main_config_def build_def args_default_def config_defs)

text \<open>The last call of a setter counts, whatever is set in between.\<close>

fun option_index :: "'net setting \<Rightarrow> nat" where
  "option_index (Bind_address _) = 0"
| "option_index (Http_port _) = 1"
| "option_index (Link_timeout _) = 2"
| "option_index (Inbox_timeout _) = 3"
| "option_index (Inbox_cache_ttl _) = 4"
| "option_index (Max_body_size _) = 5"
| "option_index (Max_entries _) = 6"
| "option_index (Persist_db _) = 7"
| "option_index (Cors_allow_all _) = 8"
| "option_index (Trusted_proxies _) = 9"

definition same_option :: "'net setting \<Rightarrow> 'net setting \<Rightarrow> bool" where
  "same_option a b \<longleftrightarrow> option_index a = option_index b"

lemma set_option_commute:
  "\<not> same_option a b \<Longrightarrow> set_option a (set_option b c) = set_option b (set_option a c)"
  by (cases a; cases b) (simp_all add: same_option_def)

lemma set_option_override: "same_option a b \<Longrightarrow> set_option a (set_option b c) = set_option a c"
  by (cases a; cases b) (simp_all add: same_option_def)

lemma fold_set_commute:
  "\<forall>b \<in> set bs. \<not> same_option a b \<Longrightarrow> fold set_option bs (set_option a c) = set_option a (fold set_option bs c)"
proof (induction bs arbitrary: c)
  case (Cons b bs)
  then have "set_option b (set_option a c) = set_option a (set_option b c)"
    using set_option_commute[of a b c] by simp
  with Cons show ?case by simp
qed simp

end
