(* ===== verification/Waiting_List_Invariants.thy ===== *)
theory Waiting_List_Invariants
  imports Waiting_List
begin

text \<open>
  What every method of the waiting list keeps true of the waiter map: it stays a map with at most
  \<open>max_waiting_ids\<close> IDs, every ID has a waiter and at most ten of each kind, and no sender is
  lost or used twice: the senders before, plus a new one, are exactly the senders after plus those
  signalled.  \<open>acks_at\<close> and \<open>msgs_at\<close> read the two waiter lists of an ID.
\<close>

definition waiters_ok :: "nat \<Rightarrow> (string, waiters) hash_map \<Rightarrow> bool" where
  "waiters_ok n m \<longleftrightarrow> hm_ok m \<and> length m \<le> n \<and>
     (\<forall>k w. map_of m k = Some w \<longrightarrow> \<not> waiters_is_empty w \<and> waiters_bounded w)"

definition waiters_at :: "(string, waiters) hash_map \<Rightarrow> string \<Rightarrow> waiters" where
  "waiters_at m k = (case map_of m k of None \<Rightarrow> waiters_new | Some w \<Rightarrow> w)"

abbreviation acks_at :: "(string, waiters) hash_map \<Rightarrow> string \<Rightarrow> chan list" where
  "acks_at m k \<equiv> ack_waiters (waiters_at m k)"

abbreviation msgs_at :: "(string, waiters) hash_map \<Rightarrow> string \<Rightarrow> chan list" where
  "msgs_at m k \<equiv> message_waiters (waiters_at m k)"

definition chans_of :: "(string, waiters) hash_map \<Rightarrow> chan list" where
  "chans_of m = concat (map (\<lambda>(_, w). waiters_chans w) m)"

definition balanced ::
    "(string, waiters) hash_map \<Rightarrow> chan multiset \<Rightarrow> (string, waiters) hash_map \<Rightarrow> signal list \<Rightarrow> bool" where
  "balanced m new m' sigs \<longleftrightarrow>
     mset (chans_of m) + new = mset (chans_of m') + mset (map signal_chan sigs)"

section \<open>Updating one ID\<close>

lemma waiters_at_insert [simp]:
  "waiters_at (hm_insert k w m) j = (if j = k then w else waiters_at m j)"
  by (simp add: waiters_at_def hm_simps)

lemma waiters_at_remove [simp]:
  "waiters_at (hm_remove k m) j = (if j = k then waiters_new else waiters_at m j)"
  by (simp add: waiters_at_def hm_simps)

lemma waiters_at_None [simp]: "map_of m k = None \<Longrightarrow> waiters_at m k = waiters_new"
  by (simp add: waiters_at_def)

lemma waiters_at_Some [simp]: "map_of m k = Some w \<Longrightarrow> waiters_at m k = w"
  by (simp add: waiters_at_def)

lemma new_chans [simp]: "waiters_chans waiters_new = []" "ack_waiters waiters_new = []"
  "message_waiters waiters_new = []"
  by (simp_all add: waiters_chans_def waiters_new_def)

lemma bounded_at: "waiters_ok n m \<Longrightarrow> waiters_bounded (waiters_at m k)"
  by (cases "map_of m k") (auto simp: waiters_ok_def)

lemma chans_insert:
  "hm_ok m \<Longrightarrow> mset (chans_of (hm_insert k w m)) + mset (waiters_chans (waiters_at m k)) =
     mset (chans_of m) + mset (waiters_chans w)"
proof (induction m)
  case (Cons p m)
  obtain j v where p: "p = (j, v)" by fastforce
  have "hm_ok m" and j: "map_of m j = None"
    using Cons.prems by (auto simp: p hm_ok_def map_of_eq_None_iff)
  then show ?case
    using Cons.IH by (auto simp: p chans_of_def waiters_at_def ac_simps split: option.splits)
qed (simp add: chans_of_def waiters_at_def)

lemma chans_remove:
  "hm_ok m \<Longrightarrow> mset (chans_of (hm_remove k m)) + mset (waiters_chans (waiters_at m k)) = mset (chans_of m)"
proof (induction m)
  case (Cons p m)
  obtain j v where p: "p = (j, v)" by fastforce
  have "hm_ok m" and j: "map_of m j = None"
    using Cons.prems by (auto simp: p hm_ok_def map_of_eq_None_iff)
  then show ?case
    using Cons.IH by (auto simp: p chans_of_def waiters_at_def hm_remove_id ac_simps split: option.splits)
qed (simp add: chans_of_def waiters_at_def)

text \<open>Replacing an ID's waiters, and dropping the ID when none are left.\<close>

definition put_waiters :: "string \<Rightarrow> waiters \<Rightarrow> (string, waiters) hash_map \<Rightarrow> (string, waiters) hash_map" where
  "put_waiters k w m = (if waiters_is_empty w then hm_remove k m else hm_insert k w m)"

lemma waiters_is_empty_eq: "waiters_is_empty w \<Longrightarrow> w = waiters_new"
  by (simp add: waiters_is_empty_def waiters_new_def)

lemma waiters_at_put [simp]: "waiters_at (put_waiters k w m) j = (if j = k then w else waiters_at m j)"
  by (auto simp: put_waiters_def dest: waiters_is_empty_eq)

lemma chans_put:
  assumes "hm_ok m"
  shows "mset (chans_of (put_waiters k w m)) + mset (waiters_chans (waiters_at m k)) =
     mset (chans_of m) + mset (waiters_chans w)"
  using chans_insert[OF assms, of k w] chans_remove[OF assms, of k]
  by (auto simp: put_waiters_def dest: waiters_is_empty_eq)

lemma waiters_ok_put:
  assumes "waiters_ok n m" and "waiters_bounded w" and "map_of m k \<noteq> None"
  shows "waiters_ok n (put_waiters k w m)"
  using assms hm_length_remove_le[of k m]
  by (auto simp: waiters_ok_def put_waiters_def hm_simps hm_length_insert split: if_splits)

lemma waiters_ok_insert:
  assumes "waiters_ok n m" and "\<not> waiters_is_empty w" and "waiters_bounded w"
    and "map_of m k \<noteq> None \<or> length m < n"
  shows "waiters_ok n (hm_insert k w m)"
  using assms by (auto simp: waiters_ok_def hm_simps hm_length_insert)

lemma waiters_ok_remove: "waiters_ok n m \<Longrightarrow> waiters_ok n (hm_remove k m)"
  using hm_length_remove_le[of k m] by (auto simp: waiters_ok_def hm_simps)

section \<open>Notification\<close>

lemma wl_notify_message_eq:
  "wl_notify_message_waiters k m wl =
     (wl\<lparr>waiters_map := hm_remove k (waiters_map wl)\<rparr>,
      map Dropped (acks_at (waiters_map wl) k) @ map (\<lambda>c. SentMessage c m) (msgs_at (waiters_map wl) k))"
  by (simp add: wl_notify_message_waiters_def notify_message_waiters_def waiters_is_empty_def
      waiters_at_def hm_remove_id waiters_new_def split: option.split)

lemma wl_notify_ack_eq:
  "wl_notify_ack_waiters k wl =
     (wl\<lparr>waiters_map := (if hm_contains k (waiters_map wl)
        then put_waiters k ((waiters_at (waiters_map wl) k)\<lparr>ack_waiters := []\<rparr>) (waiters_map wl)
        else waiters_map wl)\<rparr>,
      map SentAck (acks_at (waiters_map wl) k))"
  by (simp add: wl_notify_ack_waiters_def notify_ack_waiters_def put_waiters_def waiters_at_def
      hm_contains_def waiters_new_def split: option.split)

lemma balanced_notify:
  assumes "hm_ok m"
  shows "balanced m {#} (hm_remove k m)
    (map Dropped (acks_at m k) @ map (\<lambda>c. SentMessage c msg) (msgs_at m k))"
  using chans_remove[OF assms, of k] by (simp add: balanced_def waiters_chans_def comp_def ac_simps)

lemma notify_message_step:
  assumes "wl_notify_message_waiters k m wl = (wl', sigs)" and "waiters_ok n (waiters_map wl)"
  shows "waiters_ok n (waiters_map wl')" and "balanced (waiters_map wl) {#} (waiters_map wl') sigs"
    and "waiters_at (waiters_map wl') j = (if j = k then waiters_new else waiters_at (waiters_map wl) j)"
    and "wl' = wl\<lparr>waiters_map := waiters_map wl'\<rparr>"
    and "length (waiters_map wl') \<le> length (waiters_map wl)"
proof -
  have wl': "wl' = wl\<lparr>waiters_map := hm_remove k (waiters_map wl)\<rparr>"
    and sigs: "sigs = map Dropped (acks_at (waiters_map wl) k) @
        map (\<lambda>c. SentMessage c m) (msgs_at (waiters_map wl) k)"
    using assms(1) by (simp_all add: wl_notify_message_eq)
  have "hm_ok (waiters_map wl)" using assms(2) by (simp add: waiters_ok_def)
  from balanced_notify[OF this] show "balanced (waiters_map wl) {#} (waiters_map wl') sigs"
    by (simp add: wl' sigs)
  show "waiters_ok n (waiters_map wl')" using assms(2) by (simp add: wl' waiters_ok_remove)
qed (use assms(1) in \<open>auto simp: wl_notify_message_eq hm_length_remove_le\<close>)

lemma notify_ack_step:
  assumes "wl_notify_ack_waiters k wl = (wl', sigs)" and "waiters_ok n (waiters_map wl)"
  shows "waiters_ok n (waiters_map wl')" and "balanced (waiters_map wl) {#} (waiters_map wl') sigs"
    and "waiters_at (waiters_map wl') j =
      (if j = k then (waiters_at (waiters_map wl) k)\<lparr>ack_waiters := []\<rparr> else waiters_at (waiters_map wl) j)"
    and "wl' = wl\<lparr>waiters_map := waiters_map wl'\<rparr>"
    and "sigs = map SentAck (acks_at (waiters_map wl) k)"
proof -
  let ?m = "waiters_map wl" and ?w = "(waiters_at (waiters_map wl) k)\<lparr>ack_waiters := []\<rparr>"
  have wl': "waiters_map wl' = (if hm_contains k ?m then put_waiters k ?w ?m else ?m)"
    using assms(1) by (auto simp: wl_notify_ack_eq)
  show sigs: "sigs = map SentAck (acks_at ?m k)" and "wl' = wl\<lparr>waiters_map := waiters_map wl'\<rparr>"
    using assms(1) by (auto simp: wl_notify_ack_eq)
  have ok: "hm_ok ?m" using assms(2) by (simp add: waiters_ok_def)
  have "waiters_bounded ?w" using bounded_at[OF assms(2), of k] by (simp add: waiters_bounded_def)
  then show "waiters_ok n (waiters_map wl')"
    using assms(2) by (simp add: wl' waiters_ok_put hm_contains_def)
  show "balanced ?m {#} (waiters_map wl') sigs"
    using chans_put[OF ok, of k ?w]
    by (auto simp: balanced_def wl' sigs comp_def waiters_chans_def hm_contains_def ac_simps)
  show "waiters_at (waiters_map wl') j = (if j = k then ?w else waiters_at ?m j)"
    by (auto simp: wl' hm_contains_def waiters_new_def)
qed

section \<open>Pruning closed senders\<close>

lemma snd_remove_closed:
  "mset (waiters_chans (open_waiters cl w)) + mset (map signal_chan (snd (remove_closed_senders cl w))) =
     mset (waiters_chans w)"
proof -
  let ?a = "ack_waiters w" and ?m = "message_waiters w"
  have "mset (waiters_chans (open_waiters cl w)) + mset (map signal_chan (snd (remove_closed_senders cl w))) =
      mset (filter (\<lambda>c. \<not> cl c) ?a @ filter (\<lambda>c. \<not> cl c) ?m) + mset (filter cl ?a @ filter cl ?m)"
    by (simp add: remove_closed_senders_def retain_open_def waiters_chans_def comp_def)
  also have "\<dots> = (mset (filter cl ?a) + mset (filter (\<lambda>c. \<not> cl c) ?a)) +
      (mset (filter cl ?m) + mset (filter (\<lambda>c. \<not> cl c) ?m))"
    by (simp only: mset_append ac_simps)
  also have "\<dots> = mset (waiters_chans w)"
    by (simp only: mset_filter_split waiters_chans_def mset_append)
  finally show ?thesis .
qed

lemma remove_closed_drops: "s \<in> set (snd (remove_closed_senders cl w)) \<Longrightarrow> \<exists>c. s = Dropped c \<and> cl c"
  by (auto simp: remove_closed_senders_def retain_open_def)

lemma remove_closed_step:
  assumes "remove_closed_waiters cl wl = (wl', sigs)" and ok: "waiters_ok n (waiters_map wl)"
  shows "waiters_ok n (waiters_map wl')" and "balanced (waiters_map wl) {#} (waiters_map wl') sigs"
    and "waiters_at (waiters_map wl') j = open_waiters cl (waiters_at (waiters_map wl) j)"
    and "wl' = wl\<lparr>waiters_map := waiters_map wl'\<rparr>"
    and "\<forall>s \<in> set sigs. \<exists>c. s = Dropped c \<and> cl c"
    and "length (waiters_map wl') \<le> length (waiters_map wl)"
proof -
  let ?m = "waiters_map wl"
  define pr where "pr = map (\<lambda>(k, w). (k, open_waiters cl w)) ?m"
  have m': "waiters_map wl' = filter (\<lambda>(_, w). \<not> waiters_is_empty w) pr"
    and sigs: "sigs = concat (map (\<lambda>(_, w). snd (remove_closed_senders cl w)) ?m)"
    using assms(1) by (auto simp: remove_closed_waiters_def pr_def)
  show "wl' = wl\<lparr>waiters_map := waiters_map wl'\<rparr>"
    using assms(1) by (auto simp: remove_closed_waiters_def)
  show "\<forall>s \<in> set sigs. \<exists>c. s = Dropped c \<and> cl c"
    by (auto simp: sigs dest: remove_closed_drops)
  have hp: "hm_ok pr" using ok by (simp add: pr_def waiters_ok_def)
  have get: "map_of (waiters_map wl') j =
      (case map_of ?m j of None \<Rightarrow> None
       | Some w \<Rightarrow> if waiters_is_empty (open_waiters cl w) then None else Some (open_waiters cl w))" for j
    unfolding m' hm_get_filter[OF hp] by (simp add: pr_def hm_get_map_snd split: option.split)
  show "waiters_at (waiters_map wl') j = open_waiters cl (waiters_at ?m j)"
    by (auto simp: waiters_at_def get dest: waiters_is_empty_eq split: option.splits)
  show len: "length (waiters_map wl') \<le> length ?m"
    by (simp add: m' pr_def order_trans[OF length_filter_le])
  have "waiters_bounded (open_waiters cl w)" if "map_of ?m j = Some w" for j w
    using ok that bounded_remove_closed[of w cl] by (auto simp: waiters_ok_def)
  moreover have "hm_ok (waiters_map wl')" using hp by (simp add: m')
  ultimately show "waiters_ok n (waiters_map wl')"
    using ok len unfolding waiters_ok_def get by (auto split: option.splits if_splits)
  let ?keep = "\<lambda>m. filter (\<lambda>(_, w). \<not> waiters_is_empty w) (map (\<lambda>(k, w). (k, open_waiters cl w)) m)"
    and ?drops = "\<lambda>m. concat (map (\<lambda>(_, w). snd (remove_closed_senders cl w)) m)"
  have "mset (chans_of m) = mset (chans_of (?keep m)) + mset (map signal_chan (?drops m))"
    for m :: "(string, waiters) hash_map"
  proof (induction m)
    case (Cons p m)
    obtain k w where p: "p = (k, w)" by fastforce
    have none: "waiters_chans (open_waiters cl w) = []" if "waiters_is_empty (open_waiters cl w)"
      using that by (simp add: waiters_is_empty_def waiters_chans_def)
    have "mset (chans_of (p # m)) = mset (waiters_chans w) + mset (chans_of m)"
      by (simp add: p chans_of_def)
    also have "\<dots> = mset (waiters_chans (open_waiters cl w)) +
        mset (map signal_chan (snd (remove_closed_senders cl w))) + mset (chans_of m)"
      by (simp only: snd_remove_closed)
    also have "\<dots> = mset (waiters_chans (open_waiters cl w)) +
        mset (map signal_chan (snd (remove_closed_senders cl w))) +
        (mset (chans_of (?keep m)) + mset (map signal_chan (?drops m)))"
      by (simp only: Cons.IH)
    also have "\<dots> = mset (waiters_chans (open_waiters cl w) @ chans_of (?keep m)) +
        mset (map signal_chan (snd (remove_closed_senders cl w) @ ?drops m))"
      by (simp only: mset_append map_append ac_simps)
    also have "waiters_chans (open_waiters cl w) @ chans_of (?keep m) = chans_of (?keep (p # m))"
      using none by (simp add: p chans_of_def)
    also have "snd (remove_closed_senders cl w) @ ?drops m = ?drops (p # m)"
      by (simp add: p)
    finally show ?case .
  qed (simp add: chans_of_def)
  from this[of ?m] show "balanced ?m {#} (waiters_map wl') sigs"
    by (simp only: balanced_def m' pr_def sigs add_0_right)
qed

section \<open>Capacity\<close>

lemma ensure_step:
  assumes en: "ensure_waiter_capacity e k wl = (wl', sigs, res)"
    and ok: "waiters_ok n (waiters_map wl)" and n: "n = max_waiting_ids wl"
  shows "waiters_ok n (waiters_map wl')" and "balanced (waiters_map wl) {#} (waiters_map wl') sigs"
    and "waiters_at (waiters_map wl') j = waiters_at (waiters_map wl) j \<or>
         waiters_at (waiters_map wl') j = open_waiters (closed e) (waiters_at (waiters_map wl) j)"
    and "repository wl' = repository wl" and "max_waiting_ids wl' = max_waiting_ids wl"
    and "\<forall>s \<in> set sigs. \<exists>c. s = Dropped c \<and> closed e c"
    and "res = Inr () \<Longrightarrow> map_of (waiters_map wl') k \<noteq> None \<or> length (waiters_map wl') < n"
    and "res \<noteq> Inl NotFound"
proof -
  have bal0: "balanced m {#} m []" for m by (simp add: balanced_def)
  obtain wp ps where rc: "remove_closed_waiters (closed e) wl = (wp, ps)" by fastforce
  note rcs = remove_closed_step[OF rc ok]
  have same: "repository wp = repository wl" "max_waiting_ids wp = max_waiting_ids wl"
    using rc by (auto simp: remove_closed_waiters_def)
  consider (room) "hm_contains k (waiters_map wl) \<or> length (waiters_map wl) < n" "wl' = wl" "sigs = []" "res = Inr ()"
    | (pruned) "wl' = wp\<lparr>last_full_map_prune := Some (m_prune e)\<rparr>" "sigs = ps"
        "res = (if length (waiters_map wl') < n then Inr () else Inl WaiterLimitReached)"
    | (too_soon) "wl' = wl" "sigs = []" "res = (if length (waiters_map wl') < n then Inr () else Inl WaiterLimitReached)"
  proof -
    let ?due = "case last_full_map_prune wl of None \<Rightarrow> True
       | Some last_prune \<Rightarrow> m_elapsed e - last_prune \<ge> full_map_prune_interval"
    let ?room = "hm_contains k (waiters_map wl) \<or> length (waiters_map wl) < n"
    show thesis
    proof (cases ?room)
      case True
      then have "(wl', sigs, res) = (wl, [], Inr ())"
        using en by (simp only: ensure_waiter_capacity_def n if_True)
      with True that(1) show thesis by simp
    next
      case False
      then have full: "(wl', sigs, res) = (let (wl1, sigs) = (if ?due
            then (wp\<lparr>last_full_map_prune := Some (m_prune e)\<rparr>, ps) else (wl, []))
          in (wl1, sigs, if length (waiters_map wl1) < max_waiting_ids wl1 then Inr ()
                         else Inl WaiterLimitReached))"
        using en by (simp only: ensure_waiter_capacity_def n if_False Let_def rc split_conv)
      show thesis
      proof (cases ?due)
        case True
        have "max_waiting_ids (wp\<lparr>last_full_map_prune := Some (m_prune e)\<rparr>) = n"
          using same n by simp
        with full True that(2) show thesis by (simp only: if_True Let_def split_conv prod.inject)
      next
        case False
        with full n that(3) show thesis by (simp only: if_False Let_def split_conv prod.inject)
      qed
    qed
  qed
  then have "waiters_ok n (waiters_map wl') \<and> balanced (waiters_map wl) {#} (waiters_map wl') sigs \<and>
    (\<forall>j. waiters_at (waiters_map wl') j = waiters_at (waiters_map wl) j \<or>
         waiters_at (waiters_map wl') j = open_waiters (closed e) (waiters_at (waiters_map wl) j)) \<and>
    repository wl' = repository wl \<and> max_waiting_ids wl' = max_waiting_ids wl \<and>
    (\<forall>s \<in> set sigs. \<exists>c. s = Dropped c \<and> closed e c) \<and>
    (res = Inr () \<longrightarrow> map_of (waiters_map wl') k \<noteq> None \<or> length (waiters_map wl') < n) \<and>
    res \<noteq> Inl NotFound"
  proof cases
    case pruned
    with same rcs(1,2,5) rcs(3) show ?thesis by simp
  qed (use ok bal0 in \<open>auto simp: hm_contains_def\<close>)
  then show "waiters_ok n (waiters_map wl')" and "balanced (waiters_map wl) {#} (waiters_map wl') sigs"
    and "waiters_at (waiters_map wl') j = waiters_at (waiters_map wl) j \<or>
         waiters_at (waiters_map wl') j = open_waiters (closed e) (waiters_at (waiters_map wl) j)"
    and "repository wl' = repository wl" and "max_waiting_ids wl' = max_waiting_ids wl"
    and "\<forall>s \<in> set sigs. \<exists>c. s = Dropped c \<and> closed e c"
    and "res = Inr () \<Longrightarrow> map_of (waiters_map wl') k \<noteq> None \<or> length (waiters_map wl') < n"
    and "res \<noteq> Inl NotFound"
    by auto
qed

section \<open>Subscribing\<close>

lemma balanced_refl: "balanced m {#} m []"
  by (simp add: balanced_def)

lemma multiset_chain:
  fixes x :: "'a multiset"
  assumes "x + a = y + s" and "y + b = z + t"
  shows "x + (a + b) = z + (s + t)"
proof -
  have "x + (a + b) = (y + b) + s" using assms(1) by (metis add.assoc add.commute)
  then show ?thesis unfolding assms(2) by (simp only: ac_simps)
qed

lemma multiset_swap:
  fixes x :: "'a multiset"
  assumes "x' + w = x + w'" and "w + c = w' + s"
  shows "x + c = x' + s"
proof -
  have "w' + (x + c) = (x' + w) + c" using assms(1) by (simp only: ac_simps)
  also have "\<dots> = x' + (w' + s)" unfolding assms(2)[symmetric] by (simp only: ac_simps)
  also have "\<dots> = w' + (x' + s)" by (simp only: ac_simps)
  finally show ?thesis by (simp only: add_left_cancel)
qed

lemma balanced_trans:
  "balanced m a m1 s1 \<Longrightarrow> balanced m1 b m2 s2 \<Longrightarrow> balanced m (a + b) m2 (s1 @ s2)"
  using multiset_chain[of "mset (chans_of m)" a _ _ b] by (simp add: balanced_def)

lemma waiters_for_cases:
  assumes "waiters_for e k wl = (wl1, sigs, res)"
  obtains (full) err where "ensure_waiter_capacity e k wl = (wl1, sigs, Inl err)" "res = Inl err"
  | (room) wl0 where "ensure_waiter_capacity e k wl = (wl0, sigs, Inr ())"
      "res = Inr (waiters_at (waiters_map wl0) k)" "repository wl1 = repository wl0"
      "max_waiting_ids wl1 = max_waiting_ids wl0" "last_full_map_prune wl1 = last_full_map_prune wl0"
      "\<And>w. hm_insert k w (waiters_map wl1) = hm_insert k w (waiters_map wl0)"
proof -
  obtain wl0 s0 r0 where en: "ensure_waiter_capacity e k wl = (wl0, s0, r0)"
    by (metis prod_cases3)
  show thesis
  proof (cases r0)
    case (Inl err)
    then have "(wl1, sigs, res) = (wl0, s0, Inl err)" using assms en by (simp add: waiters_for_def)
    with en Inl show thesis by (intro full[of err]) auto
  next
    case (Inr u)
    show thesis
    proof (cases "map_of (waiters_map wl0) k")
      case None
      then have "wl1 = wl0\<lparr>waiters_map := hm_insert k waiters_new (waiters_map wl0)\<rparr>"
        "sigs = s0" "res = Inr waiters_new"
        using assms en Inr by (simp_all add: waiters_for_def)
      with en Inr None show thesis by (intro room[of wl0]) (auto simp: hm_insert_twice)
    next
      case (Some w)
      then have "wl1 = wl0" "sigs = s0" "res = Inr w"
        using assms en Inr by (simp_all add: waiters_for_def)
      with en Inr Some show thesis by (intro room[of wl0]) auto
    qed
  qed
qed

text \<open>Both kinds of subscription, once: reserve the ID, then add the sender.\<close>

context sender_queue
begin

lemma subscribe_step:
  assumes wf: "waiters_for e k wl = (wl1, s1, Inr w)" and add: "add (closed e) ch w = (w', s2, ok)"
    and wl2: "wl2 = wl1\<lparr>waiters_map := hm_insert k w' (waiters_map wl1)\<rparr>"
    and inv: "waiters_ok n (waiters_map wl)" and n: "n = max_waiting_ids wl"
  shows "waiters_ok n (waiters_map wl2)"
    and "balanced (waiters_map wl) {#ch#} (waiters_map wl2) (s1 @ s2)"
    and "repository wl2 = repository wl" and "max_waiting_ids wl2 = max_waiting_ids wl"
    and "j \<noteq> k \<Longrightarrow> waiters_at (waiters_map wl2) j = waiters_at (waiters_map wl) j \<or>
          waiters_at (waiters_map wl2) j = open_waiters (closed e) (waiters_at (waiters_map wl) j)"
    and "set (other (waiters_at (waiters_map wl2) k)) \<subseteq> set (other (waiters_at (waiters_map wl) k))"
    and "set (slot (waiters_at (waiters_map wl2) k)) \<subseteq> insert ch (set (slot (waiters_at (waiters_map wl) k)))"
    and "ok \<Longrightarrow> ch \<in> set (slot (waiters_at (waiters_map wl2) k))"
    and "x \<in> set (slot (waiters_at (waiters_map wl) k)) \<Longrightarrow> \<not> closed e x \<Longrightarrow>
         x \<in> set (slot (waiters_at (waiters_map wl2) k))"
    and "x \<in> set (other (waiters_at (waiters_map wl) k)) \<Longrightarrow> \<not> closed e x \<Longrightarrow>
         x \<in> set (other (waiters_at (waiters_map wl2) k))"
proof -
  obtain wl0 where room: "ensure_waiter_capacity e k wl = (wl0, s1, Inr ())"
      "Inr w = (Inr (waiters_at (waiters_map wl0) k) :: subscribe_error + waiters)"
      "repository wl1 = repository wl0" "max_waiting_ids wl1 = max_waiting_ids wl0"
      "\<And>w. hm_insert k w (waiters_map wl1) = hm_insert k w (waiters_map wl0)"
    using wf by (cases rule: waiters_for_cases) auto
  let ?m0 = "waiters_map wl0"
  note en = ensure_step[OF room(1) inv n]
  have w: "w = waiters_at ?m0 k" using room(2) by simp
  have m2: "waiters_map wl2 = hm_insert k w' ?m0" by (simp add: wl2 room(5))
  show "repository wl2 = repository wl" "max_waiting_ids wl2 = max_waiting_ids wl"
    using en(4,5) room(3,4) by (simp_all add: wl2)
  have "waiters_bounded w'"
    using add_waiters_bounded[OF add] bounded_at[OF en(1)] w by simp
  then show "waiters_ok n (waiters_map wl2)"
    using en(1,7) add_not_empty[OF add] by (simp add: m2 waiters_ok_insert)
  have "hm_ok ?m0" using en(1) by (simp add: waiters_ok_def)
  from multiset_swap[OF chans_insert[OF this, of k w'] add_conserves[OF add, unfolded w]]
  have "balanced ?m0 {#ch#} (waiters_map wl2) s2" by (simp only: balanced_def m2)
  from balanced_trans[OF en(2) this]
  show "balanced (waiters_map wl) {#ch#} (waiters_map wl2) (s1 @ s2)" by simp
  have sub: "set (slot w) \<subseteq> set (slot (waiters_at (waiters_map wl) k))"
    "set (other w) \<subseteq> set (other (waiters_at (waiters_map wl) k))"
    using en(3)[of k] slots_open[of "closed e" "waiters_at (waiters_map wl) k"] by (auto simp: w)
  show "set (other (waiters_at (waiters_map wl2) k)) \<subseteq> set (other (waiters_at (waiters_map wl) k))"
    using add_slot[OF add] sub by (simp add: m2)
  show "set (slot (waiters_at (waiters_map wl2) k)) \<subseteq> insert ch (set (slot (waiters_at (waiters_map wl) k)))"
    using add_chans(1)[OF add] sub by (auto simp: m2)
  show "ok \<Longrightarrow> ch \<in> set (slot (waiters_at (waiters_map wl2) k))"
    using add_slot[OF add] by (simp add: m2)
  have stay: "x \<in> set (slot (waiters_at (waiters_map wl) k)) \<Longrightarrow> \<not> closed e x \<Longrightarrow> x \<in> set (slot w)"
    "x \<in> set (other (waiters_at (waiters_map wl) k)) \<Longrightarrow> \<not> closed e x \<Longrightarrow> x \<in> set (other w)"
    using en(3)[of k] slots_open[of "closed e" "waiters_at (waiters_map wl) k"] by (auto simp: w)
  show "x \<in> set (slot (waiters_at (waiters_map wl) k)) \<Longrightarrow> \<not> closed e x \<Longrightarrow>
        x \<in> set (slot (waiters_at (waiters_map wl2) k))"
    using stay(1) add_keeps_open[OF add] by (simp add: m2)
  show "x \<in> set (other (waiters_at (waiters_map wl) k)) \<Longrightarrow> \<not> closed e x \<Longrightarrow>
        x \<in> set (other (waiters_at (waiters_map wl2) k))"
    using stay(2) add_slot[OF add] by (simp add: m2)
  show "j \<noteq> k \<Longrightarrow> waiters_at (waiters_map wl2) j = waiters_at (waiters_map wl) j \<or>
          waiters_at (waiters_map wl2) j = open_waiters (closed e) (waiters_at (waiters_map wl) j)"
    using en(3)[of j] by (simp add: m2)
qed

end

end
