(* ===== verification/Waiting_List_Correct.thy ===== *)
theory Waiting_List_Correct
  imports Waiting_List_Invariants Storage_Sqlite Storage_Memory
begin

text \<open>
  The methods of the waiting list over any repository that keeps the storage contract.  The
  invariant \<open>wl_inv\<close> adds to the shape of the waiter map that nobody waits for an ACK that has
  happened; \<open>served\<close> says that nobody waits for a message that is there.  The lemmas are proved
  in the context of the contract and reach the two back ends through its interpretations.
\<close>

definition wl_inv ::
    "('r, 'x) repo_ops \<Rightarrow> ('r \<Rightarrow> bool) \<Rightarrow> ('r \<Rightarrow> string \<rightharpoonup> stored_entry) \<Rightarrow> 'r waiting_list \<Rightarrow> bool" where
  "wl_inv ops invar view wl \<longleftrightarrow>
     invar (repository wl) \<and> max_waiting_ids wl = repo_max ops (repository wl) \<and>
     waiters_ok (max_waiting_ids wl) (waiters_map wl) \<and>
     (\<forall>k s. view (repository wl) k = Some s \<and> acked s \<longrightarrow> acks_at (waiters_map wl) k = [])"

definition served :: "i64 \<Rightarrow> (string \<rightharpoonup> stored_entry) \<Rightarrow> (string, waiters) hash_map \<Rightarrow> bool" where
  "served now v m \<longleftrightarrow>
     (\<forall>k s. v k = Some s \<and> \<not> acked s \<and> \<not> is_expired now (expires_at s) \<longrightarrow> msgs_at m k = [])"

definition live_at :: "i64 \<Rightarrow> (string \<rightharpoonup> stored_entry) \<Rightarrow> string \<Rightarrow> stored_entry \<Rightarrow> bool" where
  "live_at now v k s \<longleftrightarrow> v k = Some s \<and> \<not> is_expired now (expires_at s)"

lemma served_mono: "served t v m \<Longrightarrow> sint t \<le> sint t' \<Longrightarrow> served t' v m"
  unfolding served_def using is_expired_mono by blast

lemma subset_Nil: "set xs \<subseteq> set ys \<Longrightarrow> ys = [] \<Longrightarrow> xs = []"
  by simp

section \<open>The methods without their plumbing\<close>

lemma store_eq:
  "store ops e k m ttl wl =
     (let (r, res) = repo_insert ops e (repository wl) k (body m) (msg_content_type m)
                       (t_store e + of_nat (as_millis ttl))
      in if res = Inr StoreFull then (wl\<lparr>repository := r\<rparr>, [], res)
         else (wl\<lparr>repository := r, waiters_map := hm_remove k (waiters_map wl)\<rparr>,
               map Dropped (acks_at (waiters_map wl) k) @
               map (\<lambda>c. SentMessage c m) (msgs_at (waiters_map wl) k), res))"
  by (simp add: store_def wl_notify_message_eq Let_def split: prod.splits)

context entry_store
begin

abbreviation good :: "'r waiting_list \<Rightarrow> bool" where
  "good \<equiv> wl_inv ops invar view"

lemma goodD:
  assumes "good wl"
  shows "invar (repository wl)" "max_waiting_ids wl = repo_max ops (repository wl)"
    "waiters_ok (max_waiting_ids wl) (waiters_map wl)" "hm_ok (waiters_map wl)"
    "view (repository wl) k = Some s \<Longrightarrow> acked s \<Longrightarrow> acks_at (waiters_map wl) k = []"
  using assms by (auto simp: wl_inv_def waiters_ok_def)

lemma goodI:
  "invar (repository wl) \<Longrightarrow> max_waiting_ids wl = repo_max ops (repository wl) \<Longrightarrow>
   waiters_ok (max_waiting_ids wl) (waiters_map wl) \<Longrightarrow>
   (\<And>k s. view (repository wl) k = Some s \<Longrightarrow> acked s \<Longrightarrow> acks_at (waiters_map wl) k = []) \<Longrightarrow> good wl"
  by (auto simp: wl_inv_def)

lemma good_new: "invar r \<Longrightarrow> good (waiting_list_new ops r)"
  by (simp add: wl_inv_def waiting_list_new_def waiters_ok_def waiters_at_def)

section \<open>\<open>store\<close>\<close>

lemma store_step:
  assumes g: "good wl" and fair: "fair_scan e"
    and st: "store ops e k m ttl wl = (wl', sigs, res)"
  shows "good wl'" and "balanced (waiters_map wl) {#} (waiters_map wl') sigs"
    and "max_waiting_ids wl' = max_waiting_ids wl"
    and "served now (view (repository wl)) (waiters_map wl) \<Longrightarrow>
         served now (view (repository wl')) (waiters_map wl')"
proof -
  let ?x = "t_store e + of_nat (as_millis ttl)"
  obtain r where ins: "repo_insert ops e (repository wl) k (body m) (msg_content_type m) ?x = (r, res)"
    and wl': "wl' = (if res = Inr StoreFull then wl\<lparr>repository := r\<rparr>
        else wl\<lparr>repository := r, waiters_map := hm_remove k (waiters_map wl)\<rparr>)"
    and sigs: "sigs = (if res = Inr StoreFull then []
        else map Dropped (acks_at (waiters_map wl) k) @ map (\<lambda>c. SentMessage c m) (msgs_at (waiters_map wl) k))"
    using st by (auto simp: store_eq split: prod.splits if_splits)
  note inv = goodD(1)[OF g]
  note keeps = insert_keeps[OF inv fair ins] and le = insert_other_le[OF inv fair ins]
  show same_max: "max_waiting_ids wl' = max_waiting_ids wl" by (simp add: wl')
  have kept: "acks_at (waiters_map wl') j = [] \<or> (acks_at (waiters_map wl') j = acks_at (waiters_map wl) j \<and>
        (view r j = None \<or> view r j = view (repository wl) j))"
    and kept': "msgs_at (waiters_map wl') j = [] \<or> (msgs_at (waiters_map wl') j = msgs_at (waiters_map wl) j \<and>
        (view r j = None \<or> view r j = view (repository wl) j))" for j
  proof -
    have "view r j = None \<or> view r j = view (repository wl) j" if "res = Inr StoreFull"
      using insert_full[OF inv fair ins[unfolded that]] by (auto simp: restrict_map_def)
    moreover have "view r j = None \<or> view r j = view (repository wl) j" if "j \<noteq> k"
      using le[of j] that by (cases "view r j") auto
    ultimately show "acks_at (waiters_map wl') j = [] \<or> (acks_at (waiters_map wl') j = acks_at (waiters_map wl) j \<and>
        (view r j = None \<or> view r j = view (repository wl) j))"
      and "msgs_at (waiters_map wl') j = [] \<or> (msgs_at (waiters_map wl') j = msgs_at (waiters_map wl) j \<and>
        (view r j = None \<or> view r j = view (repository wl) j))"
      by (auto simp: wl')
  qed
  have "acks_at (waiters_map wl') j = []" if "view r j = Some s" "acked s" for j s
    using kept[of j] goodD(5)[OF g, of j s] that by auto
  moreover have "repository wl' = r" "waiters_ok (max_waiting_ids wl') (waiters_map wl')"
    using goodD(3)[OF g] by (simp_all add: wl' waiters_ok_remove)
  ultimately show "good wl'"
    using keeps goodD(2)[OF g] same_max unfolding wl_inv_def by metis
  show "balanced (waiters_map wl) {#} (waiters_map wl') sigs"
    using balanced_notify[OF goodD(4)[OF g], of k m] by (simp add: wl' sigs balanced_refl)
  show "served now (view (repository wl')) (waiters_map wl')"
    if srv: "served now (view (repository wl)) (waiters_map wl)"
    unfolding served_def
  proof (intro allI impI, elim conjE)
    fix j s assume s: "view (repository wl') j = Some s" "\<not> acked s" "\<not> is_expired now (expires_at s)"
    have "repository wl' = r" by (simp add: wl')
    with s(1) have "view r j = Some s" by simp
    then show "msgs_at (waiters_map wl') j = []"
      using kept'[of j] srv s(2,3) unfolding served_def by (metis option.distinct(1))
  qed
qed

text \<open>A stored message is there for every later reader, and everyone who waited for it got it.\<close>

lemma store_stored:
  assumes g: "good wl" and fair: "fair_scan e"
    and st: "store ops e k m ttl wl = (wl', sigs, Inr Stored)"
  shows "view (repository wl') k =
      Some (fresh_entry (body m) (msg_content_type m) (t_store e + of_nat (as_millis ttl)))"
    and "waiters_at (waiters_map wl') k = waiters_new"
    and "c \<in> set (msgs_at (waiters_map wl) k) \<Longrightarrow> SentMessage c m \<in> set sigs"
    and "c \<in> set (acks_at (waiters_map wl) k) \<Longrightarrow> Dropped c \<in> set sigs"
    and "SentMessage c m' \<in> set sigs \<Longrightarrow> c \<in> set (msgs_at (waiters_map wl) k) \<and> m' = m"
    and "SentAck c \<notin> set sigs"
    and "map_of (waiters_map wl') k = None"
    and "length (waiters_map wl') \<le> length (waiters_map wl)"
    and "map_of (waiters_map wl) k \<noteq> None \<Longrightarrow> length (waiters_map wl') < length (waiters_map wl)"
proof -
  let ?x = "t_store e + of_nat (as_millis ttl)"
  obtain r where ins: "repo_insert ops e (repository wl) k (body m) (msg_content_type m) ?x = (r, Inr Stored)"
    and wl': "wl' = wl\<lparr>repository := r, waiters_map := hm_remove k (waiters_map wl)\<rparr>"
    and sigs: "sigs = map Dropped (acks_at (waiters_map wl) k) @ map (\<lambda>c. SentMessage c m) (msgs_at (waiters_map wl) k)"
    using st by (auto simp: store_eq split: prod.splits if_splits)
  show "view (repository wl') k = Some (fresh_entry (body m) (msg_content_type m) ?x)"
    using insert_stored[OF goodD(1)[OF g] fair ins] by (auto simp: wl')
  show "map_of (waiters_map wl) k \<noteq> None \<Longrightarrow> length (waiters_map wl') < length (waiters_map wl)"
    using hm_length_remove[OF goodD(4)[OF g], of k] by (simp add: wl')
qed (use st in \<open>auto simp: store_eq hm_simps hm_length_remove_le split: prod.splits if_splits\<close>)

text \<open>A rejected message leaves the waiters, and every entry that holds a message, alone.\<close>

lemma store_full:
  assumes g: "good wl" and fair: "fair_scan e"
    and st: "store ops e k m ttl wl = (wl', sigs, Inr StoreFull)"
  shows "sigs = []" and "waiters_map wl' = waiters_map wl"
    and "view (repository wl) k = None" and "view (repository wl') k = None"
    and "j \<in> held (t_purge e) (view (repository wl)) \<Longrightarrow>
         view (repository wl') j = view (repository wl) j"
    and "max_waiting_ids wl \<le> card (held (t_purge e) (view (repository wl)))"
proof -
  obtain r where ins: "repo_insert ops e (repository wl) k (body m) (msg_content_type m)
        (t_store e + of_nat (as_millis ttl)) = (r, Inr StoreFull)"
    and wl': "wl' = wl\<lparr>repository := r\<rparr>" and "sigs = []"
    using st by (auto simp: store_eq split: prod.splits if_splits)
  then show "sigs = []" "waiters_map wl' = waiters_map wl" by simp_all
  from insert_full[OF goodD(1)[OF g] fair ins] show "view (repository wl) k = None"
    "view (repository wl') k = None"
    "j \<in> held (t_purge e) (view (repository wl)) \<Longrightarrow> view (repository wl') j = view (repository wl) j"
    "max_waiting_ids wl \<le> card (held (t_purge e) (view (repository wl)))"
    using goodD(2)[OF g] by (auto simp: wl' restrict_map_def)
qed

section \<open>\<open>ack\<close> and \<open>is_acked\<close>\<close>

lemma ack_cases:
  assumes g: "good wl" and ak: "ack ops e k wl = (wl', sigs, ok)"
  obtains (refused) "ok = False" "wl' = wl" "sigs = []"
      "reliable e \<Longrightarrow> \<nexists>s. live_at (t_check e) (view (repository wl)) k s"
  | (failed) r where "ok = False" "wl' = wl\<lparr>repository := r\<rparr>" "sigs = []" "invar r"
      "repo_max ops r = repo_max ops (repository wl)" "view r = view (repository wl)" "\<not> reliable e"
  | (again) s where "ok = True" "wl' = wl" "sigs = []" "live_at (t_check e) (view (repository wl)) k s" "acked s"
  | (acked) s r where "ok = True" "live_at (t_check e) (view (repository wl)) k s" "\<not> acked s"
      "wl_notify_ack_waiters k (wl\<lparr>repository := r\<rparr>) = (wl', sigs)" "invar r"
      "repo_max ops r = repo_max ops (repository wl)"
      "view r = (view (repository wl))(k \<mapsto> acked_entry s)"
proof -
  note inv = goodD(1)[OF g]
  consider (err) err where "repo_get ops e (repository wl) k = Inl err"
    | (none) "repo_get ops e (repository wl) k = Inr None" "view (repository wl) k = None"
    | (some) s where "repo_get ops e (repository wl) k = Inr (Some s)" "view (repository wl) k = Some s"
    using get_sound[OF inv] by (metis not_None_eq obj_sumE)
  then show thesis
  proof cases
    case err
    then have "\<not> reliable e" using get_reliable[OF inv, of e k] by auto
    with err ak refused show thesis by (simp add: ack_def)
  next
    case none
    with ak refused show thesis by (simp add: ack_def live_at_def)
  next
    case (some s)
    obtain r ares where ra: "repo_ack ops e (repository wl) k = (r, ares)" by fastforce
    note rk = ack_keeps[OF inv ra]
    consider "is_expired (t_check e) (expires_at s)" | "\<not> is_expired (t_check e) (expires_at s)" "Relay_Types.acked s"
      | "\<not> is_expired (t_check e) (expires_at s)" "\<not> Relay_Types.acked s" by blast
    then show thesis
    proof cases
      case 1
      with some ak refused show thesis by (simp add: ack_def live_at_def)
    next
      case 2
      with some ak again[of s] show thesis by (simp add: ack_def live_at_def)
    next
      case 3
      show thesis
      proof (cases ares)
        case (Inl err)
        then have "\<not> reliable e" using ack_reliable[OF inv, of e k] ra by auto
        with 3 some ak ra Inl rk failed[of r] show thesis by (simp add: ack_def)
      next
        case (Inr found)
        with 3 some ak ra rk acked[of s r] show thesis
          by (auto simp: ack_def live_at_def split: prod.splits)
      qed
    qed
  qed
qed

lemma ack_step:
  assumes g: "good wl" and ak: "ack ops e k wl = (wl', sigs, ok)"
  shows "good wl' \<and> balanced (waiters_map wl) {#} (waiters_map wl') sigs \<and>
    max_waiting_ids wl' = max_waiting_ids wl \<and>
    (served now (view (repository wl)) (waiters_map wl) \<longrightarrow>
     served now (view (repository wl')) (waiters_map wl'))"
  using g ak
proof (cases rule: ack_cases)
  case (failed r)
  have "good wl'"
    using failed goodD(2,3,5)[OF g] by (intro goodI) auto
  with failed show ?thesis by (simp add: balanced_refl)
next
  case (acked s r)
  note n = notify_ack_step[OF acked(4), of "max_waiting_ids wl"]
  have m: "max_waiting_ids wl' = max_waiting_ids wl" and r: "repository wl' = r"
    using n(4) goodD(3)[OF g] by (metis waiting_list.ext_inject waiting_list.surjective
        waiting_list.update_convs(1,2))+
  have "acks_at (waiters_map wl') j = []" if "view r j = Some u" "Relay_Types.acked u" for j u
    using that n(3)[of j] goodD(3)[OF g] goodD(5)[OF g, of j u] acked(7) by (auto split: if_splits)
  then have "good wl'"
    using n(1) goodD(2,3)[OF g] acked(5,6) m r by (simp add: wl_inv_def)
  moreover have "served now (view r) (waiters_map wl')"
    if "served now (view (repository wl)) (waiters_map wl)"
    using that n(3) goodD(3)[OF g] acked(2,7)
    by (auto simp: served_def live_at_def split: if_splits)
  ultimately show ?thesis using n(2) goodD(3)[OF g] m r by simp
qed (use g in \<open>simp_all add: balanced_refl\<close>)

text \<open>
  With a working store, \<open>ack\<close> succeeds exactly for an entry that exists and is not expired;
  then the entry is acknowledged, its body is gone, and every request that waited for the ACK is
  told.
\<close>

lemma ack_ok_iff:
  assumes "good wl" and "reliable e" and "ack ops e k wl = (wl', sigs, ok)"
  shows "ok \<longleftrightarrow> (\<exists>s. live_at (t_check e) (view (repository wl)) k s)"
  using assms(1,3) by (cases rule: ack_cases) (use assms(2) in auto)

lemma ack_done:
  assumes g: "good wl" and ak: "ack ops e k wl = (wl', sigs, True)"
  shows "\<exists>s. live_at (t_check e) (view (repository wl)) k s \<and>
      view (repository wl') = (view (repository wl))(k \<mapsto> acked_entry s)"
    and "sigs = map SentAck (acks_at (waiters_map wl) k)"
    and "acks_at (waiters_map wl') k = []"
proof -
  have same: "acked_entry s = s" if "view (repository wl) k = Some s" "acked s" for s
    using body_iff_unacked[OF goodD(1)[OF g] that(1)] that(2) by (simp add: acked_entry_def)
  have "(\<exists>s. live_at (t_check e) (view (repository wl)) k s \<and>
      view (repository wl') = (view (repository wl))(k \<mapsto> acked_entry s)) \<and>
    sigs = map SentAck (acks_at (waiters_map wl) k) \<and> acks_at (waiters_map wl') k = []"
    using g ak
  proof (cases rule: ack_cases)
    case (again s)
    then have "view (repository wl) k = Some s" by (simp add: live_at_def)
    with again same[of s] goodD(5)[OF g, of k s] show ?thesis by (auto simp: fun_upd_idem)
  next
    case (acked s r)
    note n = notify_ack_step[OF acked(4), of "max_waiting_ids wl"]
    have "repository wl' = r"
      using n(4) goodD(3)[OF g] by (metis waiting_list.ext_inject waiting_list.surjective
          waiting_list.update_convs(1,2))
    with n(3)[of k] n(5) goodD(3)[OF g] acked(2,7) show ?thesis by auto
  qed simp_all
  then show "\<exists>s. live_at (t_check e) (view (repository wl)) k s \<and>
      view (repository wl') = (view (repository wl))(k \<mapsto> acked_entry s)"
    and "sigs = map SentAck (acks_at (waiters_map wl) k)"
    and "acks_at (waiters_map wl') k = []" by auto
qed

lemma is_acked_eq:
  assumes "good wl" and "reliable e"
  shows "is_acked ops e k wl =
    (case view (repository wl) k of None \<Rightarrow> None
     | Some s \<Rightarrow> if is_expired (t_check e) (expires_at s) then None else Some (acked s))"
  using get_calm[OF goodD(1)[OF assms(1)] assms(2)] by (simp add: is_acked_def split: option.splits)

section \<open>Subscribing\<close>

text \<open>Less waiters keep the invariants; new ones need a reason to wait.\<close>

lemma fewer_waiters_good:
  assumes g: "good wl" and same: "repository wl' = repository wl" "max_waiting_ids wl' = max_waiting_ids wl"
    and ok: "waiters_ok (max_waiting_ids wl) (waiters_map wl')"
    and sub: "\<And>j. set (acks_at (waiters_map wl') j) \<subseteq> set (acks_at (waiters_map wl) j) \<or>
        (\<exists>s. view (repository wl) j = Some s \<and> \<not> acked s)"
  shows "good wl'"
proof (rule goodI)
  fix j s assume "view (repository wl') j = Some s" "acked s"
  then show "acks_at (waiters_map wl') j = []"
    using sub[of j] goodD(5)[OF g, of j s] same by auto
qed (use goodD[OF g] same ok in auto)

lemma fewer_waiters_served:
  assumes "served now (view (repository wl)) m"
    and "\<And>j s. live_at now (view (repository wl)) j s \<Longrightarrow> \<not> acked s \<Longrightarrow> set (msgs_at m' j) \<subseteq> set (msgs_at m j)"
  shows "served now (view (repository wl)) m'"
  unfolding served_def
proof (intro allI impI, elim conjE)
  fix j s assume s: "view (repository wl) j = Some s" "\<not> acked s" "\<not> is_expired now (expires_at s)"
  then have "set (msgs_at m' j) \<subseteq> set (msgs_at m j)" using assms(2)[of j s] by (simp add: live_at_def)
  moreover have "msgs_at m j = []" using assms(1) s by (simp add: served_def)
  ultimately show "msgs_at m' j = []" by simp
qed

lemma balanced_reject:
  "balanced m {#} m' sigs \<Longrightarrow> balanced m {#ch#} m' (sigs @ [Dropped ch])"
  by (simp add: balanced_def)

lemma open_or_same:
  assumes "w' = w \<or> w' = open_waiters cl w"
  shows "set (ack_waiters w') \<subseteq> set (ack_waiters w)" "set (message_waiters w') \<subseteq> set (message_waiters w)"
  using assms by auto

lemma subscribe_ack_cases:
  assumes g: "good wl" and sa: "subscribe_ack ops e ch k wl = (wl', sigs, res)"
  obtains (missing) "res = Inl NotFound" "wl' = wl" "sigs = []"
      "reliable e \<Longrightarrow> \<nexists>s. live_at (t_check e) (view (repository wl)) k s"
  | (done_already) s where "res = Inr ch" "wl' = wl" "sigs = [SentAck ch]"
      "live_at (t_check e) (view (repository wl)) k s" "acked s"
  | (no_room) s s1 where "res = Inl WaiterLimitReached" "sigs = s1 @ [Dropped ch]"
      "ensure_waiter_capacity e k wl = (wl', s1, Inl WaiterLimitReached)"
      "live_at (t_check e) (view (repository wl)) k s" "\<not> acked s"
  | (added) s wl1 s1 s2 w w' ok where "waiters_for e k wl = (wl1, s1, Inr w)"
      "add_ack_waiter (closed e) ch w = (w', s2, ok)"
      "wl' = wl1\<lparr>waiters_map := hm_insert k w' (waiters_map wl1)\<rparr>" "sigs = s1 @ s2"
      "res = (if ok then Inr ch else Inl WaiterLimitReached)"
      "live_at (t_check e) (view (repository wl)) k s" "\<not> acked s"
proof -
  note inv = goodD(1)[OF g]
  consider (err) err where "repo_get ops e (repository wl) k = Inl err" "\<not> reliable e"
    | (none) "repo_get ops e (repository wl) k = Inr None" "view (repository wl) k = None"
    | (some) s where "repo_get ops e (repository wl) k = Inr (Some s)" "view (repository wl) k = Some s"
    using get_sound[OF inv] get_reliable[OF inv] by (metis not_None_eq obj_sumE sum.distinct(1))
  then show thesis
  proof cases
    case err
    with sa missing show thesis by (simp add: subscribe_ack_def)
  next
    case none
    with sa missing show thesis by (simp add: subscribe_ack_def live_at_def)
  next
    case (some s)
    consider "is_expired (t_check e) (expires_at s)" | "\<not> is_expired (t_check e) (expires_at s)" "acked s"
      | "\<not> is_expired (t_check e) (expires_at s)" "\<not> acked s" by blast
    then show thesis
    proof cases
      case 1
      with some sa missing show thesis by (simp add: subscribe_ack_def live_at_def)
    next
      case 2
      with some sa done_already[of s] show thesis by (simp add: subscribe_ack_def live_at_def)
    next
      case 3
      obtain wl1 s1 wres where wf: "waiters_for e k wl = (wl1, s1, wres)" by (metis prod_cases3)
      show thesis
      proof (cases wres)
        case (Inl err)
        have en: "ensure_waiter_capacity e k wl = (wl1, s1, Inl err)"
          using wf unfolding Inl by (cases rule: waiters_for_cases) auto
        have "err = WaiterLimitReached"
          using ensure_step(8)[OF en goodD(3)[OF g] refl] by (cases err) auto
        with 3 some sa wf Inl en no_room[of s1 s] show thesis
          by (simp add: subscribe_ack_def live_at_def)
      next
        case (Inr w)
        obtain w' s2 ok where ad: "add_ack_waiter (closed e) ch w = (w', s2, ok)" by (metis prod_cases3)
        from 3 some sa wf Inr ad added[of wl1 s1 w w' s2 ok s] show thesis
          by (simp add: subscribe_ack_def live_at_def)
      qed
    qed
  qed
qed

lemma subscribe_ack_step:
  assumes g: "good wl" and sa: "subscribe_ack ops e ch k wl = (wl', sigs, res)"
  shows "good wl' \<and>
    balanced (waiters_map wl) (if res = Inl NotFound then {#} else {#ch#}) (waiters_map wl') sigs \<and>
    repository wl' = repository wl \<and> max_waiting_ids wl' = max_waiting_ids wl \<and>
    (served now (view (repository wl)) (waiters_map wl) \<longrightarrow>
     served now (view (repository wl')) (waiters_map wl'))"
  using g sa
proof (cases rule: subscribe_ack_cases)
  case (no_room s s1)
  note en = ensure_step[OF no_room(3) goodD(3)[OF g] refl]
  have "good wl'"
    by (rule fewer_waiters_good[OF g en(4,5,1)]) (use open_or_same(1)[OF en(3)] in blast)
  moreover have "served now (view (repository wl)) (waiters_map wl')"
    if "served now (view (repository wl)) (waiters_map wl)"
    by (rule fewer_waiters_served[OF that]) (rule open_or_same(2)[OF en(3)])
  ultimately show ?thesis using balanced_reject[OF en(2)] no_room(1,2) en(4,5) by simp
next
  case (added s wl1 s1 s2 w w' ok)
  note st = acks.subscribe_step[OF added(1-3) goodD(3)[OF g] refl]
  have "good wl'"
  proof (rule fewer_waiters_good[OF g st(3,4,1)])
    fix j show "set (acks_at (waiters_map wl') j) \<subseteq> set (acks_at (waiters_map wl) j) \<or>
        (\<exists>s. view (repository wl) j = Some s \<and> \<not> acked s)"
      using open_or_same(1)[OF st(5)[of j]] added(6,7) by (cases "j = k") (auto simp: live_at_def)
  qed
  moreover have "served now (view (repository wl)) (waiters_map wl')"
    if "served now (view (repository wl)) (waiters_map wl)"
  proof (rule fewer_waiters_served[OF that])
    fix j show "set (msgs_at (waiters_map wl') j) \<subseteq> set (msgs_at (waiters_map wl) j)"
      using open_or_same(2)[OF st(5)[of j]] st(6) by (cases "j = k") auto
  qed
  ultimately show ?thesis using st(2,3,4) added(4,5) by simp
qed (use g in \<open>simp_all add: balanced_refl balanced_def\<close>)

section \<open>\<open>get_or_subscribe\<close>\<close>

lemma get_or_subscribe_cases:
  assumes g: "good wl" and gs: "get_or_subscribe ops e ch k wl = (wl', sigs, res)"
  obtains (available) s b where "res = Inr (GotMessage \<lparr>body = b, msg_content_type = content_type s\<rparr>)"
      "wl' = wl" "sigs = []" "live_at (t_check e) (view (repository wl)) k s"
      "\<not> acked s" "message_body s = Some b"
  | (no_room) s1 where "res = Inl WaiterLimitReached" "sigs = s1 @ [Dropped ch]"
      "ensure_waiter_capacity e k wl = (wl', s1, Inl WaiterLimitReached)"
      "\<And>s. reliable e \<Longrightarrow> live_at (t_check e) (view (repository wl)) k s \<Longrightarrow> acked s"
  | (added) wl1 s1 s2 w w' ok where "waiters_for e k wl = (wl1, s1, Inr w)"
      "add_message_waiter (closed e) ch w = (w', s2, ok)"
      "wl' = wl1\<lparr>waiters_map := hm_insert k w' (waiters_map wl1)\<rparr>" "sigs = s1 @ s2"
      "res = (if ok then Inr (Waiting ch) else Inl WaiterLimitReached)"
      "\<And>s. reliable e \<Longrightarrow> live_at (t_check e) (view (repository wl)) k s \<Longrightarrow> acked s"
proof -
  note inv = goodD(1)[OF g]
  define avail where "avail = (case repo_get ops e (repository wl) k of
            Inr (Some s) \<Rightarrow>
              if is_expired (t_check e) (expires_at s) then None
              else (case message_body s of None \<Rightarrow> None
                    | Some b \<Rightarrow> Some \<lparr>body = b, msg_content_type = content_type s\<rparr>)
          | _ \<Rightarrow> None)"
  note bu = body_iff_unacked[OF inv]
  have none: "acked s" if "avail = None" "reliable e" "live_at (t_check e) (view (repository wl)) k s" for s
    using that get_calm[OF inv that(2), of k] bu[of k s]
    by (auto simp: avail_def live_at_def split: option.splits)
  show thesis
  proof (cases avail)
    case (Some m)
    then obtain s b where s: "repo_get ops e (repository wl) k = Inr (Some s)"
        "\<not> is_expired (t_check e) (expires_at s)" "message_body s = Some b"
        "m = \<lparr>body = b, msg_content_type = content_type s\<rparr>"
      by (auto simp: avail_def split: sum.splits option.splits if_splits)
    have v: "view (repository wl) k = Some s" using get_sound[OF inv s(1)] by simp
    moreover have "(wl', sigs, res) = (wl, [], Inr (GotMessage m))"
      using gs Some by (simp add: get_or_subscribe_def flip: avail_def)
    ultimately show thesis
      using s bu[OF v] by (intro available[of b s]) (auto simp: live_at_def)
  next
    case None
    obtain wl1 s1 wres where wf: "waiters_for e k wl = (wl1, s1, wres)" by (metis prod_cases3)
    show thesis
    proof (cases wres)
      case (Inl err)
      have en: "ensure_waiter_capacity e k wl = (wl1, s1, Inl err)"
        using wf unfolding Inl by (cases rule: waiters_for_cases) auto
      have "err = WaiterLimitReached"
        using ensure_step(8)[OF en goodD(3)[OF g] refl] by (cases err) auto
      moreover have "(wl', sigs, res) = (wl1, s1 @ [Dropped ch], Inl err)"
        using gs None wf Inl by (simp add: get_or_subscribe_def flip: avail_def)
      ultimately show thesis using en none[OF None] by (intro no_room[of s1]) auto
    next
      case (Inr w)
      obtain w' s2 ok where ad: "add_message_waiter (closed e) ch w = (w', s2, ok)" by (metis prod_cases3)
      have "(wl', sigs, res) = (wl1\<lparr>waiters_map := hm_insert k w' (waiters_map wl1)\<rparr>, s1 @ s2,
          if ok then Inr (Waiting ch) else Inl WaiterLimitReached)"
        using gs None wf Inr ad by (simp add: get_or_subscribe_def flip: avail_def)
      then show thesis using wf ad Inr none[OF None] by (intro added[of wl1 s1 w w' s2 ok]) auto
    qed
  qed
qed

lemma get_or_subscribe_step:
  assumes g: "good wl" and gs: "get_or_subscribe ops e ch k wl = (wl', sigs, res)"
  shows "good wl' \<and>
    balanced (waiters_map wl) (case res of Inr (GotMessage _) \<Rightarrow> {#} | _ \<Rightarrow> {#ch#}) (waiters_map wl') sigs \<and>
    repository wl' = repository wl \<and> max_waiting_ids wl' = max_waiting_ids wl \<and> res \<noteq> Inl NotFound \<and>
    (reliable e \<longrightarrow> sint (t_check e) \<le> sint now \<longrightarrow> served now (view (repository wl)) (waiters_map wl) \<longrightarrow>
     served now (view (repository wl')) (waiters_map wl'))"
  using g gs
proof (cases rule: get_or_subscribe_cases)
  case (available s b)
  with g show ?thesis by (simp add: balanced_refl)
next
  case (no_room s1)
  note en = ensure_step[OF no_room(3) goodD(3)[OF g] refl]
  have "good wl'"
    by (rule fewer_waiters_good[OF g en(4,5,1)]) (use open_or_same(1)[OF en(3)] in blast)
  moreover have "served now (view (repository wl)) (waiters_map wl')"
    if "served now (view (repository wl)) (waiters_map wl)"
    by (rule fewer_waiters_served[OF that]) (rule open_or_same(2)[OF en(3)])
  ultimately show ?thesis using balanced_reject[OF en(2)] no_room(1,2) en(4,5) by simp
next
  case (added wl1 s1 s2 w w' ok)
  note st = msgs.subscribe_step[OF added(1-3) goodD(3)[OF g] refl]
  have "good wl'"
  proof (rule fewer_waiters_good[OF g st(3,4,1)])
    fix j show "set (acks_at (waiters_map wl') j) \<subseteq> set (acks_at (waiters_map wl) j) \<or>
        (\<exists>s. view (repository wl) j = Some s \<and> \<not> acked s)"
      using open_or_same(1)[OF st(5)[of j]] st(6) by (cases "j = k") auto
  qed
  moreover have "served now (view (repository wl)) (waiters_map wl')"
    if rel: "reliable e" "sint (t_check e) \<le> sint now"
      and srv: "served now (view (repository wl)) (waiters_map wl)"
  proof (rule fewer_waiters_served[OF srv])
    fix j s assume live: "live_at now (view (repository wl)) j s" and unacked: "\<not> acked s"
    have "live_at (t_check e) (view (repository wl)) j s"
      using live is_expired_mono[OF _ rel(2)] by (auto simp: live_at_def)
    then have "j \<noteq> k" using added(6)[OF rel(1)] unacked by blast
    then show "set (msgs_at (waiters_map wl') j) \<subseteq> set (msgs_at (waiters_map wl) j)"
      using open_or_same(2)[OF st(5)[of j]] by simp
  qed
  ultimately show ?thesis using st(2,3,4) added(4,5) by simp
qed

section \<open>\<open>store_and_subscribe_ack\<close>\<close>

lemma subscribe_fresh:
  assumes g: "good wl" and room: "map_of (waiters_map wl) k = None" "length (waiters_map wl) < max_waiting_ids wl"
    and sa: "subscribe_ack ops e ch k wl = (wl', sigs, res)"
  shows "res \<noteq> Inl WaiterLimitReached"
  using g sa
proof (cases rule: subscribe_ack_cases)
  case (no_room s s1)
  then show ?thesis using room by (simp add: ensure_waiter_capacity_def)
next
  case (added s wl1 s1 s2 w w' ok)
  then have "w = waiters_new"
    using room by (simp add: waiters_for_def ensure_waiter_capacity_def)
  then have ok using added(2) acks.add_accepts_iff by (fastforce simp: max_waiters_per_entry_def)
  then show ?thesis using added(5) by simp
qed simp_all

text \<open>
  How it can end.  After \<open>store\<close> succeeds the waiter limits cannot be reached any more, so a
  producer that is told to retry has stored nothing.
\<close>

lemma sas_cases:
  assumes g: "good wl" and fair: "fair_scan e"
    and sas: "store_and_subscribe_ack ops e ch k m ttl wl = (wl', sigs, res)"
  obtains (no_room) "ensure_waiter_capacity e k wl = (wl', sigs, Inl WaiterLimitReached)"
      "res = Inl SasWaiterLimitReached"
  | (stored) wl1 s1 wl2 s2 s3 sres where "ensure_waiter_capacity e k wl = (wl1, s1, Inr ())"
      "store ops e k m ttl wl1 = (wl2, s2, Inr Stored)" "subscribe_ack ops e ch k wl2 = (wl', s3, sres)"
      "sigs = s1 @ s2 @ s3" "good wl1" "good wl2"
      "(sres = Inr ch \<and> res = Inr ch) \<or> (sres = Inl NotFound \<and> res = Inl SasNotFound)"
  | (failed) wl1 s1 s2 sres where "ensure_waiter_capacity e k wl = (wl1, s1, Inr ())"
      "store ops e k m ttl wl1 = (wl', s2, sres)" "sigs = s1 @ s2" "good wl1"
      "(sres = Inr StoreFull \<and> res = Inl SasStoreFull) \<or> (\<exists>err. sres = Inl err \<and> res = Inl (SasStorage err))"
proof -
  obtain wl1 s1 eres where en: "ensure_waiter_capacity e k wl = (wl1, s1, eres)" by (metis prod_cases3)
  note es = ensure_step[OF en goodD(3)[OF g] refl]
  have g1: "good wl1"
    by (rule fewer_waiters_good[OF g es(4,5,1)]) (use open_or_same(1)[OF es(3)] in blast)
  show thesis
  proof (cases eres)
    case (Inl err)
    then have "err = WaiterLimitReached" using es(8) by (cases err) auto
    with sas en Inl no_room show thesis by (simp add: store_and_subscribe_ack_def)
  next
    case Inr: (Inr u)
    obtain wl2 s2 sres where st: "store ops e k m ttl wl1 = (wl2, s2, sres)" by (metis prod_cases3)
    note g2 = store_step[OF g1 fair st]
    show thesis
    proof (cases "sres = Inr Stored")
      case False
      then have "(sres = Inr StoreFull) \<or> (\<exists>err. sres = Inl err)"
        by (metis insert_outcome.exhaust sum.exhaust)
      with sas en Inr st g1 failed[of wl1 s1 s2 sres] show thesis
        by (auto simp: store_and_subscribe_ack_def)
    next
      case True
      obtain wl3 s3 ares where sa: "subscribe_ack ops e ch k wl2 = (wl3, s3, ares)" by (metis prod_cases3)
      note sd = store_stored[OF g1 fair st[unfolded True]]
      have "length (waiters_map wl2) < max_waiting_ids wl2"
        using sd(8,9) es(1,5,7) Inr g2(3) by (fastforce simp: waiters_ok_def)
      then have "ares \<noteq> Inl WaiterLimitReached"
        using subscribe_fresh[OF g2(1) sd(7) _ sa] by blast
      moreover have "ares = Inr ch \<or> (\<exists>err. ares = Inl err)"
        using g2(1) sa by (cases rule: subscribe_ack_cases) auto
      ultimately have "ares = Inr ch \<or> ares = Inl NotFound"
        by (metis subscribe_error.exhaust)
      with sas en Inr st True sa g1 g2(1) stored[of wl1 s1 wl2 s2 s3 ares] show thesis
        by (auto simp: store_and_subscribe_ack_def)
    qed
  qed
qed

lemma ensure_good:
  assumes g: "good wl" and en: "ensure_waiter_capacity e k wl = (wl', sigs, res)"
  shows "good wl' \<and> balanced (waiters_map wl) {#} (waiters_map wl') sigs \<and>
    repository wl' = repository wl \<and> max_waiting_ids wl' = max_waiting_ids wl \<and>
    (served now (view (repository wl)) (waiters_map wl) \<longrightarrow>
     served now (view (repository wl')) (waiters_map wl'))"
proof -
  note es = ensure_step[OF en goodD(3)[OF g] refl]
  have "good wl'"
    by (rule fewer_waiters_good[OF g es(4,5,1)]) (use open_or_same(1)[OF es(3)] in blast)
  moreover have "served now (view (repository wl)) (waiters_map wl')"
    if "served now (view (repository wl)) (waiters_map wl)"
    by (rule fewer_waiters_served[OF that]) (rule open_or_same(2)[OF es(3)])
  ultimately show ?thesis using es(2,4,5) by simp
qed

lemma sas_step:
  assumes g: "good wl" and fair: "fair_scan e"
    and sas: "store_and_subscribe_ack ops e ch k m ttl wl = (wl', sigs, res)"
  shows "good wl' \<and>
    balanced (waiters_map wl) (case res of Inr _ \<Rightarrow> {#ch#} | Inl _ \<Rightarrow> {#}) (waiters_map wl') sigs \<and>
    max_waiting_ids wl' = max_waiting_ids wl \<and>
    (served now (view (repository wl)) (waiters_map wl) \<longrightarrow>
     served now (view (repository wl')) (waiters_map wl'))"
  using g fair sas
proof (cases rule: sas_cases)
  case no_room
  have "res = Inl SasWaiterLimitReached" by (rule no_room(2))
  with ensure_good[OF g no_room(1), of now] show ?thesis by auto
next
  case (stored wl1 s1 wl2 s2 s3 sres)
  note e1 = ensure_good[OF g stored(1), of now] and e2 = store_step[OF stored(5) fair stored(2)]
    and e3 = subscribe_ack_step[OF stored(6,3), of now]
  have "balanced (waiters_map wl1) (if sres = Inl NotFound then {#} else {#ch#}) (waiters_map wl') (s2 @ s3)"
    using balanced_trans[OF e2(2)] e3 by fastforce
  then have "balanced (waiters_map wl) (if sres = Inl NotFound then {#} else {#ch#}) (waiters_map wl') (s1 @ s2 @ s3)"
    using balanced_trans[of _ "{#}" "waiters_map wl1" s1] e1 by fastforce
  with e1 e2(3,4) e3 stored(4,7) show ?thesis by auto
next
  case (failed wl1 s1 s2 sres)
  note e1 = ensure_good[OF g failed(1), of now] and e2 = store_step[OF failed(4) fair failed(2)]
  have "balanced (waiters_map wl) ({#} + {#}) (waiters_map wl') (s1 @ s2)"
    using balanced_trans e1 e2(2) by blast
  with e1 e2(1,3,4) failed(3,5) show ?thesis by auto
qed

section \<open>\<open>cleanup_expired\<close>\<close>

lemma balanced_remove_all:
  "distinct ks \<Longrightarrow> hm_ok m \<Longrightarrow> balanced m {#} (fold hm_remove ks m)
     (concat (map (\<lambda>k. case map_of m k of None \<Rightarrow> [] | Some w \<Rightarrow> drop_waiters w) ks))"
proof (induction ks arbitrary: m)
  case (Cons k ks)
  let ?d = "\<lambda>m k. case map_of m k of None \<Rightarrow> [] | Some w \<Rightarrow> drop_waiters w"
  have "map (?d (hm_remove k m)) ks = map (?d m) ks"
    using Cons.prems(1) by (auto simp: hm_simps)
  then have rest: "balanced (hm_remove k m) {#} (fold hm_remove ks (hm_remove k m)) (concat (map (?d m) ks))"
    using Cons.IH[of "hm_remove k m"] Cons.prems by (simp only: distinct.simps hm_ok_remove simp_thms)
  have "balanced m {#} (hm_remove k m) (?d m k)"
    using chans_remove[OF Cons.prems(2), of k]
    by (auto simp: balanced_def drop_waiters_def waiters_at_def waiters_chans_def hm_remove_id
        image_mset.compositionality comp_def ac_simps split: option.splits)
  from balanced_trans[OF this rest] show ?case by simp
qed (simp add: balanced_refl)

lemma waiters_ok_remove_all: "waiters_ok n m \<Longrightarrow> waiters_ok n (fold hm_remove ks m)"
  by (induction ks arbitrary: m) (auto simp: waiters_ok_remove)

lemma waiters_at_remove_all:
  "waiters_at (fold hm_remove ks m) j = (if j \<in> set ks then waiters_new else waiters_at m j)"
  by (simp add: waiters_at_def hm_get_remove_all)

text \<open>What one clean-up does, in terms of the IDs \<open>X\<close> it deletes.\<close>

lemma cleanup_spec:
  assumes g: "good wl" and fair: "fair_scan e"
    and cl: "cleanup_expired ops e wl = (wl', sigs, n)"
  shows "\<exists>X. (reliable e \<longrightarrow>
        X = {k. \<exists>s. view (repository wl) k = Some s \<and> expired_before (t_purge e) (expires_at s)}) \<and>
      (\<forall>k \<in> X. \<exists>s. view (repository wl) k = Some s \<and> expired_before (t_purge e) (expires_at s)) \<and>
      n = card X \<and> view (repository wl') = view (repository wl) |` (- X) \<and>
      (\<forall>j. waiters_at (waiters_map wl') j =
        (if j \<in> X then waiters_new else open_waiters (closed e) (waiters_at (waiters_map wl) j))) \<and>
      good wl' \<and> balanced (waiters_map wl) {#} (waiters_map wl') sigs \<and>
      max_waiting_ids wl' = max_waiting_ids wl \<and>
      (\<forall>s \<in> set sigs. \<exists>c. s = Dropped c \<and> (closed e c \<or>
        (\<exists>k \<in> X. c \<in> set (waiters_chans (waiters_at (waiters_map wl) k))))) \<and>
      (\<forall>k \<in> X. \<forall>c \<in> set (waiters_chans (waiters_at (waiters_map wl) k)). Dropped c \<in> set sigs)"
proof -
  obtain r cres where rc: "repo_cleanup ops e (repository wl) = (r, cres)" by fastforce
  note keep = cleanup_keeps[OF goodD(1)[OF g] fair rc]
  define ids where "ids = (case cres of Inr ids \<Rightarrow> ids | Inl _ \<Rightarrow> [])"
  define drops where "drops = concat (map (\<lambda>k. case map_of (waiters_map wl) k of None \<Rightarrow> []
      | Some w \<Rightarrow> drop_waiters w) ids)"
  define wl1 where "wl1 = wl\<lparr>repository := r, waiters_map := fold hm_remove ids (waiters_map wl)\<rparr>"
  obtain wl2 ps where rm: "remove_closed_waiters (closed e) wl1 = (wl2, ps)" by fastforce
  have out: "wl' = wl2" "sigs = drops @ ps" "n = length ids"
    using cl rc rm by (simp_all add: cleanup_expired_def Let_def ids_def drops_def wl1_def
        split: prod.splits)
  have v: "view r = view (repository wl) |` (- set ids)" and d: "distinct ids"
    and X: "\<forall>k \<in> set ids. \<exists>s. view (repository wl) k = Some s \<and> expired_before (t_purge e) (expires_at s)"
    using keep by (auto simp: ids_def split: sum.splits)
  have rel: "set ids = {k. \<exists>s. view (repository wl) k = Some s \<and> expired_before (t_purge e) (expires_at s)}"
    if "reliable e"
    using keep cleanup_reliable[OF goodD(1)[OF g] that] rc by (auto simp: ids_def split: sum.splits)
  have ok1: "waiters_ok (max_waiting_ids wl) (waiters_map wl1)"
    using goodD(3)[OF g] by (simp add: wl1_def waiters_ok_remove_all)
  note rs = remove_closed_step[OF rm ok1]
  have same: "repository wl' = r" "max_waiting_ids wl' = max_waiting_ids wl"
    using rm out(1) by (auto simp: remove_closed_waiters_def wl1_def)
  have at: "waiters_at (waiters_map wl') j =
      (if j \<in> set ids then waiters_new else open_waiters (closed e) (waiters_at (waiters_map wl) j))" for j
    using rs(3)[of j] out(1) by (simp add: wl1_def waiters_at_remove_all)
  have bal: "balanced (waiters_map wl) {#} (waiters_map wl') sigs"
    using balanced_trans[OF balanced_remove_all[OF d goodD(4)[OF g]], of "{#}"] rs(2) out
    by (simp add: drops_def wl1_def)
  have good: "good wl'"
  proof (rule goodI)
    fix j s assume "view (repository wl') j = Some s" "acked s"
    then show "acks_at (waiters_map wl') j = []"
      using goodD(5)[OF g, of j s] at[of j] v same by (auto simp: restrict_map_def split: if_splits)
  qed (use keep same rs(1) out(1) goodD(2)[OF g] in auto)
  have dr: "\<exists>c. s = Dropped c \<and> (\<exists>k \<in> set ids. c \<in> set (waiters_chans (waiters_at (waiters_map wl) k)))"
    if sd: "s \<in> set drops" for s
  proof -
    obtain k where k: "k \<in> set ids"
      and s: "s \<in> set (case map_of (waiters_map wl) k of None \<Rightarrow> [] | Some w \<Rightarrow> drop_waiters w)"
      using sd unfolding drops_def set_concat set_map image_image UN_iff by blast
    then have "s \<in> set (drop_waiters (waiters_at (waiters_map wl) k))"
      by (cases "map_of (waiters_map wl) k") (simp_all add: waiters_at_def)
    then obtain c where "s = Dropped c" "c \<in> set (waiters_chans (waiters_at (waiters_map wl) k))"
      by (auto simp: drop_waiters_def waiters_chans_def)
    with k show ?thesis by blast
  qed
  have sig: "\<exists>c. s = Dropped c \<and> (closed e c \<or>
      (\<exists>k \<in> set ids. c \<in> set (waiters_chans (waiters_at (waiters_map wl) k))))" if "s \<in> set sigs" for s
    using that rs(5) out(2) dr[of s] by auto
  have told: "Dropped c \<in> set sigs"
    if k: "k \<in> set ids" and c: "c \<in> set (waiters_chans (waiters_at (waiters_map wl) k))" for k c
  proof -
    have "Dropped c \<in> set (case map_of (waiters_map wl) k of None \<Rightarrow> [] | Some w \<Rightarrow> drop_waiters w)"
      using c by (cases "map_of (waiters_map wl) k")
        (auto simp: waiters_at_def waiters_chans_def drop_waiters_def waiters_new_def)
    with k have "Dropped c \<in> set drops" unfolding drops_def set_concat set_map image_image by blast
    then show ?thesis by (simp add: out(2))
  qed
  have n: "n = card (set ids)" using d out(3) by (simp add: distinct_card)
  have v': "view (repository wl') = view (repository wl) |` (- set ids)" using v same(1) by simp
  show ?thesis
    by (intro exI[of _ "set ids"] conjI impI allI ballI)
      (rule rel X[rule_format] n v' at good bal same(2) sig told; assumption)+
qed

lemma cleanup_served:
  assumes g: "good wl" and fair: "fair_scan e"
    and cl: "cleanup_expired ops e wl = (wl', sigs, n)"
    and srv: "served now (view (repository wl)) (waiters_map wl)"
  shows "served now (view (repository wl')) (waiters_map wl')"
proof -
  obtain X where v: "view (repository wl') = view (repository wl) |` (- X)"
    and at: "\<forall>j. waiters_at (waiters_map wl') j =
        (if j \<in> X then waiters_new else open_waiters (closed e) (waiters_at (waiters_map wl) j))"
    using cleanup_spec[OF g fair cl] by blast
  show ?thesis
    using srv v at by (auto simp: served_def restrict_map_def split: if_splits)
qed

end

end
