(* ===== verification/Inbox_Handler.thy ===== *)
theory Inbox_Handler
  imports Http_Response Server_Config Waiting_List_Correct
begin

text \<open>
  \<open>inbox_handler.rs\<close>.  Each handler is a function on the waiting list for the section in which it
  holds the lock, and one on the result of its wait where it has one.  The order of checks is the
  code's: an ID that is too long is refused before the lock is taken.
\<close>

definition inbox_post ::
    "http_lib \<Rightarrow> ('r, 'x) repo_ops \<Rightarrow> 'net config \<Rightarrow> 'x env \<Rightarrow> string \<Rightarrow> header_map \<Rightarrow> bytes \<Rightarrow>
     'r waiting_list \<Rightarrow> 'r waiting_list \<times> signal list \<times> response" where
  "inbox_post lib ops cfg e k headers b wl =
     (case validate_id_length k ''Inbox ID'' of
        Inl (st, text) \<Rightarrow> (wl, [], into_response lib st text)
      | Inr _ \<Rightarrow>
          let m = \<lparr>body = b, msg_content_type = request_content_type lib headers\<rparr>;
              (wl', sigs, store_result) = store ops e k m (inbox_cache_ttl cfg) wl
          in (wl', sigs,
              case store_result of
                Inr Stored \<Rightarrow> into_response lib STATUS_OK []
              | Inr StoreFull \<Rightarrow>
                  into_response lib SERVICE_UNAVAILABLE (text_bytes ''Server at capacity'')
              | Inl err \<Rightarrow>
                  into_response lib INTERNAL_SERVER_ERROR (text_bytes ''Failed to store message'')))"

definition inbox_get ::
    "http_lib \<Rightarrow> ('r, 'x) repo_ops \<Rightarrow> 'x env \<Rightarrow> chan \<Rightarrow> string \<Rightarrow>
     'r waiting_list \<Rightarrow> 'r waiting_list \<times> signal list \<times> outcome" where
  "inbox_get lib ops e ch k wl =
     (case validate_id_length k ''Inbox ID'' of
        Inl (st, text) \<Rightarrow> (wl, [], Responded (into_response lib st text))
      | Inr _ \<Rightarrow>
          (case get_or_subscribe ops e ch k wl of
             (wl', sigs, Inr (GotMessage m)) \<Rightarrow> (wl', sigs, Responded (message_response lib m))
           | (wl', sigs, Inr (Waiting receiver)) \<Rightarrow> (wl', sigs, Waits receiver)
           | (wl', sigs, Inl WaiterLimitReached) \<Rightarrow>
               (wl', sigs, Responded (into_response lib SERVICE_UNAVAILABLE
                  (text_bytes ''Too many concurrent requests'')))
           | (wl', sigs, Inl NotFound) \<Rightarrow> (wl', sigs, Panicked)))"

definition inbox_get_resume :: "http_lib \<Rightarrow> message received \<Rightarrow> response" where
  "inbox_get_resume lib rec =
     (case rec of
        Received m \<Rightarrow> message_response lib m
      | SenderDropped \<Rightarrow> into_response lib NOT_FOUND (text_bytes ''Entry expired'')
      | Elapsed \<Rightarrow> into_response lib REQUEST_TIMEOUT (text_bytes ''Request timed out''))"

definition inbox_delete ::
    "http_lib \<Rightarrow> ('r, 'x) repo_ops \<Rightarrow> 'x env \<Rightarrow> string \<Rightarrow>
     'r waiting_list \<Rightarrow> 'r waiting_list \<times> signal list \<times> response" where
  "inbox_delete lib ops e k wl =
     (case validate_id_length k ''Inbox ID'' of
        Inl (st, text) \<Rightarrow> (wl, [], into_response lib st text)
      | Inr _ \<Rightarrow>
          let (wl', sigs, ok) = ack ops e k wl
          in (wl', sigs, if ok then into_response lib STATUS_OK []
                         else into_response lib NOT_FOUND (text_bytes ''Not found'')))"

definition inbox_ack :: "http_lib \<Rightarrow> ('r, 'x) repo_ops \<Rightarrow> 'x env \<Rightarrow> string \<Rightarrow> 'r waiting_list \<Rightarrow> response" where
  "inbox_ack lib ops e k wl =
     (case validate_id_length k ''Inbox ID'' of
        Inl (st, text) \<Rightarrow> into_response lib st text
      | Inr _ \<Rightarrow>
          (case is_acked ops e k wl of
             Some True \<Rightarrow> into_response lib STATUS_OK (text_bytes ''true'')
           | Some False \<Rightarrow> into_response lib STATUS_OK (text_bytes ''false'')
           | None \<Rightarrow> into_response lib NOT_FOUND (text_bytes ''Not found'')))"

text \<open>
  \<open>await_handler\<close> looks at the entry twice under one lock, in \<open>is_acked\<close> and in
  \<open>subscribe_ack\<close>; the first look has its own environment.
\<close>

definition inbox_await ::
    "http_lib \<Rightarrow> ('r, 'x) repo_ops \<Rightarrow> 'x env \<Rightarrow> 'x env \<Rightarrow> chan \<Rightarrow> string \<Rightarrow>
     'r waiting_list \<Rightarrow> 'r waiting_list \<times> signal list \<times> outcome" where
  "inbox_await lib ops e0 e ch k wl =
     (case validate_id_length k ''Inbox ID'' of
        Inl (st, text) \<Rightarrow> (wl, [], Responded (into_response lib st text))
      | Inr _ \<Rightarrow>
          if is_acked ops e0 k wl = Some True then (wl, [], Responded (into_response lib STATUS_OK []))
          else (case subscribe_ack ops e ch k wl of
             (wl', sigs, Inr rx) \<Rightarrow> (wl', sigs, Waits rx)
           | (wl', sigs, Inl NotFound) \<Rightarrow>
               (wl', sigs, Responded (into_response lib NOT_FOUND (text_bytes ''Not found'')))
           | (wl', sigs, Inl WaiterLimitReached) \<Rightarrow>
               (wl', sigs, Responded (into_response lib SERVICE_UNAVAILABLE
                  (text_bytes ''Too many concurrent requests'')))))"

definition inbox_await_resume :: "http_lib \<Rightarrow> unit received \<Rightarrow> response" where
  "inbox_await_resume lib rec =
     (case rec of
        Received _ \<Rightarrow> into_response lib STATUS_OK []
      | SenderDropped \<Rightarrow> into_response lib NOT_FOUND (text_bytes ''Not found'')
      | Elapsed \<Rightarrow> into_response lib REQUEST_TIMEOUT (text_bytes ''Request timed out''))"

text \<open>How long the two waiting handlers wait at most.\<close>

definition inbox_get_wait :: "'net config \<Rightarrow> duration" where
  "inbox_get_wait cfg = inbox_timeout cfg"

definition inbox_await_wait :: "'net config \<Rightarrow> duration" where
  "inbox_await_wait cfg = inbox_timeout cfg"

lemmas inbox_defs [relay_defs] =
  inbox_post_def inbox_get_def inbox_get_resume_def inbox_delete_def inbox_ack_def inbox_await_def
  inbox_await_resume_def inbox_get_wait_def inbox_await_wait_def

section \<open>What the handlers answer\<close>

context entry_store
begin

text \<open>A POST that is answered 200 has stored its message.\<close>

lemma inbox_post_ok:
  assumes "good wl" and "fair_scan e" and "length k \<le> max_id_length"
    and "inbox_post lib ops cfg e k headers b wl = (wl', sigs, resp)"
  shows "\<exists>res. store ops e k \<lparr>body = b, msg_content_type = request_content_type lib headers\<rparr>
       (inbox_cache_ttl cfg) wl = (wl', sigs, res) \<and>
     (case res of Inr Stored \<Rightarrow> status resp = STATUS_OK | Inr StoreFull \<Rightarrow> status resp = SERVICE_UNAVAILABLE
      | Inl _ \<Rightarrow> status resp = INTERNAL_SERVER_ERROR)"
  using assms(3,4)
  by (auto simp: inbox_post_def validate_id_length_def split: prod.splits sum.splits insert_outcome.splits)

lemma inbox_get_cases:
  assumes g: "good wl" and len: "length k \<le> max_id_length"
    and ig: "inbox_get lib ops e ch k wl = (wl', sigs, out)"
  obtains (found) s b where "out = Responded (message_response lib \<lparr>body = b, msg_content_type = content_type s\<rparr>)"
      "wl' = wl" "sigs = []" "live_at (t_check e) (view (repository wl)) k s" "message_body s = Some b"
  | (waits) "out = Waits ch" "get_or_subscribe ops e ch k wl = (wl', sigs, Inr (Waiting ch))"
  | (limit) "out = Responded (into_response lib SERVICE_UNAVAILABLE (text_bytes ''Too many concurrent requests''))"
      "get_or_subscribe ops e ch k wl = (wl', sigs, Inl WaiterLimitReached)"
proof -
  obtain wl1 s1 res where gs: "get_or_subscribe ops e ch k wl = (wl1, s1, res)" by (metis prod_cases3)
  have out: "wl1 = wl'" "s1 = sigs"
    using ig len gs by (auto simp: inbox_get_def validate_id_length_def
        split: sum.splits get_or_subscribe_result.splits subscribe_error.splits)
  show thesis
    using g gs
  proof (cases rule: get_or_subscribe_cases)
    case (available s b)
    with ig len gs found show thesis
      by (auto simp: inbox_get_def validate_id_length_def)
  next
    case no_room
    with ig len gs limit out show thesis
      by (auto simp: inbox_get_def validate_id_length_def)
  next
    case (added wl1 s1 s2 w w' ok)
    with ig len gs limit waits out show thesis
      by (cases ok) (auto simp: inbox_get_def validate_id_length_def)
  qed
qed

end

end
