(* ===== verification/Link_Handler.thy ===== *)
theory Link_Handler
  imports Inbox_Handler
begin

text \<open>
  \<open>link_handler.rs\<close>, the deprecated synchronous handoff.  A GET takes the lock twice: first for
  the message, later for the automatic ACK, so other requests can run in between.
\<close>

text \<open>What the first section of a GET ends with: the message may be there already.\<close>

datatype link_outcome = LinkResponded response | LinkWaits chan | LinkGot message | LinkPanicked

definition link_get ::
    "http_lib \<Rightarrow> ('r, 'x) repo_ops \<Rightarrow> 'x env \<Rightarrow> chan \<Rightarrow> string \<Rightarrow>
     'r waiting_list \<Rightarrow> 'r waiting_list \<times> signal list \<times> link_outcome" where
  "link_get lib ops e ch k wl =
     (case validate_id_length k ''Channel ID'' of
        Inl (st, text) \<Rightarrow> (wl, [], LinkResponded (into_response lib st text))
      | Inr _ \<Rightarrow>
          (case get_or_subscribe ops e ch k wl of
             (wl', sigs, Inr (GotMessage m)) \<Rightarrow> (wl', sigs, LinkGot m)
           | (wl', sigs, Inr (Waiting receiver)) \<Rightarrow> (wl', sigs, LinkWaits receiver)
           | (wl', sigs, Inl WaiterLimitReached) \<Rightarrow>
               (wl', sigs, LinkResponded (into_response lib SERVICE_UNAVAILABLE
                  (text_bytes ''Too many concurrent requests'')))
           | (wl', sigs, Inl NotFound) \<Rightarrow> (wl', sigs, LinkPanicked)))"

definition link_get_resume :: "http_lib \<Rightarrow> message received \<Rightarrow> link_outcome" where
  "link_get_resume lib rec =
     (case rec of
        Received m \<Rightarrow> LinkGot m
      | SenderDropped \<Rightarrow> LinkResponded (into_response lib NOT_FOUND (text_bytes ''Entry expired''))
      | Elapsed \<Rightarrow> LinkResponded (into_response lib REQUEST_TIMEOUT (text_bytes ''Request timed out'')))"

text \<open>The last section of a GET that has its message: the ACK, then the response.\<close>

definition link_get_ack ::
    "http_lib \<Rightarrow> ('r, 'x) repo_ops \<Rightarrow> 'x env \<Rightarrow> string \<Rightarrow> message \<Rightarrow>
     'r waiting_list \<Rightarrow> 'r waiting_list \<times> signal list \<times> response" where
  "link_get_ack lib ops e k m wl =
     (let (wl', sigs, _) = ack ops e k wl
      in (wl', sigs, deprecated (message_response lib m)))"

definition link_post ::
    "http_lib \<Rightarrow> ('r, 'x) repo_ops \<Rightarrow> 'net config \<Rightarrow> 'x env \<Rightarrow> chan \<Rightarrow> string \<Rightarrow> header_map \<Rightarrow> bytes \<Rightarrow>
     'r waiting_list \<Rightarrow> 'r waiting_list \<times> signal list \<times> outcome" where
  "link_post lib ops cfg e ch k headers b wl =
     (case validate_id_length k ''Channel ID'' of
        Inl (st, text) \<Rightarrow> (wl, [], Responded (into_response lib st text))
      | Inr _ \<Rightarrow>
          let m = \<lparr>body = b, msg_content_type = request_content_type lib headers\<rparr>;
              (wl', sigs, stored) = store_and_subscribe_ack ops e ch k m (link_timeout cfg) wl
          in (wl', sigs,
              case stored of
                Inr rx \<Rightarrow> Waits rx
              | Inl SasWaiterLimitReached \<Rightarrow>
                  Responded (into_response lib SERVICE_UNAVAILABLE (text_bytes ''Too many concurrent requests''))
              | Inl SasStoreFull \<Rightarrow>
                  Responded (into_response lib SERVICE_UNAVAILABLE (text_bytes ''Server at capacity''))
              | Inl SasNotFound \<Rightarrow> Responded (into_response lib NOT_FOUND (text_bytes ''Entry expired''))
              | Inl (SasStorage err) \<Rightarrow>
                  Responded (into_response lib INTERNAL_SERVER_ERROR (text_bytes ''Failed to store message''))))"

definition link_post_resume :: "http_lib \<Rightarrow> unit received \<Rightarrow> response" where
  "link_post_resume lib rec =
     deprecated (case rec of
        Received _ \<Rightarrow> into_response lib STATUS_OK []
      | SenderDropped \<Rightarrow> into_response lib NOT_FOUND (text_bytes ''Entry expired'')
      | Elapsed \<Rightarrow> into_response lib REQUEST_TIMEOUT (text_bytes ''Request timed out''))"

definition link_get_wait :: "'net config \<Rightarrow> duration" where
  "link_get_wait cfg = link_timeout cfg"

definition link_post_wait :: "'net config \<Rightarrow> duration" where
  "link_post_wait cfg = link_timeout cfg"

lemmas link_defs [relay_defs] =
  link_get_def link_get_resume_def link_get_ack_def link_post_def link_post_resume_def link_get_wait_def
  link_post_wait_def

context entry_store
begin

text \<open>The first section of a GET is that of the inbox handler but for the response.\<close>

lemma link_get_cases:
  assumes g: "good wl" and len: "length k \<le> max_id_length"
    and lg: "link_get lib ops e ch k wl = (wl', sigs, out)"
  obtains (found) s b where "out = LinkGot \<lparr>body = b, msg_content_type = content_type s\<rparr>"
      "wl' = wl" "sigs = []" "live_at (t_check e) (view (repository wl)) k s" "message_body s = Some b"
  | (waits) "out = LinkWaits ch" "get_or_subscribe ops e ch k wl = (wl', sigs, Inr (Waiting ch))"
  | (limit) "out = LinkResponded (into_response lib SERVICE_UNAVAILABLE (text_bytes ''Too many concurrent requests''))"
      "get_or_subscribe ops e ch k wl = (wl', sigs, Inl WaiterLimitReached)"
proof -
  obtain wl1 s1 res where gs: "get_or_subscribe ops e ch k wl = (wl1, s1, res)" by (metis prod_cases3)
  have out: "wl1 = wl'" "s1 = sigs"
    using lg len gs by (auto simp: link_get_def validate_id_length_def
        split: sum.splits get_or_subscribe_result.splits subscribe_error.splits)
  show thesis
    using g gs
  proof (cases rule: get_or_subscribe_cases)
    case (available s b)
    with lg len gs found show thesis
      by (auto simp: link_get_def validate_id_length_def)
  next
    case no_room
    with lg len gs limit out show thesis
      by (auto simp: link_get_def validate_id_length_def)
  next
    case (added wl1 s1 s2 w w' ok)
    with lg len gs limit waits out show thesis
      by (cases ok) (auto simp: link_get_def validate_id_length_def)
  qed
qed

end

end
