(* ===== verification/Waiting_List_Signals.thy ===== *)
theory Waiting_List_Signals
  imports Waiting_List_Correct
begin

text \<open>
  What happens to a request that waits while the waiting list changes under it.  \<open>carried\<close> says
  that every waiter whose receiver is still there either keeps its place or is given a signal,
  and which signals: \<open>M k\<close> those for a message waiter of \<open>k\<close>, \<open>A k\<close> those for an ACK waiter.
\<close>

definition carried ::
    "(chan \<Rightarrow> bool) \<Rightarrow> (string \<Rightarrow> signal \<Rightarrow> bool) \<Rightarrow> (string \<Rightarrow> signal \<Rightarrow> bool) \<Rightarrow>
     (string, waiters) hash_map \<Rightarrow> (string, waiters) hash_map \<Rightarrow> signal list \<Rightarrow> bool" where
  "carried cl M A m m' sigs \<longleftrightarrow>
     (\<forall>k c. \<not> cl c \<longrightarrow>
        (c \<in> set (msgs_at m k) \<longrightarrow> c \<in> set (msgs_at m' k) \<or> (\<exists>s \<in> set sigs. signal_chan s = c \<and> M k s)) \<and>
        (c \<in> set (acks_at m k) \<longrightarrow> c \<in> set (acks_at m' k) \<or> (\<exists>s \<in> set sigs. signal_chan s = c \<and> A k s)))"

lemma carried_refl [simp]: "carried cl M A m m sigs"
  by (simp add: carried_def)

lemma carried_trans:
  "carried cl M A m m1 s1 \<Longrightarrow> carried cl M A m1 m2 s2 \<Longrightarrow> carried cl M A m m2 (s1 @ s2)"
  unfolding carried_def set_append bex_Un by blast

lemma carried_mono:
  "carried cl M A m m' sigs \<Longrightarrow> (\<And>k s. M k s \<Longrightarrow> M' k s) \<Longrightarrow> (\<And>k s. A k s \<Longrightarrow> A' k s) \<Longrightarrow>
   carried cl M' A' m m' sigs"
  unfolding carried_def by blast

lemma carried_more: "carried cl M A m m' sigs \<Longrightarrow> carried cl M A m m' (sigs @ extra)"
  unfolding carried_def set_append bex_Un by blast

lemma open_kept:
  assumes "w' = w \<or> w' = open_waiters cl w" and "\<not> cl c"
  shows "c \<in> set (message_waiters w) \<Longrightarrow> c \<in> set (message_waiters w')"
    and "c \<in> set (ack_waiters w) \<Longrightarrow> c \<in> set (ack_waiters w')"
  using assms by auto

lemma carried_open:
  assumes "\<And>j. waiters_at m' j = waiters_at m j \<or> waiters_at m' j = open_waiters cl (waiters_at m j)"
  shows "carried cl M A m m' sigs"
  unfolding carried_def using open_kept[OF assms] by blast

definition told_message :: "string \<Rightarrow> message \<Rightarrow> string \<Rightarrow> signal \<Rightarrow> bool" where
  "told_message k m j s \<longleftrightarrow> j = k \<and> (\<exists>c. s = SentMessage c m)"

definition told_ack :: "string \<Rightarrow> string \<Rightarrow> signal \<Rightarrow> bool" where
  "told_ack k j s \<longleftrightarrow> j = k \<and> (\<exists>c. s = SentAck c)"

definition told_drop :: "string set \<Rightarrow> string \<Rightarrow> signal \<Rightarrow> bool" where
  "told_drop X j s \<longleftrightarrow> j \<in> X \<and> (\<exists>c. s = Dropped c)"

lemma ensure_carried:
  assumes "ensure_waiter_capacity e k wl = (wl', sigs, res)" and "waiters_ok (max_waiting_ids wl) (waiters_map wl)"
  shows "carried (closed e) M A (waiters_map wl) (waiters_map wl') extra"
  using ensure_step(3)[OF assms refl] by (rule carried_open)

context entry_store
begin

lemma store_carried:
  assumes st: "store ops e k m ttl wl = (wl', sigs, res)"
  shows "carried cl (told_message k m) (told_drop {k}) (waiters_map wl) (waiters_map wl') sigs"
proof (cases "res = Inr StoreFull")
  case True
  with st have "waiters_map wl' = waiters_map wl"
    by (auto simp: store_eq split: prod.splits if_splits)
  then show ?thesis by simp
next
  case False
  with st have m': "waiters_map wl' = hm_remove k (waiters_map wl)"
    and sigs: "sigs = map Dropped (acks_at (waiters_map wl) k) @ map (\<lambda>c. SentMessage c m) (msgs_at (waiters_map wl) k)"
    by (auto simp: store_eq split: prod.splits if_splits)
  show ?thesis
    unfolding carried_def
  proof (intro allI impI conjI)
    fix j c
    show "c \<in> set (msgs_at (waiters_map wl') j) \<or> (\<exists>s\<in>set sigs. signal_chan s = c \<and> told_message k m j s)"
      if "c \<in> set (msgs_at (waiters_map wl) j)"
      using that by (cases "j = k") (auto simp: m' sigs told_message_def intro!: bexI[of _ "SentMessage c m"])
    show "c \<in> set (acks_at (waiters_map wl') j) \<or> (\<exists>s\<in>set sigs. signal_chan s = c \<and> told_drop {k} j s)"
      if "c \<in> set (acks_at (waiters_map wl) j)"
      using that by (cases "j = k") (auto simp: m' sigs told_drop_def intro!: bexI[of _ "Dropped c"])
  qed
qed

lemma ack_carried:
  assumes g: "good wl" and ak: "ack ops e k wl = (wl', sigs, ok)"
  shows "carried cl M (told_ack k) (waiters_map wl) (waiters_map wl') sigs"
  using g ak
proof (cases rule: ack_cases)
  case (acked s r)
  note n = notify_ack_step[OF acked(4), of "max_waiting_ids wl"]
  have at: "waiters_at (waiters_map wl') j =
      (if j = k then (waiters_at (waiters_map wl) k)\<lparr>ack_waiters := []\<rparr> else waiters_at (waiters_map wl) j)" for j
    using n(3)[of j] goodD(3)[OF g] by simp
  have sigs: "sigs = map SentAck (acks_at (waiters_map wl) k)"
    using n(5) goodD(3)[OF g] by simp
  show ?thesis
    unfolding carried_def
  proof (intro allI impI conjI)
    fix j c
    show "c \<in> set (msgs_at (waiters_map wl') j) \<or> (\<exists>s\<in>set sigs. signal_chan s = c \<and> M j s)"
      if "c \<in> set (msgs_at (waiters_map wl) j)"
      using that at[of j] by (cases "j = k") auto
    show "c \<in> set (acks_at (waiters_map wl') j) \<or> (\<exists>s\<in>set sigs. signal_chan s = c \<and> told_ack k j s)"
      if "c \<in> set (acks_at (waiters_map wl) j)"
      using that at[of j] by (cases "j = k") (auto simp: sigs told_ack_def intro!: bexI[of _ "SentAck c"])
  qed
qed simp_all

lemma subscribe_ack_carried:
  assumes g: "good wl" and sa: "subscribe_ack ops e ch k wl = (wl', sigs, res)"
  shows "carried (closed e) M A (waiters_map wl) (waiters_map wl') extra"
  using g sa
proof (cases rule: subscribe_ack_cases)
  case (no_room s s1)
  show ?thesis by (rule ensure_carried[OF no_room(3) goodD(3)[OF g]])
next
  case (added s wl1 s1 s2 w w' ok)
  note st = acks.subscribe_step[OF added(1-3) goodD(3)[OF g] refl]
  show ?thesis
    unfolding carried_def
  proof (intro allI impI conjI)
    fix j c assume "\<not> closed e c"
    then show "c \<in> set (msgs_at (waiters_map wl) j) \<Longrightarrow>
        c \<in> set (msgs_at (waiters_map wl') j) \<or> (\<exists>s\<in>set extra. signal_chan s = c \<and> M j s)"
      and "c \<in> set (acks_at (waiters_map wl) j) \<Longrightarrow>
        c \<in> set (acks_at (waiters_map wl') j) \<or> (\<exists>s\<in>set extra. signal_chan s = c \<and> A j s)"
      using open_kept[OF st(5)[of j]] st(9,10)[of c] by (cases "j = k"; blast)+
  qed
qed simp_all

lemma get_or_subscribe_carried:
  assumes g: "good wl" and gs: "get_or_subscribe ops e ch k wl = (wl', sigs, res)"
  shows "carried (closed e) M A (waiters_map wl) (waiters_map wl') extra"
  using g gs
proof (cases rule: get_or_subscribe_cases)
  case (no_room s1)
  show ?thesis by (rule ensure_carried[OF no_room(3) goodD(3)[OF g]])
next
  case (added wl1 s1 s2 w w' ok)
  note st = msgs.subscribe_step[OF added(1-3) goodD(3)[OF g] refl]
  show ?thesis
    unfolding carried_def
  proof (intro allI impI conjI)
    fix j c assume "\<not> closed e c"
    then show "c \<in> set (msgs_at (waiters_map wl) j) \<Longrightarrow>
        c \<in> set (msgs_at (waiters_map wl') j) \<or> (\<exists>s\<in>set extra. signal_chan s = c \<and> M j s)"
      and "c \<in> set (acks_at (waiters_map wl) j) \<Longrightarrow>
        c \<in> set (acks_at (waiters_map wl') j) \<or> (\<exists>s\<in>set extra. signal_chan s = c \<and> A j s)"
      using open_kept[OF st(5)[of j]] st(9,10)[of c] by (cases "j = k"; blast)+
  qed
qed simp_all

text \<open>A successful subscription is registered, or answered at once.\<close>

lemma subscribe_ack_registered:
  assumes g: "good wl" and sa: "subscribe_ack ops e ch k wl = (wl', sigs, Inr rx)"
  shows "rx = ch \<and> (ch \<in> set (acks_at (waiters_map wl') k) \<or>
    (SentAck ch \<in> set sigs \<and> (\<exists>s. view (repository wl) k = Some s \<and> acked s)))"
  using g sa
proof (cases rule: subscribe_ack_cases)
  case (added s wl1 s1 s2 w w' ok)
  then show ?thesis
    using acks.subscribe_step(8)[OF added(1-3) goodD(3)[OF g] refl] by (auto split: if_splits)
qed (auto simp: live_at_def)

lemma get_or_subscribe_registered:
  assumes g: "good wl" and gs: "get_or_subscribe ops e ch k wl = (wl', sigs, Inr (Waiting rx))"
  shows "rx = ch \<and> ch \<in> set (msgs_at (waiters_map wl') k)"
  using g gs
proof (cases rule: get_or_subscribe_cases)
  case (added wl1 s1 s2 w w' ok)
  then show ?thesis
    using msgs.subscribe_step(8)[OF added(1-3) goodD(3)[OF g] refl] by (auto split: if_splits)
qed simp_all

lemma sas_carried:
  assumes g: "good wl" and fair: "fair_scan e"
    and sas: "store_and_subscribe_ack ops e ch k m ttl wl = (wl', sigs, res)"
  shows "carried (closed e) (told_message k m) (told_drop {k}) (waiters_map wl) (waiters_map wl') sigs"
  using g fair sas
proof (cases rule: sas_cases)
  case no_room
  show ?thesis by (rule ensure_carried[OF no_room(1) goodD(3)[OF g]])
next
  case (stored wl1 s1 wl2 s2 s3 sres)
  have "carried (closed e) (told_message k m) (told_drop {k}) (waiters_map wl) (waiters_map wl') (s1 @ s2 @ s3)"
    by (intro carried_trans[OF ensure_carried[OF stored(1) goodD(3)[OF g]]]
        carried_trans[OF store_carried[OF stored(2)] subscribe_ack_carried[OF stored(6,3)]])
  with stored(4) show ?thesis by simp
next
  case (failed wl1 s1 s2 sres)
  have "carried (closed e) (told_message k m) (told_drop {k}) (waiters_map wl) (waiters_map wl') (s1 @ s2)"
    by (intro carried_trans[OF ensure_carried[OF failed(1) goodD(3)[OF g]] store_carried[OF failed(2)]])
  with failed(3) show ?thesis by simp
qed

lemma sas_registered:
  assumes g: "good wl" and fair: "fair_scan e"
    and sas: "store_and_subscribe_ack ops e ch k m ttl wl = (wl', sigs, Inr rx)"
  shows "rx = ch \<and> ch \<in> set (acks_at (waiters_map wl') k)"
  using g fair sas
proof (cases rule: sas_cases)
  case (stored wl1 s1 wl2 s2 s3 sres)
  then have sa: "subscribe_ack ops e ch k wl2 = (wl', s3, Inr ch)" "rx = ch" by auto
  have "\<not> acked s" if "view (repository wl2) k = Some s" for s
    using store_stored(1)[OF stored(5) fair stored(2)] that by auto
  with subscribe_ack_registered[OF stored(6) sa(1)] sa(2) show ?thesis by blast
qed auto

lemma cleanup_carried:
  assumes g: "good wl" and fair: "fair_scan e" and cl: "cleanup_expired ops e wl = (wl', sigs, n)"
  shows "carried (closed e) (told_drop {k. \<exists>s. view (repository wl) k = Some s \<and> expired_before (t_purge e) (expires_at s)})
      (told_drop {k. \<exists>s. view (repository wl) k = Some s \<and> expired_before (t_purge e) (expires_at s)})
      (waiters_map wl) (waiters_map wl') sigs"
    (is "carried _ (told_drop ?E) _ ?m ?m' _")
proof -
  obtain X where X: "\<forall>k \<in> X. \<exists>s. view (repository wl) k = Some s \<and> expired_before (t_purge e) (expires_at s)"
    and at: "\<forall>j. waiters_at ?m' j = (if j \<in> X then waiters_new else open_waiters (closed e) (waiters_at ?m j))"
    and told: "\<forall>k \<in> X. \<forall>c \<in> set (waiters_chans (waiters_at ?m k)). Dropped c \<in> set sigs"
    using cleanup_spec[OF g fair cl] by (elim exE conjE) (rule that; assumption)
  show ?thesis
    unfolding carried_def
  proof (intro allI impI conjI)
    fix j c assume c: "\<not> closed e c"
    have kept: "c \<in> set (msgs_at ?m' j)" if "j \<notin> X" "c \<in> set (msgs_at ?m j)"
      using at c that by simp
    have kept': "c \<in> set (acks_at ?m' j)" if "j \<notin> X" "c \<in> set (acks_at ?m j)"
      using at c that by simp
    have drop: "\<exists>s\<in>set sigs. signal_chan s = c \<and> told_drop ?E j s"
      if "j \<in> X" "c \<in> set (waiters_chans (waiters_at ?m j))"
      using told X that by (intro bexI[of _ "Dropped c"]) (simp_all add: told_drop_def)
    show "c \<in> set (msgs_at ?m' j) \<or> (\<exists>s\<in>set sigs. signal_chan s = c \<and> told_drop ?E j s)"
      if "c \<in> set (msgs_at ?m j)"
      using kept drop that by (auto simp: waiters_chans_def)
    show "c \<in> set (acks_at ?m' j) \<or> (\<exists>s\<in>set sigs. signal_chan s = c \<and> told_drop ?E j s)"
      if "c \<in> set (acks_at ?m j)"
      using kept' drop that by (auto simp: waiters_chans_def)
  qed
qed

section \<open>Where stored messages come from\<close>

text \<open>
  Every entry was there before, or is the one that the operation stored; an acknowledged entry
  was acknowledged before, or is the one that the operation acknowledged.
\<close>

lemma store_origin:
  assumes g: "good wl" and fair: "fair_scan e" and st: "store ops e k m ttl wl = (wl', sigs, res)"
    and v: "view (repository wl') j = Some s"
  shows "view (repository wl) j = Some s \<or>
    (j = k \<and> (\<exists>x. s = fresh_entry (body m) (msg_content_type m) x))"
proof -
  let ?x = "t_store e + of_nat (as_millis ttl)"
  obtain r where ins: "repo_insert ops e (repository wl) k (body m) (msg_content_type m) ?x = (r, res)"
    and r: "repository wl' = r"
    using st by (auto simp: store_eq split: prod.splits if_splits)
  note inv = goodD(1)[OF g]
  show ?thesis
  proof (cases "j = k")
    case False
    then show ?thesis using insert_other_le[OF inv fair ins _ False] v r by simp
  next
    case True
    consider (stored) "res = Inr Stored" | (full) "res = Inr StoreFull" | (err) err where "res = Inl err"
      by (metis insert_outcome.exhaust sum.exhaust)
    then show ?thesis
    proof cases
      case stored
      have "view (repository wl') k = Some (fresh_entry (body m) (msg_content_type m) ?x)"
        by (rule store_stored(1)[OF g fair st[unfolded stored]])
      with v True have "s = fresh_entry (body m) (msg_content_type m) ?x" by simp
      with True show ?thesis by blast
    next
      case full
      have "view (repository wl') k = None" by (rule store_full(4)[OF g fair st[unfolded full]])
      with v True show ?thesis by simp
    next
      case err
      from insert_error[OF inv fair ins[unfolded err]] v True r show ?thesis
        by (auto split: if_splits dest: purged_le)
    qed
  qed
qed

lemma ack_origin:
  assumes g: "good wl" and ak: "ack ops e k wl = (wl', sigs, ok)" and v: "view (repository wl') j = Some s"
  shows "view (repository wl) j = Some s \<or> (j = k \<and> acked s \<and> message_body s = None)"
  using g ak
proof (cases rule: ack_cases)
  case (acked u r)
  have "repository wl' = r" using acked(4) by (auto simp: wl_notify_ack_eq)
  with acked(7) v show ?thesis by (auto split: if_splits)
qed (use v in auto)

lemma sas_origin:
  assumes g: "good wl" and fair: "fair_scan e"
    and sas: "store_and_subscribe_ack ops e ch k m ttl wl = (wl', sigs, res)"
    and v: "view (repository wl') j = Some s"
  shows "view (repository wl) j = Some s \<or>
    (j = k \<and> (\<exists>x. s = fresh_entry (body m) (msg_content_type m) x))"
  using g fair sas
proof (cases rule: sas_cases)
  case no_room
  with ensure_good[OF g no_room(1)] v show ?thesis by simp
next
  case (stored wl1 s1 wl2 s2 s3 sres)
  have "repository wl' = repository wl2" using subscribe_ack_step[OF stored(6,3)] by blast
  moreover have "repository wl1 = repository wl" using ensure_good[OF g stored(1)] by blast
  ultimately show ?thesis using store_origin[OF stored(5) fair stored(2), of j s] v by simp
next
  case (failed wl1 s1 s2 sres)
  have "repository wl1 = repository wl" using ensure_good[OF g failed(1)] by blast
  then show ?thesis using store_origin[OF failed(4) fair failed(2), of j s] v by simp
qed

end

end
