(* ===== verification/Relay_System.thy ===== *)
theory Relay_System
  imports Link_Handler Waiting_List_Signals
begin

text \<open>
  The whole relay as a labelled transition system.  Requests are tasks that interleave between
  their lock sections; the shared state is the waiting list, the content of the oneshot channels
  and the clock.  Each step is one lock section, one wake-up, one time-out, one disconnection, one
  round of the clean-up task of \<open>HttpRelay::start\<close>, or time that passes.
\<close>

section \<open>Requests and tasks\<close>

datatype request =
    InboxPost string header_map bytes
  | InboxGet string
  | InboxDelete string
  | InboxAck string
  | InboxAwait string
  | LinkGet string
  | LinkPost string header_map bytes

fun request_id :: "request \<Rightarrow> string" where
  "request_id (InboxPost k _ _) = k"
| "request_id (InboxGet k) = k"
| "request_id (InboxDelete k) = k"
| "request_id (InboxAck k) = k"
| "request_id (InboxAwait k) = k"
| "request_id (LinkGet k) = k"
| "request_id (LinkPost k _ _) = k"

text \<open>A request that is not answered yet: what it waits for, or that it is about to ACK.\<close>

datatype task =
    InboxGetTask string chan
  | InboxAwaitTask string chan
  | LinkGetTask string chan
  | LinkAckTask string message
  | LinkPostTask string chan

fun task_chan :: "task \<Rightarrow> chan option" where
  "task_chan (InboxGetTask _ c) = Some c"
| "task_chan (InboxAwaitTask _ c) = Some c"
| "task_chan (LinkGetTask _ c) = Some c"
| "task_chan (LinkAckTask _ _) = None"
| "task_chan (LinkPostTask _ c) = Some c"

datatype progress = Answer response | Continue task | Abort

fun progress_of :: "(chan \<Rightarrow> task) \<Rightarrow> outcome \<Rightarrow> progress" where
  "progress_of f (Responded resp) = Answer resp"
| "progress_of f (Waits c) = Continue (f c)"
| "progress_of f Panicked = Abort"

fun link_progress :: "string \<Rightarrow> link_outcome \<Rightarrow> progress" where
  "link_progress k (LinkResponded resp) = Answer resp"
| "link_progress k (LinkWaits c) = Continue (LinkGetTask k c)"
| "link_progress k (LinkGot m) = Continue (LinkAckTask k m)"
| "link_progress k LinkPanicked = Abort"

text \<open>The route table of \<open>build_router\<close> with the first lock section of each handler.\<close>

fun begin_request ::
    "http_lib \<Rightarrow> ('r, 'x) repo_ops \<Rightarrow> 'net config \<Rightarrow> 'x env \<Rightarrow> 'x env \<Rightarrow> chan \<Rightarrow> request \<Rightarrow>
     'r waiting_list \<Rightarrow> 'r waiting_list \<times> signal list \<times> progress" where
  "begin_request lib ops cfg e0 e ch (InboxPost k headers b) wl =
     (let (wl', sigs, resp) = inbox_post lib ops cfg e k headers b wl in (wl', sigs, Answer resp))"
| "begin_request lib ops cfg e0 e ch (InboxGet k) wl =
     (let (wl', sigs, out) = inbox_get lib ops e ch k wl in (wl', sigs, progress_of (InboxGetTask k) out))"
| "begin_request lib ops cfg e0 e ch (InboxDelete k) wl =
     (let (wl', sigs, resp) = inbox_delete lib ops e k wl in (wl', sigs, Answer resp))"
| "begin_request lib ops cfg e0 e ch (InboxAck k) wl = (wl, [], Answer (inbox_ack lib ops e k wl))"
| "begin_request lib ops cfg e0 e ch (InboxAwait k) wl =
     (let (wl', sigs, out) = inbox_await lib ops e0 e ch k wl in (wl', sigs, progress_of (InboxAwaitTask k) out))"
| "begin_request lib ops cfg e0 e ch (LinkGet k) wl =
     (let (wl', sigs, out) = link_get lib ops e ch k wl in (wl', sigs, link_progress k out))"
| "begin_request lib ops cfg e0 e ch (LinkPost k headers b) wl =
     (let (wl', sigs, out) = link_post lib ops cfg e ch k headers b wl
      in (wl', sigs, progress_of (LinkPostTask k) out))"

text \<open>
  What a receiver yields: the value that was sent, an error if the sender is gone, or nothing by
  the deadline (\<open>None\<close>).  A channel carries one type of value, so the cases that yield \<open>None\<close>
  here do not type-check in Rust; \<open>resume_total\<close> shows that they do not occur.
\<close>

fun read_message :: "signal option \<Rightarrow> message received option" where
  "read_message None = Some Elapsed"
| "read_message (Some (SentMessage _ m)) = Some (Received m)"
| "read_message (Some (Dropped _)) = Some SenderDropped"
| "read_message (Some (SentAck _)) = None"

fun read_ack :: "signal option \<Rightarrow> unit received option" where
  "read_ack None = Some Elapsed"
| "read_ack (Some (SentAck _)) = Some (Received ())"
| "read_ack (Some (Dropped _)) = Some SenderDropped"
| "read_ack (Some (SentMessage _ _)) = None"

fun resume_task :: "http_lib \<Rightarrow> task \<Rightarrow> signal option \<Rightarrow> progress option" where
  "resume_task lib (InboxGetTask k c) s =
     map_option (\<lambda>rec. Answer (inbox_get_resume lib rec)) (read_message s)"
| "resume_task lib (InboxAwaitTask k c) s =
     map_option (\<lambda>rec. Answer (inbox_await_resume lib rec)) (read_ack s)"
| "resume_task lib (LinkGetTask k c) s =
     map_option (\<lambda>rec. link_progress k (link_get_resume lib rec)) (read_message s)"
| "resume_task lib (LinkPostTask k c) s =
     map_option (\<lambda>rec. Answer (link_post_resume lib rec)) (read_ack s)"
| "resume_task lib (LinkAckTask k m) s = None"

section \<open>State\<close>

text \<open>
  \<open>mailbox\<close> is what was put into each channel.  The last three fields are history: every message
  that a producer sent under an ID, every ID that a consumer asked to ACK, every ID of which an
  expired entry was deleted.
\<close>

record 'r relay =
  waiting :: "'r waiting_list"
  mailbox :: "chan \<rightharpoonup> signal"
  tasks :: "nat \<rightharpoonup> task"
  next_chan :: chan
  clock :: i64
  posted :: "(string \<times> message) set"
  ack_requests :: "string set"
  expired_ids :: "string set"

definition relay_start ::
    "('r, 'x) repo_ops \<Rightarrow> 'r \<Rightarrow> i64 \<Rightarrow> (string \<times> message) set \<Rightarrow> string set \<Rightarrow> 'r relay" where
  "relay_start ops r now P K =
     \<lparr>waiting = waiting_list_new ops r, mailbox = Map.empty, tasks = Map.empty, next_chan = 0,
      clock = now, posted = P, ack_requests = K, expired_ids = {}\<rparr>"

definition deliver :: "signal list \<Rightarrow> (chan \<rightharpoonup> signal) \<Rightarrow> (chan \<rightharpoonup> signal)" where
  "deliver sigs mb = mb ++ map_of (map (\<lambda>s. (signal_chan s, s)) sigs)"

fun finish :: "nat \<Rightarrow> progress \<Rightarrow> (nat \<rightharpoonup> task) \<Rightarrow> (nat \<rightharpoonup> task)" where
  "finish r (Continue t) ts = ts(r \<mapsto> t)"
| "finish r (Answer _) ts = ts(r := None)"
| "finish r Abort ts = ts(r := None)"

text \<open>A receiver is gone once no task holds it.\<close>

definition gone :: "'r relay \<Rightarrow> chan \<Rightarrow> bool" where
  "gone s c \<longleftrightarrow> c < next_chan s \<and> (\<forall>t \<in> ran (tasks s). task_chan t \<noteq> Some c)"

text \<open>
  What an operation may read from outside, in a step that ends at the time \<open>now\<close>.  With
  \<open>dependable\<close>, no SQL statement fails.
\<close>

definition reads_by :: "i64 \<Rightarrow> 'x env \<Rightarrow> bool" where
  "reads_by now e \<longleftrightarrow> sint (t_store e) \<le> sint now \<and> sint (t_insert e) \<le> sint now \<and>
     sint (t_purge e) \<le> sint now \<and> sint (t_check e) \<le> sint now"

definition admissible :: "bool \<Rightarrow> 'r relay \<Rightarrow> i64 \<Rightarrow> 'x env \<Rightarrow> bool" where
  "admissible dependable s now e \<longleftrightarrow>
     fair_scan e \<and> (dependable \<longrightarrow> reliable e) \<and> closed e = gone s \<and> reads_by now e"

lemma admissibleD:
  assumes "admissible dependable s now e"
  shows "fair_scan e" "dependable \<Longrightarrow> reliable e" "closed e = gone s" "sint (t_store e) \<le> sint now"
    "sint (t_purge e) \<le> sint now" "sint (t_check e) \<le> sint now"
  using assms by (simp_all add: admissible_def reads_by_def)

lemma calm_admissible: "sint t \<le> sint now \<Longrightarrow> admissible dependable s now (calm_env t m (gone s))"
  by (simp add: admissible_def reads_by_def)

fun posts :: "http_lib \<Rightarrow> request \<Rightarrow> (string \<times> message) set" where
  "posts lib (InboxPost k headers b) = {(k, \<lparr>body = b, msg_content_type = request_content_type lib headers\<rparr>)}"
| "posts lib (LinkPost k headers b) = {(k, \<lparr>body = b, msg_content_type = request_content_type lib headers\<rparr>)}"
| "posts lib _ = {}"

fun acks_of :: "request \<Rightarrow> string set" where
  "acks_of (InboxDelete k) = {k}"
| "acks_of _ = {}"

section \<open>Steps\<close>

datatype event =
    Began nat request progress
  | Resumed nat task progress
  | TimedOut nat task progress
  | LinkAcked nat string message response
  | Disconnected nat
  | CleanedUp nat
  | Ticked

inductive step ::
    "http_lib \<Rightarrow> ('r, 'x) repo_ops \<Rightarrow> 'net config \<Rightarrow> ('r \<Rightarrow> string \<rightharpoonup> stored_entry) \<Rightarrow> bool \<Rightarrow>
     'r relay \<Rightarrow> event \<Rightarrow> 'r relay \<Rightarrow> bool"
  for lib ops cfg view dependable
where
  begins: "tasks s r = None \<Longrightarrow> admissible dependable s now e0 \<Longrightarrow> admissible dependable s now e \<Longrightarrow>
    sint (clock s) \<le> sint now \<Longrightarrow>
    begin_request lib ops cfg e0 e (next_chan s) req (waiting s) = (wl', sigs, p) \<Longrightarrow>
    step lib ops cfg view dependable s (Began r req p)
      (s\<lparr>waiting := wl', mailbox := deliver sigs (mailbox s), tasks := finish r p (tasks s),
         next_chan := Suc (next_chan s), clock := now, posted := posted s \<union> posts lib req,
         ack_requests := ack_requests s \<union> acks_of req\<rparr>)"
| resumes: "tasks s r = Some t \<Longrightarrow> task_chan t = Some c \<Longrightarrow> mailbox s c = Some sig \<Longrightarrow>
    resume_task lib t (Some sig) = Some p \<Longrightarrow>
    step lib ops cfg view dependable s (Resumed r t p) (s\<lparr>tasks := finish r p (tasks s)\<rparr>)"
| times_out: "tasks s r = Some t \<Longrightarrow> task_chan t = Some c \<Longrightarrow> mailbox s c = None \<Longrightarrow>
    resume_task lib t None = Some p \<Longrightarrow>
    step lib ops cfg view dependable s (TimedOut r t p) (s\<lparr>tasks := finish r p (tasks s)\<rparr>)"
| link_acks: "tasks s r = Some (LinkAckTask k m) \<Longrightarrow> admissible dependable s now e \<Longrightarrow>
    sint (clock s) \<le> sint now \<Longrightarrow>
    link_get_ack lib ops e k m (waiting s) = (wl', sigs, resp) \<Longrightarrow>
    step lib ops cfg view dependable s (LinkAcked r k m resp)
      (s\<lparr>waiting := wl', mailbox := deliver sigs (mailbox s), tasks := (tasks s)(r := None),
         clock := now, ack_requests := insert k (ack_requests s)\<rparr>)"
| disconnects: "tasks s r = Some t \<Longrightarrow>
    step lib ops cfg view dependable s (Disconnected r) (s\<lparr>tasks := (tasks s)(r := None)\<rparr>)"
| cleans_up: "admissible dependable s now e \<Longrightarrow> sint (clock s) \<le> sint now \<Longrightarrow>
    cleanup_expired ops e (waiting s) = (wl', sigs, n) \<Longrightarrow>
    step lib ops cfg view dependable s (CleanedUp n)
      (s\<lparr>waiting := wl', mailbox := deliver sigs (mailbox s), clock := now,
         expired_ids := expired_ids s \<union> {k. \<exists>x. view (repository (waiting s)) k = Some x \<and>
           expired_before (t_purge e) (expires_at x)}\<rparr>)"
| ticks: "sint (clock s) \<le> sint now \<Longrightarrow> step lib ops cfg view dependable s Ticked (s\<lparr>clock := now\<rparr>)"

inductive reachable ::
    "http_lib \<Rightarrow> ('r, 'x) repo_ops \<Rightarrow> 'net config \<Rightarrow> ('r \<Rightarrow> string \<rightharpoonup> stored_entry) \<Rightarrow> bool \<Rightarrow>
     'r relay \<Rightarrow> 'r relay \<Rightarrow> bool"
  for lib ops cfg view dependable s0
where
  start: "reachable lib ops cfg view dependable s0 s0"
| more: "reachable lib ops cfg view dependable s0 s \<Longrightarrow> step lib ops cfg view dependable s ev s' \<Longrightarrow>
    reachable lib ops cfg view dependable s0 s'"

inductive_cases stepE: "step lib ops cfg view dependable s ev s'"
inductive_cases beganE: "step lib ops cfg view dependable s (Began r req p) s'"
inductive_cases resumedE: "step lib ops cfg view dependable s (Resumed r t p) s'"
inductive_cases timed_outE: "step lib ops cfg view dependable s (TimedOut r t p) s'"
inductive_cases link_ackedE: "step lib ops cfg view dependable s (LinkAcked r k m resp) s'"

inductive_simps ticked_iff: "step lib ops cfg view dependable s Ticked s'"
inductive_simps disconnected_iff: "step lib ops cfg view dependable s (Disconnected r) s'"

section \<open>Delivery\<close>

lemma deliver_other: "c \<notin> signal_chan ` set sigs \<Longrightarrow> deliver sigs mb c = mb c"
  by (auto simp: deliver_def map_add_def image_iff map_of_eq_None_iff split: option.splits dest!: map_of_SomeD)

lemma deliver_signal:
  assumes "distinct (map signal_chan sigs)" and "s \<in> set sigs"
  shows "deliver sigs mb (signal_chan s) = Some s"
proof -
  have "map_of (map (\<lambda>s. (signal_chan s, s)) sigs) (signal_chan s) = Some s"
    using assms by (intro map_of_is_SomeI) (auto simp: comp_def)
  then show ?thesis by (simp add: deliver_def map_add_def)
qed

lemma deliver_dom: "deliver sigs mb c \<noteq> None \<Longrightarrow> mb c \<noteq> None \<or> c \<in> signal_chan ` set sigs"
  using deliver_other by metis

end
