(* ===== verification/Relay_Safety.thy ===== *)
theory Relay_Safety
  imports Relay_System
begin

text \<open>
  The invariant of the relay and its proof.  \<open>op_effect\<close> sums up one operation of the waiting list
  for the system: what it may tell to whom, and where the entries come from.  Every handler
  section has such an effect (\<open>begin_effect\<close>, \<open>link_ack_effect\<close>, \<open>cleanup_effect\<close>), and every
  effect keeps the invariant (\<open>effect_inv\<close>).
\<close>

section \<open>Effects\<close>

definition message_signal :: "(string \<times> message) set \<Rightarrow> string set \<Rightarrow> string \<Rightarrow> signal \<Rightarrow> bool" where
  "message_signal P X k s =
     (case s of SentMessage _ m \<Rightarrow> (k, m) \<in> P | Dropped _ \<Rightarrow> k \<in> X | SentAck _ \<Rightarrow> False)"

definition ack_signal :: "(string \<times> message) set \<Rightarrow> string set \<Rightarrow> string set \<Rightarrow> string \<Rightarrow> signal \<Rightarrow> bool" where
  "ack_signal P K X k s =
     (case s of SentMessage _ _ \<Rightarrow> False | SentAck _ \<Rightarrow> k \<in> K | Dropped _ \<Rightarrow> k \<in> X \<or> k \<in> fst ` P)"

lemma message_signal_mono:
  "message_signal P X k s \<Longrightarrow> P \<subseteq> P' \<Longrightarrow> X \<subseteq> X' \<Longrightarrow> message_signal P' X' k s"
  by (auto simp: message_signal_def split: signal.splits)

lemma ack_signal_mono:
  "ack_signal P K X k s \<Longrightarrow> P \<subseteq> P' \<Longrightarrow> K \<subseteq> K' \<Longrightarrow> X \<subseteq> X' \<Longrightarrow> ack_signal P' K' X' k s"
  by (auto simp: ack_signal_def split: signal.splits)

definition entries_from ::
    "(string \<rightharpoonup> stored_entry) \<Rightarrow> (string \<times> message) set \<Rightarrow> string set \<Rightarrow> (string \<rightharpoonup> stored_entry) \<Rightarrow> bool" where
  "entries_from v P K v' \<longleftrightarrow>
     (\<forall>k s. v' k = Some s \<longrightarrow> v k = Some s \<or>
        (\<exists>m x. (k, m) \<in> P \<and> s = fresh_entry (body m) (msg_content_type m) x) \<or>
        (k \<in> K \<and> acked s \<and> message_body s = None))"

lemma entries_from_refl [simp]: "entries_from v P K v"
  by (simp add: entries_from_def)

definition op_effect ::
    "('r, 'x) repo_ops \<Rightarrow> ('r \<Rightarrow> bool) \<Rightarrow> ('r \<Rightarrow> string \<rightharpoonup> stored_entry) \<Rightarrow> (chan \<Rightarrow> bool) \<Rightarrow> chan multiset \<Rightarrow>
     (string \<times> message) set \<Rightarrow> string set \<Rightarrow> string set \<Rightarrow> 'r waiting_list \<Rightarrow> 'r waiting_list \<Rightarrow> signal list \<Rightarrow> bool" where
  "op_effect ops invar view cl new P K X wl wl' sigs \<longleftrightarrow>
     wl_inv ops invar view wl' \<and> balanced (waiters_map wl) new (waiters_map wl') sigs \<and>
     carried cl (message_signal P X) (ack_signal P K X) (waiters_map wl) (waiters_map wl') sigs \<and>
     entries_from (view (repository wl)) P K (view (repository wl'))"

text \<open>A task that has just been started, with what its handler got out of the lock section.\<close>

definition task_begun ::
    "(string \<rightharpoonup> stored_entry) \<Rightarrow> (string, waiters) hash_map \<Rightarrow> signal list \<Rightarrow> chan \<Rightarrow> task \<Rightarrow> bool" where
  "task_begun v m sigs ch t =
     (case t of
        InboxGetTask k c \<Rightarrow> c = ch \<and> ch \<in> set (msgs_at m k)
      | LinkGetTask k c \<Rightarrow> c = ch \<and> ch \<in> set (msgs_at m k)
      | InboxAwaitTask k c \<Rightarrow> c = ch \<and> (ch \<in> set (acks_at m k) \<or>
          (SentAck ch \<in> set sigs \<and> (\<exists>s. v k = Some s \<and> acked s)))
      | LinkPostTask k c \<Rightarrow> c = ch \<and> ch \<in> set (acks_at m k)
      | LinkAckTask k msg \<Rightarrow> \<exists>s b. v k = Some s \<and> message_body s = Some b \<and>
          msg = \<lparr>body = b, msg_content_type = content_type s\<rparr>)"

context entry_store
begin

abbreviation effect where "effect \<equiv> op_effect ops invar view"

lemma effect_refl: "good wl \<Longrightarrow> effect cl {#} P K X wl wl []"
  by (simp add: op_effect_def balanced_refl)

lemma store_effect:
  assumes g: "good wl" and fair: "fair_scan e" and st: "store ops e k m ttl wl = (wl', sigs, res)"
  shows "effect cl {#} {(k, m)} {} {} wl wl' sigs"
proof -
  have "carried cl (message_signal {(k, m)} {}) (ack_signal {(k, m)} {} {}) (waiters_map wl) (waiters_map wl') sigs"
    by (rule carried_mono[OF store_carried[OF st]])
      (auto simp: told_message_def told_drop_def message_signal_def ack_signal_def)
  moreover have "entries_from (view (repository wl)) {(k, m)} {} (view (repository wl'))"
    using store_origin[OF g fair st] by (auto simp: entries_from_def)
  ultimately show ?thesis using store_step(1,2)[OF g fair st] by (simp add: op_effect_def)
qed

lemma ack_effect:
  assumes g: "good wl" and ak: "ack ops e k wl = (wl', sigs, ok)"
  shows "effect cl {#} {} {k} {} wl wl' sigs"
proof -
  have "carried cl (message_signal {} {}) (ack_signal {} {k} {}) (waiters_map wl) (waiters_map wl') sigs"
    by (rule carried_mono[OF ack_carried[OF g ak, of cl "\<lambda>_ _. False"]])
      (auto simp: told_ack_def ack_signal_def)
  moreover have "entries_from (view (repository wl)) {} {k} (view (repository wl'))"
    using ack_origin[OF g ak] by (auto simp: entries_from_def)
  ultimately show ?thesis using ack_step[OF g ak] by (simp add: op_effect_def)
qed

lemma subscribe_ack_effect:
  assumes g: "good wl" and sa: "subscribe_ack ops e ch k wl = (wl', sigs, res)"
  shows "effect (closed e) (if res = Inl NotFound then {#} else {#ch#}) {} {} {} wl wl' sigs"
  using subscribe_ack_step[OF g sa] subscribe_ack_carried[OF g sa] by (simp add: op_effect_def)

lemma get_or_subscribe_effect:
  assumes g: "good wl" and gs: "get_or_subscribe ops e ch k wl = (wl', sigs, res)"
  shows "\<exists>new. (new = {#} \<or> new = {#ch#}) \<and> effect (closed e) new {} {} {} wl wl' sigs"
proof -
  have "(case res of Inr (GotMessage _) \<Rightarrow> {#} | _ \<Rightarrow> {#ch#}) = {#} \<or>
      (case res of Inr (GotMessage _) \<Rightarrow> {#} | _ \<Rightarrow> {#ch#}) = {#ch#}"
    by (auto split: sum.splits get_or_subscribe_result.splits)
  then show ?thesis
    using get_or_subscribe_step[OF g gs] get_or_subscribe_carried[OF g gs]
    by (auto simp: op_effect_def)
qed

lemma sas_effect:
  assumes g: "good wl" and fair: "fair_scan e"
    and sas: "store_and_subscribe_ack ops e ch k m ttl wl = (wl', sigs, res)"
  shows "effect (closed e) (case res of Inr _ \<Rightarrow> {#ch#} | Inl _ \<Rightarrow> {#}) {(k, m)} {} {} wl wl' sigs"
proof -
  have "carried (closed e) (message_signal {(k, m)} {}) (ack_signal {(k, m)} {} {}) (waiters_map wl) (waiters_map wl') sigs"
    by (rule carried_mono[OF sas_carried[OF g fair sas]])
      (auto simp: told_message_def told_drop_def message_signal_def ack_signal_def)
  moreover have "entries_from (view (repository wl)) {(k, m)} {} (view (repository wl'))"
    using sas_origin[OF g fair sas] by (auto simp: entries_from_def)
  ultimately show ?thesis using sas_step[OF g fair sas] by (simp add: op_effect_def)
qed

lemma cleanup_effect:
  assumes g: "good wl" and fair: "fair_scan e" and cl: "cleanup_expired ops e wl = (wl', sigs, n)"
  shows "effect (closed e) {#} {} {}
    {k. \<exists>s. view (repository wl) k = Some s \<and> expired_before (t_purge e) (expires_at s)} wl wl' sigs"
    (is "effect _ _ _ _ ?E _ _ _")
proof -
  have "carried (closed e) (message_signal {} ?E) (ack_signal {} {} ?E) (waiters_map wl) (waiters_map wl') sigs"
    by (rule carried_mono[OF cleanup_carried[OF g fair cl]])
      (auto simp: told_drop_def message_signal_def ack_signal_def)
  moreover obtain X where v: "view (repository wl') = view (repository wl) |` (- X)"
    and "good wl'" "balanced (waiters_map wl) {#} (waiters_map wl') sigs"
    using cleanup_spec[OF g fair cl] by (elim exE conjE) (rule that; assumption)
  moreover have "entries_from (view (repository wl)) {} {} (view (repository wl'))"
    unfolding v by (auto simp: entries_from_def restrict_map_def split: if_splits)
  ultimately show ?thesis unfolding op_effect_def by blast
qed

section \<open>Handlers\<close>

lemma begin_effect:
  assumes g: "good wl" and fair: "fair_scan e"
    and br: "begin_request lib ops cfg e0 e ch req wl = (wl', sigs, p)"
  shows "\<exists>new. (new = {#} \<or> new = {#ch#}) \<and> effect (closed e) new (posts lib req) (acks_of req) {} wl wl' sigs"
proof (cases req)
  case (InboxPost k headers b)
  let ?m = "\<lparr>body = b, msg_content_type = request_content_type lib headers\<rparr>"
  obtain wl1 s1 res where st: "store ops e k ?m (inbox_cache_ttl cfg) wl = (wl1, s1, res)"
    by (metis prod_cases3)
  have "(wl', sigs) = (wl, []) \<or> (wl', sigs) = (wl1, s1)"
    using br InboxPost st
    by (auto simp: inbox_post_def validate_id_length_def split: prod.splits sum.splits if_splits)
  with InboxPost effect_refl[OF g] store_effect[OF g fair st] show ?thesis by auto
next
  case (InboxGet k)
  show ?thesis
  proof (cases "length k \<le> max_id_length")
    case True
    obtain out where ig: "inbox_get lib ops e ch k wl = (wl', sigs, out)"
      using br InboxGet by (auto split: prod.splits)
    show ?thesis
      using g True ig
      by (cases rule: inbox_get_cases)
        (use InboxGet effect_refl[OF g] get_or_subscribe_effect[OF g] in auto)
  qed (use InboxGet br g effect_refl in \<open>auto simp: inbox_get_def validate_id_length_def split: prod.splits\<close>)
next
  case (InboxDelete k)
  obtain wl1 s1 ok where ak: "ack ops e k wl = (wl1, s1, ok)" by (metis prod_cases3)
  with br InboxDelete effect_refl[OF g] ack_effect[OF g ak] show ?thesis
    by (auto simp: inbox_delete_def validate_id_length_def split: prod.splits sum.splits if_splits)
next
  case (InboxAck k)
  with br effect_refl[OF g] show ?thesis by auto
next
  case (InboxAwait k)
  obtain wl1 s1 res where sa: "subscribe_ack ops e ch k wl = (wl1, s1, res)" by (metis prod_cases3)
  have "(wl', sigs) = (wl, []) \<or> (wl', sigs) = (wl1, s1)"
    using br InboxAwait sa
    by (auto simp: inbox_await_def validate_id_length_def split: prod.splits sum.splits if_splits subscribe_error.splits)
  with InboxAwait effect_refl[OF g] subscribe_ack_effect[OF g sa] show ?thesis
    by (auto split: if_splits)
next
  case (LinkGet k)
  show ?thesis
  proof (cases "length k \<le> max_id_length")
    case True
    obtain out where lg: "link_get lib ops e ch k wl = (wl', sigs, out)"
      using br LinkGet by (auto split: prod.splits)
    show ?thesis
      using g True lg
      by (cases rule: link_get_cases)
        (use LinkGet effect_refl[OF g] get_or_subscribe_effect[OF g] in auto)
  qed (use LinkGet br g effect_refl in \<open>auto simp: link_get_def validate_id_length_def split: prod.splits\<close>)
next
  case (LinkPost k headers b)
  let ?m = "\<lparr>body = b, msg_content_type = request_content_type lib headers\<rparr>"
  obtain wl1 s1 res where sas: "store_and_subscribe_ack ops e ch k ?m (link_timeout cfg) wl = (wl1, s1, res)"
    by (metis prod_cases3)
  have "(wl', sigs) = (wl, []) \<or> (wl', sigs) = (wl1, s1)"
    using br LinkPost sas
    by (auto simp: link_post_def validate_id_length_def split: prod.splits sum.splits if_splits)
  with LinkPost effect_refl[OF g] sas_effect[OF g fair sas] show ?thesis
    by (auto split: sum.splits)
qed

lemma begin_task:
  assumes g: "good wl" and fair: "fair_scan e"
    and br: "begin_request lib ops cfg e0 e ch req wl = (wl', sigs, Continue t)"
  shows "task_begun (view (repository wl)) (waiters_map wl') sigs ch t"
proof (cases req)
  case (InboxPost k headers b)
  with br show ?thesis by (auto split: prod.splits)
next
  case (InboxGet k)
  then obtain out where ig: "inbox_get lib ops e ch k wl = (wl', sigs, out)"
    and t: "progress_of (InboxGetTask k) out = Continue t"
    using br by (auto split: prod.splits)
  show ?thesis
  proof (cases "length k \<le> max_id_length")
    case True
    show ?thesis
      using g True ig
      by (cases rule: inbox_get_cases)
        (use t get_or_subscribe_registered[OF g] in \<open>auto simp: task_begun_def\<close>)
  qed (use ig t in \<open>auto simp: inbox_get_def validate_id_length_def\<close>)
next
  case (InboxDelete k)
  with br show ?thesis by (auto split: prod.splits)
next
  case (InboxAck k)
  with br show ?thesis by auto
next
  case (InboxAwait k)
  then obtain out where ia: "inbox_await lib ops e0 e ch k wl = (wl', sigs, out)"
    and t: "progress_of (InboxAwaitTask k) out = Continue t"
    using br by (auto split: prod.splits)
  obtain rx where "subscribe_ack ops e ch k wl = (wl', sigs, Inr rx)" "t = InboxAwaitTask k rx"
    using ia t by (auto simp: inbox_await_def validate_id_length_def
        split: sum.splits if_splits prod.splits subscribe_error.splits)
  with subscribe_ack_registered[OF g] show ?thesis by (fastforce simp: task_begun_def)
next
  case (LinkGet k)
  then obtain out where lg: "link_get lib ops e ch k wl = (wl', sigs, out)"
    and t: "link_progress k out = Continue t"
    using br by (auto split: prod.splits)
  show ?thesis
  proof (cases "length k \<le> max_id_length")
    case True
    show ?thesis
      using g True lg
      by (cases rule: link_get_cases)
        (use t get_or_subscribe_registered[OF g] in \<open>auto simp: task_begun_def live_at_def\<close>)
  qed (use lg t in \<open>auto simp: link_get_def validate_id_length_def\<close>)
next
  case (LinkPost k headers b)
  let ?m = "\<lparr>body = b, msg_content_type = request_content_type lib headers\<rparr>"
  from LinkPost obtain out where lp: "link_post lib ops cfg e ch k headers b wl = (wl', sigs, out)"
    and t: "progress_of (LinkPostTask k) out = Continue t"
    using br by (auto split: prod.splits)
  obtain rx where "store_and_subscribe_ack ops e ch k ?m (link_timeout cfg) wl = (wl', sigs, Inr rx)"
    "t = LinkPostTask k rx"
    using lp t by (auto simp: link_post_def validate_id_length_def
        split: sum.splits if_splits prod.splits store_and_subscribe_error.splits)
  with sas_registered[OF g fair] show ?thesis by (fastforce simp: task_begun_def)
qed

end

section \<open>The invariant\<close>

definition channels_ok :: "'r relay \<Rightarrow> bool" where
  "channels_ok s \<longleftrightarrow>
     distinct (chans_of (waiters_map (waiting s))) \<and>
     (\<forall>c \<in> set (chans_of (waiters_map (waiting s))). c < next_chan s \<and> mailbox s c = None) \<and>
     (\<forall>c. mailbox s c \<noteq> None \<longrightarrow> c < next_chan s) \<and>
     (\<forall>r t c. tasks s r = Some t \<and> task_chan t = Some c \<longrightarrow> c < next_chan s) \<and>
     (\<forall>r t r' t' c. tasks s r = Some t \<and> task_chan t = Some c \<and>
        tasks s r' = Some t' \<and> task_chan t' = Some c \<longrightarrow> r = r')"

text \<open>A task is registered where it has to be, or its channel has a signal that it may get.\<close>

definition tracked ::
    "(string, waiters) hash_map \<Rightarrow> (chan \<rightharpoonup> signal) \<Rightarrow> (string \<times> message) set \<Rightarrow> string set \<Rightarrow> string set \<Rightarrow>
     task \<Rightarrow> bool" where
  "tracked m mb P K X t =
     (case t of
        InboxGetTask k c \<Rightarrow> c \<in> set (msgs_at m k) \<or> (\<exists>sig. mb c = Some sig \<and> message_signal P X k sig)
      | LinkGetTask k c \<Rightarrow> c \<in> set (msgs_at m k) \<or> (\<exists>sig. mb c = Some sig \<and> message_signal P X k sig)
      | InboxAwaitTask k c \<Rightarrow> c \<in> set (acks_at m k) \<or> (\<exists>sig. mb c = Some sig \<and> ack_signal P K X k sig)
      | LinkPostTask k c \<Rightarrow> c \<in> set (acks_at m k) \<or> (\<exists>sig. mb c = Some sig \<and> ack_signal P K X k sig)
      | LinkAckTask k msg \<Rightarrow> (k, msg) \<in> P)"

definition entries_known ::
    "(string \<rightharpoonup> stored_entry) \<Rightarrow> (string \<times> message) set \<Rightarrow> string set \<Rightarrow> bool" where
  "entries_known v P K \<longleftrightarrow>
     (\<forall>k s. v k = Some s \<longrightarrow>
        (\<forall>b. message_body s = Some b \<longrightarrow> (k, \<lparr>body = b, msg_content_type = content_type s\<rparr>) \<in> P) \<and>
        (acked s \<longrightarrow> k \<in> K))"

definition relay_inv ::
    "('r, 'x) repo_ops \<Rightarrow> ('r \<Rightarrow> bool) \<Rightarrow> ('r \<Rightarrow> string \<rightharpoonup> stored_entry) \<Rightarrow> 'r relay \<Rightarrow> bool" where
  "relay_inv ops invar view s \<longleftrightarrow>
     wl_inv ops invar view (waiting s) \<and> channels_ok s \<and>
     (\<forall>r t. tasks s r = Some t \<longrightarrow>
        tracked (waiters_map (waiting s)) (mailbox s) (posted s) (ack_requests s) (expired_ids s) t) \<and>
     entries_known (view (repository (waiting s))) (posted s) (ack_requests s)"

lemma entries_known_from:
  assumes "entries_known v P K" and "entries_from v P' K' v'"
  shows "entries_known v' (P \<union> P') (K \<union> K')"
  unfolding entries_known_def
proof (intro allI impI)
  fix k s assume s: "v' k = Some s"
  have old: "v k = Some s \<Longrightarrow>
      (\<forall>b. message_body s = Some b \<longrightarrow> (k, \<lparr>body = b, msg_content_type = content_type s\<rparr>) \<in> P \<union> P') \<and>
      (acked s \<longrightarrow> k \<in> K \<union> K')"
    using assms(1) by (auto simp: entries_known_def)
  from assms(2)[unfolded entries_from_def, rule_format, OF s]
  show "(\<forall>b. message_body s = Some b \<longrightarrow> (k, \<lparr>body = b, msg_content_type = content_type s\<rparr>) \<in> P \<union> P') \<and>
      (acked s \<longrightarrow> k \<in> K \<union> K')"
  proof (elim disjE exE conjE)
    assume "v k = Some s"
    then show ?thesis by (rule old)
  qed auto
qed

section \<open>Effects keep the invariant\<close>

text \<open>What \<open>balanced\<close> means when no channel occurs twice.\<close>

lemma balanced_distinct:
  assumes bal: "balanced m new m' sigs" and d: "distinct (chans_of m)"
    and new: "new = {#} \<or> new = {#ch#}" and fresh: "ch \<notin> set (chans_of m)"
  shows "distinct (chans_of m')" and "distinct (map signal_chan sigs)"
    and "set (chans_of m') \<inter> signal_chan ` set sigs = {}"
    and "set (chans_of m') \<union> signal_chan ` set sigs = set (chans_of m) \<union> set_mset new"
proof -
  obtain ns where ns: "new = mset ns" "distinct (chans_of m @ ns)"
    using new d fresh by (cases "new = {#}") (auto intro: that[of "[]"] that[of "[ch]"])
  have eq: "mset (chans_of m @ ns) = mset (chans_of m' @ map signal_chan sigs)"
    using bal ns(1) by (simp add: balanced_def)
  then have "distinct (chans_of m' @ map signal_chan sigs)"
    using ns(2) mset_eq_imp_distinct_iff by blast
  then show "distinct (chans_of m')" "distinct (map signal_chan sigs)"
    "set (chans_of m') \<inter> signal_chan ` set sigs = {}" by auto
  from mset_eq_setD[OF eq] show "set (chans_of m') \<union> signal_chan ` set sigs = set (chans_of m) \<union> set_mset new"
    by (simp add: ns(1))
qed

lemma chans_at: "hm_ok m \<Longrightarrow> c \<in> set (waiters_chans (waiters_at m k)) \<Longrightarrow> c \<in> set (chans_of m)"
  by (cases "map_of m k") (auto simp: waiters_at_def waiters_chans_def waiters_new_def chans_of_def dest!: map_of_SomeD)

text \<open>The channels after an effect, where at most the new task \<open>t\<close> of \<open>r\<close> was added.\<close>

definition only_task :: "nat \<Rightarrow> chan \<Rightarrow> 'r relay \<Rightarrow> 'r relay \<Rightarrow> bool" where
  "only_task r ch s s' \<longleftrightarrow>
     (\<forall>j t. tasks s' j = Some t \<longrightarrow>
        tasks s j = Some t \<or> (j = r \<and> tasks s r = None \<and> (task_chan t = None \<or> task_chan t = Some ch)))"

lemma only_taskD:
  "only_task r ch s s' \<Longrightarrow> tasks s' j = Some t \<Longrightarrow>
   tasks s j = Some t \<or> (j = r \<and> tasks s r = None \<and> (task_chan t = None \<or> task_chan t = Some ch))"
  by (simp add: only_task_def)

lemma effect_channels:
  assumes ok: "channels_ok s" and bal: "balanced (waiters_map (waiting s)) new (waiters_map (waiting s')) sigs"
    and new: "new = {#} \<or> new = {#next_chan s#}" and next_chan: "next_chan s \<le> next_chan s'"
    and used: "new \<noteq> {#} \<or> (\<exists>t. tasks s r = None \<and> tasks s' r = Some t \<and> task_chan t \<noteq> None) \<Longrightarrow> next_chan s < next_chan s'"
    and mb: "mailbox s' = deliver sigs (mailbox s)" and ts: "only_task r (next_chan s) s s'"
  shows "channels_ok s'"
proof -
  let ?m = "waiters_map (waiting s)" and ?m' = "waiters_map (waiting s')"
  have fresh: "next_chan s \<notin> set (chans_of ?m)" using ok by (auto simp: channels_ok_def)
  note bd = balanced_distinct[OF bal _ new fresh]
  have d: "distinct (chans_of ?m)" using ok by (simp add: channels_ok_def)
  have old: "c < next_chan s \<and> mailbox s c = None" if "c \<in> set (chans_of ?m)" for c
    using ok that by (auto simp: channels_ok_def)
  have mbox: "c < next_chan s" if "mailbox s c \<noteq> None" for c
    using ok that by (auto simp: channels_ok_def)
  have less: "c < next_chan s'" if "c \<in> set (chans_of ?m) \<union> set_mset new" for c
    using that old[of c] new used next_chan by (cases "new = {#}") fastforce+
  have free: "mailbox s c = None" if "c \<in> set (chans_of ?m) \<union> set_mset new" for c
    using that old[of c] new mbox[of "next_chan s"] by fastforce
  have "c < next_chan s' \<and> mailbox s' c = None" if c: "c \<in> set (chans_of ?m')" for c
  proof -
    have "c \<in> set (chans_of ?m) \<union> set_mset new" using bd(4)[OF d] c by blast
    moreover have "deliver sigs (mailbox s) c = mailbox s c"
      using bd(3)[OF d] c by (intro deliver_other) blast
    ultimately show ?thesis using less free mb by simp
  qed
  moreover have "c < next_chan s'" if c: "mailbox s' c \<noteq> None" for c
  proof -
    have "mailbox s c \<noteq> None \<or> c \<in> signal_chan ` set sigs" using deliver_dom c mb by metis
    then show ?thesis
    proof
      assume "mailbox s c \<noteq> None"
      then show ?thesis using mbox next_chan by (meson less_le_trans)
    next
      assume "c \<in> signal_chan ` set sigs"
      then show ?thesis using bd(4)[OF d] less by blast
    qed
  qed
  moreover have "c < next_chan s'" if t: "tasks s' j = Some t" "task_chan t = Some c" for j t c
  proof (cases "tasks s j = Some t")
    case True
    then show ?thesis using ok t(2) next_chan unfolding channels_ok_def by (meson less_le_trans)
  next
    case False
    then have "j = r" "tasks s r = None" "c = next_chan s" using only_taskD[OF ts t(1)] t(2) by auto
    with t used show ?thesis by blast
  qed
  moreover have "j = j'" if t: "tasks s' j = Some t" "task_chan t = Some c" "tasks s' j' = Some t'" "task_chan t' = Some c"
    for j t j' t' c
  proof -
    have old_less: "c < next_chan s" if "tasks s i = Some u" "task_chan u = Some c" for i u
      using ok that unfolding channels_ok_def by blast
    have "tasks s j = Some t \<or> (j = r \<and> c = next_chan s)" "tasks s j' = Some t' \<or> (j' = r \<and> c = next_chan s)"
      using only_taskD[OF ts t(1)] only_taskD[OF ts t(3)] t(2,4) by auto
    moreover have "j = j'" if "tasks s j = Some t" "tasks s j' = Some t'"
      using ok that t(2,4) unfolding channels_ok_def by blast
    ultimately show ?thesis using old_less t(2,4) by (metis less_irrefl)
  qed
  ultimately show ?thesis using bd(1)[OF d] unfolding channels_ok_def by blast
qed

text \<open>A task that was there before stays tracked.\<close>

lemma tracked_step:
  assumes tr: "tracked m mb P K X t" and car: "carried cl (message_signal P' X') (ack_signal P' K' X') m m' sigs"
    and alive: "\<And>c. task_chan t = Some c \<Longrightarrow> \<not> cl c"
    and d: "distinct (map signal_chan sigs)"
    and old: "\<And>c. mb c \<noteq> None \<Longrightarrow> c \<notin> signal_chan ` set sigs"
  shows "tracked m' (deliver sigs mb) (P \<union> P') (K \<union> K') (X \<union> X') t"
proof -
  have got: "deliver sigs mb c = Some s" if "s \<in> set sigs" "signal_chan s = c" for s c
    using deliver_signal[OF d that(1)] that(2) by blast
  have kept: "deliver sigs mb c = Some s" if "mb c = Some s" for s c
    using that old[of c] by (simp add: deliver_other)
  have msg: "c \<in> set (msgs_at m' k) \<or> (\<exists>s. deliver sigs mb c = Some s \<and> message_signal (P \<union> P') (X \<union> X') k s)"
    if c: "task_chan t = Some c" and w: "c \<in> set (msgs_at m k) \<or> (\<exists>s. mb c = Some s \<and> message_signal P X k s)" for c k
    using w
  proof
    assume "c \<in> set (msgs_at m k)"
    then have "c \<in> set (msgs_at m' k) \<or> (\<exists>s \<in> set sigs. signal_chan s = c \<and> message_signal P' X' k s)"
      using car alive[OF c] unfolding carried_def by blast
    then show ?thesis using got message_signal_mono[of P' X' k _ "P \<union> P'" "X \<union> X'"] by blast
  qed (use kept message_signal_mono[of P X k _ "P \<union> P'" "X \<union> X'"] in blast)
  have ack: "c \<in> set (acks_at m' k) \<or> (\<exists>s. deliver sigs mb c = Some s \<and> ack_signal (P \<union> P') (K \<union> K') (X \<union> X') k s)"
    if c: "task_chan t = Some c" and w: "c \<in> set (acks_at m k) \<or> (\<exists>s. mb c = Some s \<and> ack_signal P K X k s)" for c k
    using w
  proof
    assume "c \<in> set (acks_at m k)"
    then have "c \<in> set (acks_at m' k) \<or> (\<exists>s \<in> set sigs. signal_chan s = c \<and> ack_signal P' K' X' k s)"
      using car alive[OF c] unfolding carried_def by blast
    then show ?thesis using got ack_signal_mono[of P' K' X' k _ "P \<union> P'" "K \<union> K'" "X \<union> X'"] by blast
  qed (use kept ack_signal_mono[of P K X k _ "P \<union> P'" "K \<union> K'" "X \<union> X'"] in blast)
  show ?thesis using tr msg ack by (cases t) (simp_all add: tracked_def)
qed

text \<open>So does a new one.\<close>

lemma tracked_new:
  assumes beg: "task_begun v m' sigs ch t" and known: "entries_known v P K"
    and d: "distinct (map signal_chan sigs)"
  shows "tracked m' (deliver sigs mb) (P \<union> P') (K \<union> K') X t"
proof -
  have "deliver sigs mb ch = Some (SentAck ch)" if "SentAck ch \<in> set sigs"
    using deliver_signal[OF d that] by simp
  then show ?thesis
    using beg known
    by (auto simp: task_begun_def tracked_def entries_known_def ack_signal_def split: task.splits)
qed

context entry_store
begin

text \<open>Any step that changes the waiting list by an effect keeps the invariant.\<close>

lemma effect_inv:
  assumes inv: "relay_inv ops invar view s"
    and eff: "effect (gone s) new P K X (waiting s) (waiting s') sigs"
    and new: "new = {#} \<or> new = {#next_chan s#}" and next_chan: "next_chan s \<le> next_chan s'"
    and used: "new \<noteq> {#} \<or> (\<exists>t. tasks s r = None \<and> tasks s' r = Some t \<and> task_chan t \<noteq> None) \<Longrightarrow> next_chan s < next_chan s'"
    and mb: "mailbox s' = deliver sigs (mailbox s)" and ts: "only_task r (next_chan s) s s'"
    and ghost: "posted s' = posted s \<union> P" "ack_requests s' = ack_requests s \<union> K" "expired_ids s' = expired_ids s \<union> X"
    and fresh_task: "\<And>t. tasks s r = None \<Longrightarrow> tasks s' r = Some t \<Longrightarrow>
        task_begun (view (repository (waiting s))) (waiters_map (waiting s')) sigs (next_chan s) t"
  shows "relay_inv ops invar view s'"
proof -
  let ?m = "waiters_map (waiting s)" and ?m' = "waiters_map (waiting s')"
  have bal: "balanced ?m new ?m' sigs"
    and car: "carried (gone s) (message_signal P X) (ack_signal P K X) ?m ?m' sigs"
    and origin: "entries_from (view (repository (waiting s))) P K (view (repository (waiting s')))"
    and good: "good (waiting s')"
    using eff by (simp_all add: op_effect_def)
  have ok: "channels_ok s" and known: "entries_known (view (repository (waiting s))) (posted s) (ack_requests s)"
    using inv by (simp_all add: relay_inv_def)
  have d: "distinct (chans_of ?m)" and fresh: "next_chan s \<notin> set (chans_of ?m)"
    using ok by (auto simp: channels_ok_def)
  note bd = balanced_distinct[OF bal d new fresh]
  have old: "c \<notin> signal_chan ` set sigs" if "mailbox s c \<noteq> None" for c
  proof
    assume "c \<in> signal_chan ` set sigs"
    then have "c \<in> set (chans_of ?m) \<or> c = next_chan s" using bd(4) new by auto
    then show False using that ok unfolding channels_ok_def by (metis less_irrefl)
  qed
  have "tracked ?m' (mailbox s') (posted s') (ack_requests s') (expired_ids s') t" if t: "tasks s' j = Some t" for j t
  proof (cases "tasks s j = Some t")
    case False
    with only_taskD[OF ts t] t fresh_task have
      "task_begun (view (repository (waiting s))) ?m' sigs (next_chan s) t" by blast
    from tracked_new[OF this known bd(2)] show ?thesis by (simp add: mb ghost)
  next
    case tj: True
    have alive: "\<not> gone s c" if "task_chan t = Some c" for c
      using tj that by (auto simp: gone_def ran_def)
    have "tracked ?m (mailbox s) (posted s) (ack_requests s) (expired_ids s) t"
      using inv tj by (simp add: relay_inv_def)
    from tracked_step[OF this car alive bd(2) old] show ?thesis by (simp add: mb ghost)
  qed
  moreover have "entries_known (view (repository (waiting s'))) (posted s') (ack_requests s')"
    using entries_known_from[OF known origin] by (simp add: ghost)
  ultimately show ?thesis
    using good effect_channels[OF ok bal new next_chan used mb ts] by (simp add: relay_inv_def)
qed

lemma inv_tracked:
  "relay_inv ops invar view s \<Longrightarrow> tasks s r = Some t \<Longrightarrow>
   tracked (waiters_map (waiting s)) (mailbox s) (posted s) (ack_requests s) (expired_ids s) t"
  by (simp add: relay_inv_def)

text \<open>A step that only takes a task away, or moves it on to its ACK, keeps the invariant.\<close>

lemma task_inv:
  assumes inv: "relay_inv ops invar view s"
    and p: "ts = (tasks s)(r := None) \<or> (\<exists>k m. ts = (tasks s)(r \<mapsto> LinkAckTask k m) \<and> (k, m) \<in> posted s)"
  shows "relay_inv ops invar view (s\<lparr>tasks := ts\<rparr>)"
proof -
  have old: "tasks s j = Some t \<or> task_chan t = None \<and>
      tracked (waiters_map (waiting s)) (mailbox s) (posted s) (ack_requests s) (expired_ids s) t"
    if "ts j = Some t" for j t
    using p that by (cases "j = r") (auto simp: tracked_def)
  then have "channels_ok (s\<lparr>tasks := ts\<rparr>)"
    using inv unfolding relay_inv_def channels_ok_def by (simp, metis option.distinct(1))
  with old inv show ?thesis unfolding relay_inv_def by (simp, blast)
qed

lemma resume_progress:
  assumes inv: "relay_inv ops invar view s" and t: "tasks s r = Some t" "task_chan t = Some c"
    and p: "resume_task lib t (mailbox s c) = Some p"
  shows "(\<exists>resp. p = Answer resp) \<or> (\<exists>k m. p = Continue (LinkAckTask k m) \<and> (k, m) \<in> posted s)"
proof (cases t)
  case (LinkGetTask k d)
  have "c = d" using LinkGetTask t(2) by simp
  have ok: "message_signal (posted s) (expired_ids s) k sig" if "mailbox s c = Some sig" for sig
    using inv_tracked[OF inv t(1)] LinkGetTask that inv \<open>c = d\<close>
      chans_at[of "waiters_map (waiting s)" c k] goodD(4)[of "waiting s"]
    by (auto simp: tracked_def relay_inv_def channels_ok_def waiters_chans_def)
  obtain rec where rec: "read_message (mailbox s c) = Some rec" "p = link_progress k (link_get_resume lib rec)"
    using p LinkGetTask by auto
  show ?thesis
  proof (cases "mailbox s c")
    case None
    with rec show ?thesis by (auto simp: link_get_resume_def)
  next
    case (Some sig)
    with rec ok[OF Some] show ?thesis
      by (cases sig) (auto simp: link_get_resume_def message_signal_def)
  qed
qed (use p t in auto)

end

end
