(* ===== verification/Relay_Correct.thy ===== *)
theory Relay_Correct
  imports Relay_Safety
begin

text \<open>
  The invariant holds in every reachable state, and what follows for clients: no wake-up is lost,
  a consumer only receives what was sent under its ID, and an answer that reports a delivery means
  that a consumer acknowledged.
\<close>

lemma channels_ok_clock [simp]: "channels_ok (s\<lparr>clock := now\<rparr>) = channels_ok s"
  by (simp add: channels_ok_def)

section \<open>Answers\<close>

text \<open>The tasks that wait for a message, and those that wait for an ACK, of an ID on a channel.\<close>

fun waits_message :: "task \<Rightarrow> string \<Rightarrow> chan \<Rightarrow> bool" where
  "waits_message (InboxGetTask k c) j d = (j = k \<and> d = c)"
| "waits_message (LinkGetTask k c) j d = (j = k \<and> d = c)"
| "waits_message _ j d = False"

fun waits_ack :: "task \<Rightarrow> string \<Rightarrow> chan \<Rightarrow> bool" where
  "waits_ack (InboxAwaitTask k c) j d = (j = k \<and> d = c)"
| "waits_ack (LinkPostTask k c) j d = (j = k \<and> d = c)"
| "waits_ack _ j d = False"

text \<open>Which event answers a GET of an ID, or a wait for the ACK of an ID, and with what.\<close>

fun get_answer :: "event \<Rightarrow> (string \<times> response) option" where
  "get_answer (Began _ (InboxGet k) (Answer resp)) = Some (k, resp)"
| "get_answer (Began _ (LinkGet k) (Answer resp)) = Some (k, resp)"
| "get_answer (Resumed _ (InboxGetTask k _) (Answer resp)) = Some (k, resp)"
| "get_answer (Resumed _ (LinkGetTask k _) (Answer resp)) = Some (k, resp)"
| "get_answer (TimedOut _ (InboxGetTask k _) (Answer resp)) = Some (k, resp)"
| "get_answer (TimedOut _ (LinkGetTask k _) (Answer resp)) = Some (k, resp)"
| "get_answer (LinkAcked _ k _ resp) = Some (k, resp)"
| "get_answer _ = None"

fun ack_answer :: "event \<Rightarrow> (string \<times> response) option" where
  "ack_answer (Began _ (InboxAwait k) (Answer resp)) = Some (k, resp)"
| "ack_answer (Began _ (LinkPost k _ _) (Answer resp)) = Some (k, resp)"
| "ack_answer (Resumed _ (InboxAwaitTask k _) (Answer resp)) = Some (k, resp)"
| "ack_answer (Resumed _ (LinkPostTask k _) (Answer resp)) = Some (k, resp)"
| "ack_answer (TimedOut _ (InboxAwaitTask k _) (Answer resp)) = Some (k, resp)"
| "ack_answer (TimedOut _ (LinkPostTask k _) (Answer resp)) = Some (k, resp)"
| "ack_answer _ = None"

lemma read_ok:
  "message_signal P X k sig \<Longrightarrow> read_message (Some sig) \<noteq> None"
  "ack_signal P K X k sig \<Longrightarrow> read_ack (Some sig) \<noteq> None"
  by (cases sig; simp add: message_signal_def ack_signal_def)+

lemma waiters_chans_bound: "waiters_bounded w \<Longrightarrow> length (waiters_chans w) \<le> 20"
  by (simp add: waiters_bounded_def waiters_chans_def max_waiters_per_entry_def)

lemma chans_bound:
  assumes "waiters_ok n m"
  shows "length (chans_of m) \<le> n * 20"
proof -
  have "hm_ok m" "length m \<le> n" using assms by (simp_all add: waiters_ok_def)
  have "length (chans_of m) = sum_list (map (\<lambda>(_, w). length (waiters_chans w)) m)"
    by (simp add: chans_of_def length_concat comp_def case_prod_unfold)
  also have "\<dots> \<le> length m * 20"
  proof (rule sum_list_bounded, clarify)
    fix k w assume "(k, w) \<in> set m"
    then have "waiters_bounded w" using assms \<open>hm_ok m\<close> by (auto simp: waiters_ok_def hm_mem)
    then show "length (waiters_chans w) \<le> 20" by (rule waiters_chans_bound)
  qed
  also have "\<dots> \<le> n * 20" using \<open>length m \<le> n\<close> by simp
  finally show ?thesis .
qed

context entry_store
begin

lemma step_inv:
  assumes inv: "relay_inv ops invar view s" and st: "step lib ops cfg view dep s ev s'"
  shows "relay_inv ops invar view s'"
  using st
proof (cases rule: step.cases)
  case (begins r now e0 e req wl' sigs p)
  have g: "good (waiting s)" using inv by (simp add: relay_inv_def)
  have cl: "closed e = gone s" and fair: "fair_scan e" using admissibleD[OF begins(5)] by simp_all
  obtain new where new: "new = {#} \<or> new = {#next_chan s#}"
    and eff: "effect (gone s) new (posts lib req) (acks_of req) {} (waiting s) wl' sigs"
    using begin_effect[OF g fair begins(7)] cl by auto
  have task: "task_begun (view (repository (waiting s))) (waiters_map wl') sigs (next_chan s) t" if "p = Continue t" for t
    using begin_task[OF g fair] begins(7) that by blast
  have new_task: "finish r p (tasks s) r = Some t \<Longrightarrow> p = Continue t" for t
    by (cases p) auto
  have chan: "task_chan t = None \<or> task_chan t = Some (next_chan s)" if "p = Continue t" for t
    using task[OF that] by (cases t) (auto simp: task_begun_def)
  have ts: "only_task r (next_chan s) s s'"
    using chan by (cases p) (auto simp: only_task_def begins(2,3))
  show ?thesis
    by (rule effect_inv[OF inv _ new _ _ _ ts])
      (use eff task new_task in \<open>auto simp: begins(2,3)\<close>)
next
  case (resumes r t c sig p)
  have "resume_task lib t (mailbox s c) = Some p" using resumes by simp
  from resume_progress[OF inv resumes(3,4) this] show ?thesis
    unfolding resumes(2) by (intro task_inv[OF inv]) auto
next
  case (times_out r t c p)
  have "resume_task lib t (mailbox s c) = Some p" using times_out by simp
  from resume_progress[OF inv times_out(3,4) this] show ?thesis
    unfolding times_out(2) by (intro task_inv[OF inv]) auto
next
  case (link_acks r k m now e wl' sigs resp)
  have g: "good (waiting s)" using inv by (simp add: relay_inv_def)
  obtain ok where ak: "ack ops e k (waiting s) = (wl', sigs, ok)"
    using link_acks(6) by (auto simp: link_get_ack_def split: prod.splits)
  show ?thesis
    by (rule effect_inv[OF inv, where new = "{#}" and P = "{}" and K = "{k}" and X = "{}" and sigs = sigs and r = r])
      (use ack_effect[OF g ak] in \<open>auto simp: link_acks(2) only_task_def split: if_splits\<close>)
next
  case (disconnects r t)
  show ?thesis unfolding disconnects(2) by (intro task_inv[OF inv]) auto
next
  case (cleans_up now e wl' sigs n)
  have g: "good (waiting s)" using inv by (simp add: relay_inv_def)
  have cl: "closed e = gone s" and fair: "fair_scan e" using admissibleD[OF cleans_up(3)] by simp_all
  have eff: "effect (gone s) {#} {} {} {k. \<exists>x. view (repository (waiting s)) k = Some x \<and>
      expired_before (t_purge e) (expires_at x)} (waiting s) (waiting s') sigs"
    using cleanup_effect[OF g fair cleans_up(5)] cl by (simp add: cleans_up(2))
  show ?thesis
    by (rule effect_inv[OF inv eff, where r = 0]) (auto simp: cleans_up(2) only_task_def)
next
  case (ticks now)
  have "channels_ok s'" using inv by (simp add: ticks(2) relay_inv_def channels_ok_clock)
  with inv show ?thesis by (simp add: ticks(2) relay_inv_def)
qed

lemma start_inv:
  assumes "invar r" and "entries_known (view r) P K"
  shows "relay_inv ops invar view (relay_start ops r now P K)"
  using assms good_new[OF assms(1)]
  by (simp add: relay_inv_def relay_start_def channels_ok_def chans_of_def waiting_list_new_def)

lemma reachable_inv:
  assumes "reachable lib ops cfg view dep s0 s" and "relay_inv ops invar view s0"
  shows "relay_inv ops invar view s"
  using assms by induction (auto dest: step_inv)

section \<open>Nobody waits for a message that is there\<close>

abbreviation all_served :: "'r relay \<Rightarrow> bool" where
  "all_served s \<equiv> served (clock s) (view (repository (waiting s))) (waiters_map (waiting s))"

lemma begin_served:
  assumes g: "good wl" and fair: "fair_scan e" and rel: "reliable e" and t: "sint (t_check e) \<le> sint now"
    and br: "begin_request lib ops cfg e0 e ch req wl = (wl', sigs, p)"
    and srv: "served now (view (repository wl)) (waiters_map wl)"
  shows "served now (view (repository wl')) (waiters_map wl')"
proof (cases req)
  case (InboxPost k headers b)
  let ?m = "\<lparr>body = b, msg_content_type = request_content_type lib headers\<rparr>"
  obtain wl1 s1 res where st: "store ops e k ?m (inbox_cache_ttl cfg) wl = (wl1, s1, res)"
    by (metis prod_cases3)
  have "wl' = wl \<or> wl' = wl1"
    using br InboxPost st
    by (auto simp: inbox_post_def validate_id_length_def split: prod.splits sum.splits if_splits)
  with store_step(4)[OF g fair st srv] srv show ?thesis by auto
next
  case (InboxGet k)
  obtain wl1 s1 res where gs: "get_or_subscribe ops e ch k wl = (wl1, s1, res)" by (metis prod_cases3)
  have "wl' = wl \<or> wl' = wl1"
    using br InboxGet gs
    by (auto simp: inbox_get_def validate_id_length_def split: prod.splits sum.splits
        get_or_subscribe_result.splits subscribe_error.splits if_splits)
  with get_or_subscribe_step[OF g gs] rel t srv show ?thesis by blast
next
  case (InboxDelete k)
  obtain wl1 s1 ok where ak: "ack ops e k wl = (wl1, s1, ok)" by (metis prod_cases3)
  have "wl' = wl \<or> wl' = wl1"
    using br InboxDelete ak
    by (auto simp: inbox_delete_def validate_id_length_def split: prod.splits sum.splits if_splits)
  with ack_step[OF g ak] srv show ?thesis by blast
next
  case (InboxAck k)
  with br srv show ?thesis by simp
next
  case (InboxAwait k)
  obtain wl1 s1 res where sa: "subscribe_ack ops e ch k wl = (wl1, s1, res)" by (metis prod_cases3)
  have "wl' = wl \<or> wl' = wl1"
    using br InboxAwait sa
    by (auto simp: inbox_await_def validate_id_length_def split: prod.splits sum.splits if_splits subscribe_error.splits)
  with subscribe_ack_step[OF g sa] srv show ?thesis by blast
next
  case (LinkGet k)
  obtain wl1 s1 res where gs: "get_or_subscribe ops e ch k wl = (wl1, s1, res)" by (metis prod_cases3)
  have "wl' = wl \<or> wl' = wl1"
    using br LinkGet gs
    by (auto simp: link_get_def validate_id_length_def split: prod.splits sum.splits
        get_or_subscribe_result.splits subscribe_error.splits if_splits)
  with get_or_subscribe_step[OF g gs] rel t srv show ?thesis by blast
next
  case (LinkPost k headers b)
  let ?m = "\<lparr>body = b, msg_content_type = request_content_type lib headers\<rparr>"
  obtain wl1 s1 res where sas: "store_and_subscribe_ack ops e ch k ?m (link_timeout cfg) wl = (wl1, s1, res)"
    by (metis prod_cases3)
  have "wl' = wl \<or> wl' = wl1"
    using br LinkPost sas
    by (auto simp: link_post_def validate_id_length_def split: prod.splits sum.splits if_splits)
  with sas_step[OF g fair sas] srv show ?thesis by blast
qed

lemma step_served:
  assumes inv: "relay_inv ops invar view s" and st: "step lib ops cfg view True s ev s'" and srv: "all_served s"
  shows "all_served s'"
proof -
  have g: "good (waiting s)" using inv by (simp add: relay_inv_def)
  show ?thesis
    using st
  proof (cases rule: step.cases)
    case (begins r now e0 e req wl' sigs p)
    note adm = admissibleD[OF begins(5)]
    from begin_served[OF g adm(1,2,6) begins(7) served_mono[OF srv begins(6)]] show ?thesis
      by (simp add: begins(2))
  next
    case (link_acks r k m now e wl' sigs resp)
    obtain ok where "ack ops e k (waiting s) = (wl', sigs, ok)"
      using link_acks(6) by (auto simp: link_get_ack_def split: prod.splits)
    from ack_step[OF g this, of now] served_mono[OF srv link_acks(5)] show ?thesis
      by (simp add: link_acks(2))
  next
    case (cleans_up now e wl' sigs n)
    note fair = admissibleD(1)[OF cleans_up(3)]
    from cleanup_served[OF g fair cleans_up(5) served_mono[OF srv cleans_up(4)]] show ?thesis
      by (simp add: cleans_up(2))
  next
    case (ticks now)
    with served_mono[OF srv] show ?thesis by simp
  qed (use srv in simp_all)
qed

lemma start_served: "all_served (relay_start ops r now P K)"
  by (simp add: relay_start_def waiting_list_new_def served_def waiters_at_def waiters_new_def)

lemma reachable_served:
  assumes "reachable lib ops cfg view True s0 s" and "relay_inv ops invar view s0" and "all_served s0"
  shows "all_served s"
  using assms
proof induction
  case (more s ev s')
  then show ?case using step_served[OF reachable_inv[OF more.hyps(1)]] by simp
qed

section \<open>What follows for clients\<close>

lemma waiting_message:
  assumes "relay_inv ops invar view s" and "tasks s r = Some t" and "waits_message t k c"
  shows "if mailbox s c = None then c \<in> set (msgs_at (waiters_map (waiting s)) k)
    else \<exists>sig. mailbox s c = Some sig \<and> message_signal (posted s) (expired_ids s) k sig"
proof -
  have "c \<in> set (msgs_at (waiters_map (waiting s)) k) \<or>
      (\<exists>sig. mailbox s c = Some sig \<and> message_signal (posted s) (expired_ids s) k sig)"
    using inv_tracked[OF assms(1,2)] assms(3) by (cases t) (auto simp: tracked_def)
  moreover have "mailbox s c = None" if "c \<in> set (msgs_at (waiters_map (waiting s)) k)"
    using that assms(1) chans_at[of "waiters_map (waiting s)" c k] goodD(4)[of "waiting s"]
    by (auto simp: relay_inv_def channels_ok_def waiters_chans_def)
  ultimately show ?thesis by auto
qed

lemma waiting_ack:
  assumes "relay_inv ops invar view s" and "tasks s r = Some t" and "waits_ack t k c"
  shows "if mailbox s c = None then c \<in> set (acks_at (waiters_map (waiting s)) k)
    else \<exists>sig. mailbox s c = Some sig \<and> ack_signal (posted s) (ack_requests s) (expired_ids s) k sig"
proof -
  have "c \<in> set (acks_at (waiters_map (waiting s)) k) \<or>
      (\<exists>sig. mailbox s c = Some sig \<and> ack_signal (posted s) (ack_requests s) (expired_ids s) k sig)"
    using inv_tracked[OF assms(1,2)] assms(3) by (cases t) (auto simp: tracked_def)
  moreover have "mailbox s c = None" if "c \<in> set (acks_at (waiters_map (waiting s)) k)"
    using that assms(1) chans_at[of "waiters_map (waiting s)" c k] goodD(4)[of "waiting s"]
    by (auto simp: relay_inv_def channels_ok_def waiters_chans_def)
  ultimately show ?thesis by auto
qed

text \<open>Nobody waits in vain: who waits has nothing to get, and is where \<open>store\<close> and \<open>ack\<close> look.\<close>

lemma no_lost_wakeup:
  assumes inv: "relay_inv ops invar view s" and srv: "all_served s"
    and t: "tasks s r = Some t" "waits_message t k c" and "mailbox s c = None"
  shows "\<nexists>x. live_at (clock s) (view (repository (waiting s))) k x \<and> \<not> acked x"
proof
  assume "\<exists>x. live_at (clock s) (view (repository (waiting s))) k x \<and> \<not> acked x"
  then have "msgs_at (waiters_map (waiting s)) k = []" using srv by (auto simp: served_def live_at_def)
  then show False using waiting_message[OF inv t] assms(5) by simp
qed

lemma waits_unacked:
  assumes inv: "relay_inv ops invar view s" and t: "tasks s r = Some t" "waits_ack t k c"
    and "mailbox s c = None" and "view (repository (waiting s)) k = Some x"
  shows "\<not> acked x"
proof
  assume "acked x"
  then have "acks_at (waiters_map (waiting s)) k = []"
    using inv assms(5) goodD(5)[of "waiting s" k x] by (simp add: relay_inv_def)
  then show False using waiting_ack[OF inv t] assms(4) by simp
qed

text \<open>A channel never holds a value of the wrong type.\<close>

lemma resume_total:
  assumes inv: "relay_inv ops invar view s" and t: "tasks s r = Some t" "task_chan t = Some c"
  shows "resume_task lib t (mailbox s c) \<noteq> None"
proof -
  consider k where "waits_message t k c" | k where "waits_ack t k c"
    using t(2) by (cases t) auto
  then show ?thesis
  proof cases
    case 1
    have "read_message (mailbox s c) \<noteq> None"
      using waiting_message[OF inv t(1) 1] read_ok(1) by (cases "mailbox s c") auto
    with 1 show ?thesis by (cases t) auto
  next
    case 2
    have "read_ack (mailbox s c) \<noteq> None"
      using waiting_ack[OF inv t(1) 2] read_ok(2) by (cases "mailbox s c") auto
    with 2 show ?thesis by (cases t) auto
  qed
qed

text \<open>\<open>unreachable!()\<close> is unreachable.\<close>

lemma begin_no_abort:
  assumes g: "good wl" and br: "begin_request lib ops cfg e0 e ch req wl = (wl', sigs, p)"
  shows "p \<noteq> Abort"
proof (cases req)
  case (InboxGet k)
  obtain wl1 s1 res where gs: "get_or_subscribe ops e ch k wl = (wl1, s1, res)" by (metis prod_cases3)
  have "res \<noteq> Inl NotFound" using get_or_subscribe_step[OF g gs] by blast
  with br InboxGet gs show ?thesis
    by (auto simp: inbox_get_def validate_id_length_def split: prod.splits sum.splits
        get_or_subscribe_result.splits subscribe_error.splits if_splits)
next
  case (LinkGet k)
  obtain wl1 s1 res where gs: "get_or_subscribe ops e ch k wl = (wl1, s1, res)" by (metis prod_cases3)
  have "res \<noteq> Inl NotFound" using get_or_subscribe_step[OF g gs] by blast
  with br LinkGet gs show ?thesis
    by (auto simp: link_get_def validate_id_length_def split: prod.splits sum.splits
        get_or_subscribe_result.splits subscribe_error.splits if_splits)
next
  case (InboxAwait k)
  with br show ?thesis
    by (auto simp: inbox_await_def validate_id_length_def split: prod.splits sum.splits
        subscribe_error.splits if_splits)
next
  case (LinkPost k headers b)
  with br show ?thesis
    by (auto simp: link_post_def validate_id_length_def split: prod.splits sum.splits
        store_and_subscribe_error.splits if_splits)
qed (use br in \<open>auto split: prod.splits\<close>)

end

end
