(* ===== verification/Relay_Answers.thy ===== *)
theory Relay_Answers
  imports Relay_Correct
begin

text \<open>
  What an answer tells the client about the history: a GET that is answered 200 carries a message
  that was sent under its ID, an await that is answered 200 means that a consumer asked to ACK the
  ID, and a wait that ends with 404 has its reason.  Then the wake-ups that a POST and an ACK
  cause, and how much the relay stores.
\<close>

text \<open>
  How many entries the store can have: a store that starts with \<open>n\<close>, more than its limit \<open>cap\<close>
  because the limit was lowered, does not grow.
\<close>

definition store_bounded ::
    "('r, 'x) repo_ops \<Rightarrow> ('r \<Rightarrow> string \<rightharpoonup> stored_entry) \<Rightarrow> nat \<Rightarrow> nat \<Rightarrow> 'r waiting_list \<Rightarrow> bool" where
  "store_bounded ops view n cap wl \<longleftrightarrow>
     repo_max ops (repository wl) = cap \<and> card (dom (view (repository wl))) \<le> max n cap"

context entry_store
begin

lemma known_posted:
  assumes "relay_inv ops invar view s" and "view (repository (waiting s)) k = Some x" and "message_body x = Some b"
  shows "(k, \<lparr>body = b, msg_content_type = content_type x\<rparr>) \<in> posted s"
  using assms by (simp add: relay_inv_def entries_known_def)

lemma known_acked:
  "relay_inv ops invar view s \<Longrightarrow> view (repository (waiting s)) k = Some x \<Longrightarrow> acked x \<Longrightarrow> k \<in> ack_requests s"
  by (simp add: relay_inv_def entries_known_def)

text \<open>The immediate answers of a GET and of a wait for an ACK.\<close>

lemma inbox_get_answer:
  assumes inv: "relay_inv ops invar view s" and ig: "inbox_get lib ops e ch k (waiting s) = (wl', sigs, Responded resp)"
  shows "(\<exists>m. (k, m) \<in> posted s \<and> resp = message_response lib m) \<or> status resp \<in> {BAD_REQUEST, SERVICE_UNAVAILABLE}"
proof (cases "length k \<le> max_id_length")
  case True
  have g: "good (waiting s)" using inv by (simp add: relay_inv_def)
  show ?thesis
    using g True ig
  proof (cases rule: inbox_get_cases)
    case (found x b)
    from found(1) have resp: "resp = message_response lib \<lparr>body = b, msg_content_type = content_type x\<rparr>" by simp
    have "(k, \<lparr>body = b, msg_content_type = content_type x\<rparr>) \<in> posted s"
      using known_posted[OF inv _ found(5)] found(4) by (simp add: live_at_def)
    with resp show ?thesis by blast
  qed auto
qed (use ig in \<open>auto simp: inbox_get_def validate_id_length_def\<close>)

lemma link_get_answer:
  assumes inv: "relay_inv ops invar view s" and lg: "link_get lib ops e ch k (waiting s) = (wl', sigs, LinkResponded resp)"
  shows "status resp \<in> {BAD_REQUEST, SERVICE_UNAVAILABLE}"
proof (cases "length k \<le> max_id_length")
  case True
  have g: "good (waiting s)" using inv by (simp add: relay_inv_def)
  show ?thesis using g True lg by (cases rule: link_get_cases) auto
qed (use lg in \<open>auto simp: link_get_def validate_id_length_def\<close>)

lemma get_answer_cases:
  assumes inv: "relay_inv ops invar view s" and st: "step lib ops cfg view dep s ev s'"
    and ans: "get_answer ev = Some (k, resp)"
  shows "(\<exists>m. (k, m) \<in> posted s \<and> resp \<in> {message_response lib m, deprecated (message_response lib m)}) \<or>
    (status resp = NOT_FOUND \<and> k \<in> expired_ids s) \<or>
    status resp \<in> {BAD_REQUEST, REQUEST_TIMEOUT, SERVICE_UNAVAILABLE}"
  using st
proof (cases rule: step.cases)
  case (begins r now e0 e req wl' sigs p)
  then consider "req = InboxGet k" "p = Answer resp" | "req = LinkGet k" "p = Answer resp"
    using ans by (cases req; cases p) auto
  then show ?thesis
  proof cases
    case 1
    then obtain out where "inbox_get lib ops e (next_chan s) k (waiting s) = (wl', sigs, out)" "progress_of (InboxGetTask k) out = Answer resp"
      using begins(7) by (auto split: prod.splits)
    then have "inbox_get lib ops e (next_chan s) k (waiting s) = (wl', sigs, Responded resp)"
      by (cases out) auto
    from inbox_get_answer[OF inv this] show ?thesis by auto
  next
    case 2
    then obtain out where "link_get lib ops e (next_chan s) k (waiting s) = (wl', sigs, out)" "link_progress k out = Answer resp"
      using begins(7) by (auto split: prod.splits)
    then have "link_get lib ops e (next_chan s) k (waiting s) = (wl', sigs, LinkResponded resp)"
      by (cases out) auto
    from link_get_answer[OF inv this] show ?thesis by auto
  qed
next
  case (resumes r t c sig p)
  with ans have w: "waits_message t k c" and p: "p = Answer resp"
    by (cases t; cases p; simp)+
  have "message_signal (posted s) (expired_ids s) k sig"
    using waiting_message[OF inv resumes(3) w] resumes(5) by simp
  with resumes(6) w p show ?thesis
    by (cases t; cases sig) (auto simp: message_signal_def inbox_get_resume_def link_get_resume_def)
next
  case (times_out r t c p)
  with ans have "waits_message t k c" "p = Answer resp"
    by (cases t; cases p; simp)+
  with times_out(6) show ?thesis
    by (cases t) (auto simp: inbox_get_resume_def link_get_resume_def)
next
  case (link_acks r j m now e wl' sigs r2)
  have "tracked (waiters_map (waiting s)) (mailbox s) (posted s) (ack_requests s) (expired_ids s) (LinkAckTask j m)"
    by (rule inv_tracked[OF inv link_acks(3)])
  then have "(j, m) \<in> posted s" by (simp add: tracked_def)
  moreover have "r2 = deprecated (message_response lib m)"
    using link_acks(6) by (auto simp: link_get_ack_def split: prod.splits)
  ultimately show ?thesis using ans link_acks(1) by auto
qed (use ans in auto)

lemma inbox_await_answer:
  assumes inv: "relay_inv ops invar view s" and ia: "inbox_await lib ops e0 e ch k (waiting s) = (wl', sigs, Responded resp)"
    and ok: "status resp = STATUS_OK"
  shows "k \<in> ack_requests s"
proof -
  have "is_acked ops e0 k (waiting s) = Some True"
    using ia ok by (auto simp: inbox_await_def validate_id_length_def
        split: sum.splits if_splits prod.splits subscribe_error.splits)
  then obtain x where "repo_get ops e0 (repository (waiting s)) k = Inr (Some x)" "acked x"
    by (auto simp: is_acked_def split: sum.splits option.splits if_splits)
  moreover have "invar (repository (waiting s))" using inv goodD(1) by (simp add: relay_inv_def)
  ultimately show ?thesis using known_acked[OF inv] get_sound by metis
qed

lemma link_post_answer:
  assumes "link_post lib ops cfg e ch k headers b wl = (wl', sigs, Responded resp)"
  shows "status resp \<noteq> STATUS_OK"
  using assms by (auto simp: link_post_def validate_id_length_def
      split: sum.splits if_splits prod.splits store_and_subscribe_error.splits)

lemma ack_answer_ok:
  assumes inv: "relay_inv ops invar view s" and st: "step lib ops cfg view dep s ev s'"
    and ans: "ack_answer ev = Some (k, resp)" and ok: "status resp = STATUS_OK"
  shows "k \<in> ack_requests s"
  using st
proof (cases rule: step.cases)
  case (begins r now e0 e req wl' sigs p)
  then consider "req = InboxAwait k" "p = Answer resp" | h b where "req = LinkPost k h b" "p = Answer resp"
    using ans by (cases req; cases p) auto
  then show ?thesis
  proof cases
    case 1
    then obtain out where "inbox_await lib ops e0 e (next_chan s) k (waiting s) = (wl', sigs, out)" "progress_of (InboxAwaitTask k) out = Answer resp"
      using begins(7) by (auto split: prod.splits)
    then have "inbox_await lib ops e0 e (next_chan s) k (waiting s) = (wl', sigs, Responded resp)"
      by (cases out) auto
    from inbox_await_answer[OF inv this ok] show ?thesis .
  next
    case (2 h b)
    then obtain out where "link_post lib ops cfg e (next_chan s) k h b (waiting s) = (wl', sigs, out)" "progress_of (LinkPostTask k) out = Answer resp"
      using begins(7) by (auto split: prod.splits)
    then have "link_post lib ops cfg e (next_chan s) k h b (waiting s) = (wl', sigs, Responded resp)"
      by (cases out) auto
    from link_post_answer[OF this] ok show ?thesis by simp
  qed
next
  case (resumes r t c sig p)
  with ans have w: "waits_ack t k c" and p: "p = Answer resp"
    by (cases t; cases p; simp)+
  have "ack_signal (posted s) (ack_requests s) (expired_ids s) k sig"
    using waiting_ack[OF inv resumes(3) w] resumes(5) by simp
  with resumes(6) w p ok show ?thesis
    by (cases t; cases sig) (auto simp: ack_signal_def inbox_await_resume_def link_post_resume_def)
next
  case (times_out r t c p)
  with ans have "waits_ack t k c" "p = Answer resp"
    by (cases t; cases p; simp)+
  with times_out(6) ok show ?thesis
    by (cases t) (auto simp: inbox_await_resume_def link_post_resume_def)
qed (use ans in auto)

section \<open>Wake-ups\<close>

text \<open>The signals of a step reach the mailboxes.\<close>

lemma effect_deliver:
  assumes inv: "relay_inv ops invar view s" and eff: "effect cl new P K X (waiting s) wl' sigs"
    and new: "new = {#} \<or> new = {#next_chan s#}" and sig: "sig \<in> set sigs"
  shows "deliver sigs (mailbox s) (signal_chan sig) = Some sig"
proof -
  have "channels_ok s" using inv by (simp add: relay_inv_def)
  then have "distinct (chans_of (waiters_map (waiting s)))" "next_chan s \<notin> set (chans_of (waiters_map (waiting s)))"
    by (auto simp: channels_ok_def)
  moreover have "balanced (waiters_map (waiting s)) new (waiters_map wl') sigs"
    using eff by (simp add: op_effect_def)
  ultimately have "distinct (map signal_chan sigs)" using balanced_distinct(2) new by blast
  then show ?thesis using sig by (rule deliver_signal)
qed

text \<open>A POST that is answered 200 wakes every GET that waits for its ID, with its message.\<close>

lemma post_wakes:
  assumes inv: "relay_inv ops invar view s"
    and st: "step lib ops cfg view dep s (Began r0 (InboxPost k headers b) (Answer resp)) s'"
    and ok: "status resp = STATUS_OK"
    and t: "tasks s r = Some t" "waits_message t k c" and none: "mailbox s c = None"
  shows "mailbox s' c = Some (SentMessage c \<lparr>body = b, msg_content_type = request_content_type lib headers\<rparr>)"
  using st
proof (cases rule: step.cases)
  case (begins now e0 e wl' sigs)
  let ?m = "\<lparr>body = b, msg_content_type = request_content_type lib headers\<rparr>"
  have g: "good (waiting s)" using inv by (simp add: relay_inv_def)
  note fair = admissibleD(1)[OF begins(4)]
  have "store ops e k ?m (inbox_cache_ttl cfg) (waiting s) = (wl', sigs, Inr Stored)"
    using begins(6) ok by (auto simp: inbox_post_def validate_id_length_def Let_def
        split: prod.splits sum.splits if_splits insert_outcome.splits)
  note stored = store_stored(3)[OF g fair this, of c] and eff = store_effect[OF g fair this]
  have "c \<in> set (msgs_at (waiters_map (waiting s)) k)" using waiting_message[OF inv t] none by simp
  from effect_deliver[OF inv eff _ stored[OF this]] show ?thesis by (simp add: begins(1))
qed

text \<open>A DELETE that is answered 200 wakes every request that waits for the ACK of its ID.\<close>

lemma delete_wakes:
  assumes inv: "relay_inv ops invar view s"
    and st: "step lib ops cfg view dep s (Began r0 (InboxDelete k) (Answer resp)) s'"
    and ok: "status resp = STATUS_OK"
    and t: "tasks s r = Some t" "waits_ack t k c" and none: "mailbox s c = None"
  shows "mailbox s' c = Some (SentAck c)"
  using st
proof (cases rule: step.cases)
  case (begins now e0 e wl' sigs)
  have g: "good (waiting s)" using inv by (simp add: relay_inv_def)
  have ak: "ack ops e k (waiting s) = (wl', sigs, True)"
    using begins(6) ok by (auto simp: inbox_delete_def validate_id_length_def Let_def
        split: prod.splits sum.splits if_splits)
  have "c \<in> set (acks_at (waiters_map (waiting s)) k)" using waiting_ack[OF inv t] none by simp
  then have "SentAck c \<in> set sigs" using ack_done(2)[OF g ak] by simp
  from effect_deliver[OF inv ack_effect[OF g ak] _ this] show ?thesis by (simp add: begins(1))
qed

section \<open>How much is stored\<close>

abbreviation fits :: "nat \<Rightarrow> nat \<Rightarrow> 'r waiting_list \<Rightarrow> bool" where
  "fits \<equiv> store_bounded ops view"

lemma same_repo_fits: "repository wl' = repository wl \<Longrightarrow> fits n cap wl \<Longrightarrow> fits n cap wl'"
  by (simp add: store_bounded_def)

lemma store_fits:
  assumes g: "good wl" and fair: "fair_scan e" and st: "store ops e k m ttl wl = (wl', sigs, res)" and "fits n cap wl"
  shows "fits n cap wl'"
proof -
  obtain r where ins: "repo_insert ops e (repository wl) k (body m) (msg_content_type m)
        (t_store e + of_nat (as_millis ttl)) = (r, res)" and r: "repository wl' = r"
    using st by (auto simp: store_eq split: prod.splits if_splits)
  from insert_keeps[OF goodD(1)[OF g] fair ins] assms(4) show ?thesis by (auto simp: store_bounded_def r)
qed

lemma ack_fits:
  assumes g: "good wl" and ak: "ack ops e k wl = (wl', sigs, ok)" and "fits n cap wl"
  shows "fits n cap wl'"
  using g ak
proof (cases rule: ack_cases)
  case (acked s r)
  have "repository wl' = r" using acked(4) by (auto simp: wl_notify_ack_eq)
  moreover have "dom (view r) = dom (view (repository wl))"
    using acked(2,7) by (auto simp: live_at_def)
  ultimately show ?thesis using acked(6) assms(3) by (simp add: store_bounded_def)
qed (use assms(3) in \<open>auto simp: store_bounded_def\<close>)

lemma ensure_repo: "ensure_waiter_capacity e k wl = (wl', sigs, res) \<Longrightarrow> repository wl' = repository wl"
  by (auto simp: ensure_waiter_capacity_def remove_closed_waiters_def Let_def split: if_splits option.splits)

lemma waiters_for_repo: "waiters_for e k wl = (wl', sigs, res) \<Longrightarrow> repository wl' = repository wl"
  by (auto simp: waiters_for_def dest!: ensure_repo split: prod.splits sum.splits option.splits)

lemma subscribe_ack_repo: "subscribe_ack ops e ch k wl = (wl', sigs, res) \<Longrightarrow> repository wl' = repository wl"
  by (auto simp: subscribe_ack_def Let_def dest!: waiters_for_repo split: prod.splits sum.splits option.splits if_splits)

lemma get_or_subscribe_repo: "get_or_subscribe ops e ch k wl = (wl', sigs, res) \<Longrightarrow> repository wl' = repository wl"
  by (auto simp: get_or_subscribe_def Let_def dest!: waiters_for_repo split: prod.splits sum.splits option.splits if_splits)

lemma sas_fits:
  assumes g: "good wl" and fair: "fair_scan e" and sas: "store_and_subscribe_ack ops e ch k m ttl wl = (wl', sigs, res)"
    and "fits n cap wl"
  shows "fits n cap wl'"
proof -
  obtain wl1 s1 r1 where en: "ensure_waiter_capacity e k wl = (wl1, s1, r1)" by (metis prod_cases3)
  have f1: "fits n cap wl1" using same_repo_fits[OF ensure_repo[OF en] assms(4)] .
  show ?thesis
  proof (cases r1)
    case (Inl err)
    with sas en f1 show ?thesis by (auto simp: store_and_subscribe_ack_def)
  next
    case (Inr u)
    obtain wl2 s2 r2 where st: "store ops e k m ttl wl1 = (wl2, s2, r2)" by (metis prod_cases3)
    have f2: "fits n cap wl2" by (rule store_fits[OF conjunct1[OF ensure_good[OF g en]] fair st f1])
    obtain wl3 s3 r3 where sa: "subscribe_ack ops e ch k wl2 = (wl3, s3, r3)" by (metis prod_cases3)
    have "fits n cap wl3" using same_repo_fits[OF subscribe_ack_repo[OF sa] f2] .
    with sas en Inr st sa f2 show ?thesis
      by (auto simp: store_and_subscribe_ack_def split: sum.splits insert_outcome.splits)
  qed
qed

lemma cleanup_fits:
  assumes g: "good wl" and fair: "fair_scan e" and cl: "cleanup_expired ops e wl = (wl', sigs, m)" and "fits n cap wl"
  shows "fits n cap wl'"
proof -
  obtain X where v: "view (repository wl') = view (repository wl) |` (- X)" and g': "good wl'"
    and m: "max_waiting_ids wl' = max_waiting_ids wl"
    using cleanup_spec[OF g fair cl] by blast
  have "card (dom (view (repository wl'))) \<le> card (dom (view (repository wl)))"
    using finite_view[OF goodD(1)[OF g]] by (auto simp: v intro!: card_mono)
  then show ?thesis using assms(4) m goodD(2)[OF g] goodD(2)[OF g'] by (simp add: store_bounded_def)
qed

lemma begin_fits:
  assumes g: "good wl" and fair: "fair_scan e" and br: "begin_request lib ops cfg e0 e ch req wl = (wl', sigs, p)"
    and f: "fits n cap wl"
  shows "fits n cap wl'"
proof (cases req)
  case (InboxPost k h b)
  with br f show ?thesis
    by (auto simp: inbox_post_def Let_def dest!: store_fits[OF g fair] split: sum.splits prod.splits)
next
  case (InboxGet k)
  obtain wl1 s1 r where gs: "get_or_subscribe ops e ch k wl = (wl1, s1, r)" by (metis prod_cases3)
  have "fits n cap wl1" using same_repo_fits[OF get_or_subscribe_repo[OF gs] f] .
  with InboxGet br f gs show ?thesis
    by (auto simp: inbox_get_def split: sum.splits prod.splits get_or_subscribe_result.splits subscribe_error.splits)
next
  case (InboxDelete k)
  with br f show ?thesis
    by (auto simp: inbox_delete_def Let_def dest!: ack_fits[OF g] split: sum.splits prod.splits)
next
  case (InboxAwait k)
  obtain wl1 s1 r where sa: "subscribe_ack ops e ch k wl = (wl1, s1, r)" by (metis prod_cases3)
  have "fits n cap wl1" using same_repo_fits[OF subscribe_ack_repo[OF sa] f] .
  with InboxAwait br f sa show ?thesis
    by (auto simp: inbox_await_def split: sum.splits prod.splits subscribe_error.splits if_splits)
next
  case (LinkGet k)
  obtain wl1 s1 r where gs: "get_or_subscribe ops e ch k wl = (wl1, s1, r)" by (metis prod_cases3)
  have "fits n cap wl1" using same_repo_fits[OF get_or_subscribe_repo[OF gs] f] .
  with LinkGet br f gs show ?thesis
    by (auto simp: link_get_def split: sum.splits prod.splits get_or_subscribe_result.splits subscribe_error.splits)
next
  case (LinkPost k h b)
  with br f show ?thesis
    by (auto simp: link_post_def Let_def dest!: sas_fits[OF g fair] split: sum.splits prod.splits)
qed (use br f in auto)

lemma reachable_fits:
  assumes "reachable lib ops cfg view dep s0 s" and "relay_inv ops invar view s0" and "fits n cap (waiting s0)"
  shows "fits n cap (waiting s)"
  using assms(1,3)
proof induction
  case (more s ev s')
  note f = more.IH[OF more.prems]
  have g: "good (waiting s)" using reachable_inv[OF more.hyps(1) assms(2)] by (simp add: relay_inv_def)
  from more.hyps(2) show ?case
  proof (cases rule: step.cases)
    case (begins r now e0 e req wl' sigs p)
    from begin_fits[OF g admissibleD(1)[OF begins(5)] begins(7) f] show ?thesis by (simp add: begins(2))
  next
    case (link_acks r k m now e wl' sigs resp)
    then obtain ok where "ack ops e k (waiting s) = (wl', sigs, ok)"
      by (auto simp: link_get_ack_def split: prod.splits)
    from ack_fits[OF g this f] show ?thesis by (simp add: link_acks(2))
  next
    case (cleans_up now e wl' sigs m)
    from cleanup_fits[OF g admissibleD(1)[OF cleans_up(3)] cleans_up(5) f] show ?thesis by (simp add: cleans_up(2))
  qed (use f in simp_all)
qed

lemma waiting_bound:
  "relay_inv ops invar view s \<Longrightarrow> length (chans_of (waiters_map (waiting s))) \<le> max_waiting_ids (waiting s) * 20"
  using chans_bound goodD(3) by (auto simp: relay_inv_def)

end

end
