(* ===== verification/Simulation.thy ===== *)
theory Simulation
  imports Relay_Prelude
begin

text \<open>
  Runs of labelled transition systems, and forward simulation as an interface: a provider shows
  that every single step of the concrete system is matched, and gets that every run is.
\<close>

inductive trace :: "('s \<Rightarrow> 'e \<Rightarrow> 's \<Rightarrow> bool) \<Rightarrow> 's \<Rightarrow> 'e list \<Rightarrow> 's \<Rightarrow> bool" for step where
  idle: "trace step s [] s"
| onward: "trace step s evs s' \<Longrightarrow> step s' ev s'' \<Longrightarrow> trace step s (evs @ [ev]) s''"

inductive_simps trace_Nil [simp]: "trace step s [] s'"

lemma trace_single: "step s ev s' \<Longrightarrow> trace step s [ev] s'"
  using trace.onward[OF trace.idle, of step s ev s'] by simp

lemma trace_append: "trace step s1 evs2 s2 \<Longrightarrow> trace step s evs1 s1 \<Longrightarrow> trace step s (evs1 @ evs2) s2"
proof (induction rule: trace.induct)
  case (onward s' evs s'' ev s3)
  then show ?case using trace.onward[of step s "evs1 @ evs" s''] by simp
qed simp

lemma trace_Cons: "step s ev s1 \<Longrightarrow> trace step s1 evs s' \<Longrightarrow> trace step s (ev # evs) s'"
  using trace_append[OF _ trace_single, of step s1 evs s' s ev] by simp

lemma trace_snocE:
  assumes "trace step s (evs @ [ev]) s''"
  obtains s' where "trace step s evs s'" "step s' ev s''"
  using assms by (cases rule: trace.cases) auto

text \<open>
  Every step takes at least as much from a measure as its event costs, so a run never costs more
  than the measure at its start.
\<close>

lemma trace_measure:
  assumes "trace step s evs s'"
    and "\<And>u ev u'. step u ev u' \<Longrightarrow> ev \<in> set evs \<Longrightarrow> cost ev + rank u' \<le> (rank u :: nat)"
  shows "sum_list (map cost evs) + rank s' \<le> rank s"
  using assms
proof (induction rule: trace.induct)
  case (onward s evs s' ev s'')
  have "sum_list (map cost evs) + rank s' \<le> rank s" using onward.IH onward.prems by fastforce
  moreover have "cost ev + rank s'' \<le> rank s'" using onward.prems[OF onward.hyps(2)] by simp
  ultimately show ?case by simp
qed simp

locale forward_simulation =
  fixes step1 :: "'s \<Rightarrow> 'e \<Rightarrow> 's \<Rightarrow> bool" and step2 :: "'t \<Rightarrow> 'f \<Rightarrow> 't \<Rightarrow> bool"
    and good :: "'s \<Rightarrow> bool" and absf :: "'s \<Rightarrow> 't" and match :: "'e \<Rightarrow> 'f \<Rightarrow> bool"
  assumes good_step: "good s \<Longrightarrow> step1 s ev s' \<Longrightarrow> good s'"
    and simulate: "good s \<Longrightarrow> step1 s ev s' \<Longrightarrow> \<exists>f. step2 (absf s) f (absf s') \<and> match ev f"
begin

lemma good_trace: "trace step1 s evs s' \<Longrightarrow> good s \<Longrightarrow> good s'"
  by (induction rule: trace.induct) (auto dest: good_step)

lemma simulate_trace:
  "trace step1 s evs s' \<Longrightarrow> good s \<Longrightarrow> \<exists>fs. trace step2 (absf s) fs (absf s') \<and> list_all2 match evs fs"
proof (induction rule: trace.induct)
  case (onward s evs s' ev s'')
  then obtain fs where fs: "trace step2 (absf s) fs (absf s')" "list_all2 match evs fs" by blast
  obtain f where "step2 (absf s') f (absf s'')" "match ev f"
    using simulate[OF good_trace[OF onward.hyps(1) onward.prems] onward.hyps(2)] by blast
  with fs show ?case
    by (intro exI[of _ "fs @ [f]"]) (auto intro: trace.onward list_all2_appendI)
qed (auto intro: trace.idle)

end

end
