(* ===== verification/Relay_Progress.thy ===== *)
theory Relay_Progress
  imports Relay_Answers Simulation
begin

text \<open>
  How long a request can go on.  \<open>task_rank\<close> bounds the steps that a request still takes itself;
  the steps of all other requests, the clean-up and the clock leave it alone.
\<close>

fun task_rank :: "task option \<Rightarrow> nat" where
  "task_rank None = 0"
| "task_rank (Some (LinkGetTask _ _)) = 2"
| "task_rank (Some _) = 1"

text \<open>The steps that a request takes itself after its first one.\<close>

fun steps_of :: "nat \<Rightarrow> event \<Rightarrow> bool" where
  "steps_of r (Resumed r' _ _) = (r' = r)"
| "steps_of r (TimedOut r' _ _) = (r' = r)"
| "steps_of r (LinkAcked r' _ _ _) = (r' = r)"
| "steps_of r (Disconnected r') = (r' = r)"
| "steps_of r _ = False"

fun begins_of :: "nat \<Rightarrow> event \<Rightarrow> bool" where
  "begins_of r (Began r' _ _) = (r' = r)"
| "begins_of r _ = False"

lemma finish_other: "r' \<noteq> r \<Longrightarrow> finish r' p ts r = ts r"
  by (cases p) auto

text \<open>A wait ends with an answer, or with the ACK that a link consumer still has to send.\<close>

lemma resume_rank:
  assumes "resume_task lib t sig = Some p"
  shows "Suc (task_rank (finish r p ts r)) \<le> task_rank (Some t)"
proof (cases t)
  case (LinkGetTask k c)
  then obtain rec where "p = link_progress k (link_get_resume lib rec)" using assms by auto
  then show ?thesis by (cases rec) (simp_all add: LinkGetTask link_get_resume_def)
qed (use assms in auto)

lemma step_rank:
  assumes "step lib ops cfg view dep s ev s'" and "\<not> begins_of r ev"
  shows "(if steps_of r ev then 1 else 0) + task_rank (tasks s' r) \<le> task_rank (tasks s r)"
  using assms(1)
proof (cases rule: step.cases)
  case (begins r0 now e0 e req wl' sigs p)
  with assms(2) show ?thesis by (simp add: finish_other)
next
  case (resumes r0 t c sig p)
  show ?thesis
    using resume_rank[OF resumes(6), of r "tasks s"] resumes(1-3) by (cases "r0 = r") (simp_all add: finish_other)
next
  case (times_out r0 t c p)
  show ?thesis
    using resume_rank[OF times_out(6), of r "tasks s"] times_out(1-3) by (cases "r0 = r") (simp_all add: finish_other)
next
  case (disconnects r0 t)
  then show ?thesis by (cases "r0 = r"; cases t) simp_all
qed auto

lemma request_steps:
  assumes "trace (step lib ops cfg view dep) s evs s'" and "\<forall>ev \<in> set evs. \<not> begins_of r ev"
  shows "length (filter (steps_of r) evs) + task_rank (tasks s' r) \<le> task_rank (tasks s r)"
proof -
  have len: "length (filter (steps_of r) evs) = sum_list (map (\<lambda>ev. if steps_of r ev then 1 else 0) evs)"
    by (induction evs) auto
  show ?thesis
    unfolding len
    by (rule trace_measure[OF assms(1), where rank = "\<lambda>u. task_rank (tasks u r)"])
      (use step_rank assms(2) in blast)
qed

lemma task_rank_le: "task_rank t \<le> 2"
  by (cases t rule: task_rank.cases) auto

lemma reachable_trace:
  "reachable lib ops cfg view dep s0 s \<longleftrightarrow> (\<exists>evs. trace (step lib ops cfg view dep) s0 evs s)"
proof
  assume "reachable lib ops cfg view dep s0 s"
  then show "\<exists>evs. trace (step lib ops cfg view dep) s0 evs s"
    by induction (blast intro: trace.intros)+
next
  assume "\<exists>evs. trace (step lib ops cfg view dep) s0 evs s"
  then obtain evs where "trace (step lib ops cfg view dep) s0 evs s" by blast
  then show "reachable lib ops cfg view dep s0 s"
    by induction (blast intro: reachable.intros)+
qed

end
