(* ===== verification/Relay_Machine.thy ===== *)
theory Relay_Machine
  imports Relay_Progress "HOL-Library.State_Monad"
begin

text \<open>
  An executable scheduler for \<open>Relay_System\<close>: a deterministic machine on association lists that runs
  requests one step at a time, with a clock that scripts advance and a deadline for every wait.
  Scripts are programs in the state monad.  \<open>replays\<close> says that a script only does what the
  transition system can do; the theories \<open>Test_*\<close> run the test suite of the repository on it.
\<close>

section \<open>State\<close>

text \<open>
  \<open>m_tasks\<close> has the deadline of each wait, \<open>m_held\<close> the receivers that a test keeps for itself.
  \<open>m_failed\<close> is set by a failed assertion or a panic and never reset.
\<close>

record 'r machine =
  m_waiting :: "'r waiting_list"
  m_mailbox :: "(chan, signal) hash_map"
  m_tasks :: "(nat, task \<times> i64) hash_map"
  m_answers :: "(nat, response) hash_map"
  m_held :: "chan list"
  m_next :: chan
  m_count :: nat
  m_clock :: i64
  m_failed :: bool

type_synonym ('r, 'a) script = "('r machine, 'a) state"

definition machine_new :: "('r, 'x) repo_ops \<Rightarrow> 'r \<Rightarrow> 'r machine" where
  "machine_new ops r = \<lparr>m_waiting = waiting_list_new ops r, m_mailbox = [], m_tasks = [], m_answers = [],
     m_held = [], m_next = 0, m_count = 0, m_clock = 0, m_failed = False\<rparr>"

definition passes :: "('r, 'a) script \<Rightarrow> 'r machine \<Rightarrow> bool" where
  "passes script m \<longleftrightarrow> \<not> m_failed (snd (run_state script m))"

text \<open>A receiver is gone when neither a request nor the test holds it.\<close>

definition m_gone :: "'r machine \<Rightarrow> chan \<Rightarrow> bool" where
  "m_gone m c \<longleftrightarrow> c < m_next m \<and> c \<notin> set (m_held m) \<and>
     list_all (\<lambda>(_, t, _). task_chan t \<noteq> Some c) (m_tasks m)"

definition m_env :: "'r machine \<Rightarrow> 'x env" where
  "m_env m = calm_env (m_clock m) (nat (sint (m_clock m)) * 1000000) (m_gone m)"

definition m_deliver :: "signal list \<Rightarrow> (chan, signal) hash_map \<Rightarrow> (chan, signal) hash_map" where
  "m_deliver sigs mb = foldr (\<lambda>s. hm_insert (signal_chan s) s) sigs mb"

text \<open>The time that a task may take; the ACK of a link consumer takes none.\<close>

fun task_timeout :: "'net config \<Rightarrow> task \<Rightarrow> duration" where
  "task_timeout cfg (InboxGetTask _ _) = inbox_get_wait cfg"
| "task_timeout cfg (InboxAwaitTask _ _) = inbox_await_wait cfg"
| "task_timeout cfg (LinkGetTask _ _) = link_get_wait cfg"
| "task_timeout cfg (LinkPostTask _ _) = link_post_wait cfg"
| "task_timeout cfg (LinkAckTask _ _) = 0"

fun m_settle :: "'net config \<Rightarrow> nat \<Rightarrow> progress \<Rightarrow> 'r machine \<Rightarrow> 'r machine" where
  "m_settle cfg r (Answer resp) m =
     m\<lparr>m_tasks := hm_remove r (m_tasks m), m_answers := hm_insert r resp (m_answers m)\<rparr>"
| "m_settle cfg r (Continue t) m =
     m\<lparr>m_tasks := hm_insert r (t, m_clock m + of_nat (as_millis (task_timeout cfg t))) (m_tasks m)\<rparr>"
| "m_settle cfg r Abort m = m\<lparr>m_tasks := hm_remove r (m_tasks m), m_failed := True\<rparr>"

section \<open>Scripts\<close>

definition fail :: "('r, unit) script" where
  "fail = State (\<lambda>m. ((), m\<lparr>m_failed := True\<rparr>))"

definition assert_that :: "bool \<Rightarrow> ('r, unit) script" where
  "assert_that b = (if b then State_Monad.return () else fail)"

text \<open>Time passes.\<close>

definition sleep_until :: "i64 \<Rightarrow> ('r, unit) script" where
  "sleep_until t = State (\<lambda>m. ((), if sint (m_clock m) \<le> sint t then m\<lparr>m_clock := t\<rparr> else m))"

definition sleep :: "nat \<Rightarrow> ('r, unit) script" where
  "sleep millis = State_Monad.bind State_Monad.get (\<lambda>m. sleep_until (m_clock m + of_nat millis))"

text \<open>A request arrives: its first lock section.  The script gets the number of the request.\<close>

definition send :: "http_lib \<Rightarrow> ('r, 'x) repo_ops \<Rightarrow> 'net config \<Rightarrow> request \<Rightarrow> ('r, nat) script" where
  "send lib ops cfg req = State (\<lambda>m.
     let (wl', sigs, p) = begin_request lib ops cfg (m_env m) (m_env m) (m_next m) req (m_waiting m);
         r = m_count m
     in (r, m_settle cfg r p (m\<lparr>m_waiting := wl', m_mailbox := m_deliver sigs (m_mailbox m),
              m_next := Suc (m_next m), m_count := Suc r\<rparr>)))"

text \<open>
  The next step of a request in progress: its ACK, its wake-up, or else its time-out, for which it
  sleeps until the deadline.
\<close>

definition resume_at :: "http_lib \<Rightarrow> 'net config \<Rightarrow> nat \<Rightarrow> task \<Rightarrow> chan \<Rightarrow> ('r, unit) script" where
  "resume_at lib cfg r t c = State (\<lambda>m.
     ((), case resume_task lib t (map_of (m_mailbox m) c) of
            None \<Rightarrow> m\<lparr>m_failed := True\<rparr> | Some p \<Rightarrow> m_settle cfg r p m))"

definition ack_at :: "http_lib \<Rightarrow> ('r, 'x) repo_ops \<Rightarrow> nat \<Rightarrow> string \<Rightarrow> message \<Rightarrow> ('r, unit) script" where
  "ack_at lib ops r k msg = State (\<lambda>m.
     let (wl', sigs, resp) = link_get_ack lib ops (m_env m) k msg (m_waiting m)
     in ((), m\<lparr>m_waiting := wl', m_mailbox := m_deliver sigs (m_mailbox m),
               m_tasks := hm_remove r (m_tasks m), m_answers := hm_insert r resp (m_answers m)\<rparr>))"

definition move_on :: "http_lib \<Rightarrow> ('r, 'x) repo_ops \<Rightarrow> 'net config \<Rightarrow> nat \<Rightarrow> ('r, unit) script" where
  "move_on lib ops cfg r = State_Monad.bind State_Monad.get (\<lambda>m.
     case map_of (m_tasks m) r of
       None \<Rightarrow> State_Monad.return ()
     | Some (LinkAckTask k msg, _) \<Rightarrow> ack_at lib ops r k msg
     | Some (t, deadline) \<Rightarrow>
         (case task_chan t of
            None \<Rightarrow> State_Monad.return ()
          | Some c \<Rightarrow>
              if map_of (m_mailbox m) c = None
              then State_Monad.bind (sleep_until deadline) (\<lambda>_. resume_at lib cfg r t c)
              else resume_at lib cfg r t c))"

text \<open>A request has at most two steps left (\<open>task_rank\<close>); then its answer is there.\<close>

definition await_answer :: "http_lib \<Rightarrow> ('r, 'x) repo_ops \<Rightarrow> 'net config \<Rightarrow> nat \<Rightarrow> ('r, response) script" where
  "await_answer lib ops cfg r = do {
     move_on lib ops cfg r;
     move_on lib ops cfg r;
     m \<leftarrow> State_Monad.get;
     case map_of (m_answers m) r of
       Some resp \<Rightarrow> State_Monad.return resp
     | None \<Rightarrow> do { fail; State_Monad.return (into_response lib INTERNAL_SERVER_ERROR []) } }"

definition request_answer :: "http_lib \<Rightarrow> ('r, 'x) repo_ops \<Rightarrow> 'net config \<Rightarrow> request \<Rightarrow> ('r, response) script" where
  "request_answer lib ops cfg req = do { r \<leftarrow> send lib ops cfg req; await_answer lib ops cfg r }"

definition clean :: "('r, 'x) repo_ops \<Rightarrow> ('r, nat) script" where
  "clean ops = State (\<lambda>m.
     let (wl', sigs, n) = cleanup_expired ops (m_env m) (m_waiting m)
     in (n, m\<lparr>m_waiting := wl', m_mailbox := m_deliver sigs (m_mailbox m)\<rparr>))"

definition leave :: "nat \<Rightarrow> ('r, unit) script" where
  "leave r = State (\<lambda>m. ((), m\<lparr>m_tasks := hm_remove r (m_tasks m)\<rparr>))"

lemmas script_defs [relay_defs] =
  fail_def assert_that_def sleep_until_def sleep_def send_def resume_at_def ack_at_def move_on_def
  await_answer_def request_answer_def clean_def leave_def

section \<open>Scripts only do what the relay can do\<close>

text \<open>
  \<open>agrees m s\<close>: the machine \<open>m\<close> is in the state \<open>s\<close> of the transition system, and the test holds no
  receiver itself.
\<close>

definition agrees :: "'r machine \<Rightarrow> 'r relay \<Rightarrow> bool" where
  "agrees m s \<longleftrightarrow>
     waiting s = m_waiting m \<and> mailbox s = map_of (m_mailbox m) \<and>
     (\<forall>r. tasks s r = map_option fst (map_of (m_tasks m) r)) \<and>
     next_chan s = m_next m \<and> clock s = m_clock m \<and> m_held m = [] \<and> hm_ok (m_tasks m) \<and>
     (\<forall>r \<ge> m_count m. map_of (m_tasks m) r = None)"

lemma agrees_new: "agrees (machine_new ops r) (relay_start ops r 0 P K)"
  by (simp add: agrees_def machine_new_def relay_start_def)

lemma agrees_gone:
  assumes "agrees m s"
  shows "m_gone m = gone s"
proof -
  have "ran (tasks s) = (\<lambda>(_, t, _). t) ` set (m_tasks m)"
  proof (intro equalityI subsetI)
    fix t assume "t \<in> ran (tasks s)"
    then obtain r d where "map_of (m_tasks m) r = Some (t, d)" using assms by (auto simp: agrees_def ran_def)
    then show "t \<in> (\<lambda>(_, t, _). t) ` set (m_tasks m)" by (auto dest!: map_of_SomeD intro!: rev_image_eqI)
  next
    fix t assume "t \<in> (\<lambda>(_, t, _). t) ` set (m_tasks m)"
    then obtain r d where "(r, t, d) \<in> set (m_tasks m)" by auto
    then have "tasks s r = Some t" using assms by (simp add: agrees_def hm_mem)
    then show "t \<in> ran (tasks s)" by (rule ranI)
  qed
  then show ?thesis
    using assms by (simp add: agrees_def m_gone_def gone_def fun_eq_iff list_all_iff case_prod_unfold)
qed

lemma agrees_env: "agrees m s \<Longrightarrow> sint (clock s) \<le> sint now \<Longrightarrow> admissible dep s now (m_env m)"
  by (simp add: m_env_def agrees_gone calm_admissible) (simp add: agrees_def calm_admissible)

lemma m_deliver_map: "map_of (m_deliver sigs mb) = deliver sigs (map_of mb)"
  by (induction sigs) (simp_all add: m_deliver_def deliver_def hm_get_insert fun_eq_iff)

text \<open>Settling a request of the machine is \<open>finish\<close>.\<close>

lemma agrees_settle:
  assumes "agrees m s" and "r < m_count m"
  shows "agrees (m_settle cfg r p m) (s\<lparr>tasks := finish r p (tasks s)\<rparr>)"
  using assms by (cases p) (auto simp: agrees_def hm_simps)

definition replays ::
    "http_lib \<Rightarrow> ('r, 'x) repo_ops \<Rightarrow> 'net config \<Rightarrow> ('r \<Rightarrow> string \<rightharpoonup> stored_entry) \<Rightarrow> ('r, 'a) script \<Rightarrow> bool" where
  "replays lib ops cfg view script \<longleftrightarrow>
     (\<forall>m s. agrees m s \<longrightarrow> (\<exists>evs s'. trace (step lib ops cfg view True) s evs s' \<and> agrees (snd (run_state script m)) s'))"

lemma replaysI:
  "(\<And>m s. agrees m s \<Longrightarrow> \<exists>evs s'. trace (step lib ops cfg view True) s evs s' \<and> agrees (snd (run_state script m)) s') \<Longrightarrow>
   replays lib ops cfg view script"
  by (simp add: replays_def)

lemma replays_one:
  "(\<And>m s. agrees m s \<Longrightarrow> \<exists>ev s'. step lib ops cfg view True s ev s' \<and> agrees (snd (run_state script m)) s') \<Longrightarrow>
   replays lib ops cfg view script"
  unfolding replays_def by (meson trace_single)

lemma replays_silent:
  "(\<And>m s. agrees m s \<Longrightarrow> agrees (snd (run_state script m)) s) \<Longrightarrow> replays lib ops cfg view script"
  unfolding replays_def by (blast intro: trace.idle)

lemma replays_return [simp]: "replays lib ops cfg view (State_Monad.return x)"
  by (rule replays_silent) simp

lemma replays_get [simp]: "replays lib ops cfg view State_Monad.get"
  by (rule replays_silent) simp

lemma replays_bind [intro]:
  assumes "replays lib ops cfg view script" and "\<And>x. replays lib ops cfg view (f x)"
  shows "replays lib ops cfg view (State_Monad.bind script f)"
proof (rule replaysI)
  fix m :: "'a machine" and s
  assume "agrees m s"
  then obtain evs s1 where 1: "trace (step lib ops cfg view True) s evs s1" "agrees (snd (run_state script m)) s1"
    using assms(1) unfolding replays_def by blast
  then obtain evs2 s2 where "trace (step lib ops cfg view True) s1 evs2 s2"
    "agrees (snd (run_state (f (fst (run_state script m))) (snd (run_state script m)))) s2"
    using assms(2) unfolding replays_def by blast
  with 1(1) show "\<exists>evs s'. trace (step lib ops cfg view True) s evs s' \<and>
      agrees (snd (run_state (State_Monad.bind script f) m)) s'"
    by (intro exI conjI) (rule trace_append, assumption+, simp add: case_prod_unfold)
qed

lemma replays_fail [simp]: "replays lib ops cfg view fail"
  by (rule replays_silent) (simp add: fail_def agrees_def)

lemma replays_assert [simp]: "replays lib ops cfg view (assert_that b)"
  by (simp add: assert_that_def)

lemma replays_sleep_until [simp]: "replays lib ops cfg view (sleep_until t)"
proof (rule replaysI)
  fix m :: "'a machine" and s
  assume a: "agrees m s"
  show "\<exists>evs s'. trace (step lib ops cfg view True) s evs s' \<and> agrees (snd (run_state (sleep_until t) m)) s'"
  proof (cases "sint (clock s) \<le> sint t")
    case True
    then have "step lib ops cfg view True s Ticked (s\<lparr>clock := t\<rparr>)" by (rule step.ticks)
    then have "trace (step lib ops cfg view True) s [Ticked] (s\<lparr>clock := t\<rparr>)" by (rule trace_single)
    moreover have "agrees (snd (run_state (sleep_until t) m)) (s\<lparr>clock := t\<rparr>)"
      using a True by (simp add: sleep_until_def agrees_def)
    ultimately show ?thesis by blast
  next
    case False
    then have "snd (run_state (sleep_until t) m) = m" using a by (simp add: sleep_until_def agrees_def)
    with a show ?thesis by (intro exI[of _ "[]"] exI[of _ s]) (simp add: trace.idle)
  qed
qed

lemma replays_sleep [simp]: "replays lib ops cfg view (sleep millis)"
  unfolding sleep_def by (rule replays_bind) simp_all

lemma replays_send [simp]: "replays lib ops cfg view (send lib ops cfg req)"
proof (rule replays_one)
  fix m :: "'a machine" and s
  assume a: "agrees m s"
  obtain wl' sigs p where br: "begin_request lib ops cfg (m_env m) (m_env m) (m_next m) req (m_waiting m) = (wl', sigs, p)"
    by (metis prod_cases3)
  note adm = agrees_env[OF a order_refl, of True]
  have free: "tasks s (m_count m) = None" using a by (simp add: agrees_def)
  have "begin_request lib ops cfg (m_env m) (m_env m) (next_chan s) req (waiting s) = (wl', sigs, p)"
    using br a by (simp add: agrees_def)
  from step.begins[OF free adm adm order_refl this, of view]
  have st: "step lib ops cfg view True s (Began (m_count m) req p)
      (s\<lparr>waiting := wl', mailbox := deliver sigs (mailbox s), tasks := finish (m_count m) p (tasks s),
         next_chan := Suc (next_chan s), posted := posted s \<union> posts lib req,
         ack_requests := ack_requests s \<union> acks_of req\<rparr>)"
    by simp
  let ?m = "m\<lparr>m_waiting := wl', m_mailbox := m_deliver sigs (m_mailbox m), m_next := Suc (m_next m),
      m_count := Suc (m_count m)\<rparr>"
  let ?s = "s\<lparr>waiting := wl', mailbox := deliver sigs (mailbox s), next_chan := Suc (next_chan s),
      posted := posted s \<union> posts lib req, ack_requests := ack_requests s \<union> acks_of req\<rparr>"
  have "agrees ?m ?s" using a by (simp add: agrees_def m_deliver_map)
  from agrees_settle[OF this, of "m_count m" cfg p]
  have "agrees (snd (run_state (send lib ops cfg req) m)) (?s\<lparr>tasks := finish (m_count m) p (tasks s)\<rparr>)"
    by (simp add: send_def br Let_def)
  moreover have "?s\<lparr>tasks := finish (m_count m) p (tasks s)\<rparr> =
      s\<lparr>waiting := wl', mailbox := deliver sigs (mailbox s), tasks := finish (m_count m) p (tasks s),
         next_chan := Suc (next_chan s), posted := posted s \<union> posts lib req,
         ack_requests := ack_requests s \<union> acks_of req\<rparr>" by simp
  ultimately show "\<exists>ev s'. step lib ops cfg view True s ev s' \<and> agrees (snd (run_state (send lib ops cfg req) m)) s'"
    using st by metis
qed

lemma replays_clean [simp]: "replays lib ops cfg view (clean ops)"
proof (rule replays_one)
  fix m :: "'a machine" and s
  assume a: "agrees m s"
  obtain wl' sigs n where cl: "cleanup_expired ops (m_env m) (m_waiting m) = (wl', sigs, n)" by (metis prod_cases3)
  have w: "waiting s = m_waiting m" using a by (simp add: agrees_def)
  from step.cleans_up[OF agrees_env[OF a order_refl] order_refl cl[folded w], of lib cfg view] a
  show "\<exists>ev s'. step lib ops cfg view True s ev s' \<and> agrees (snd (run_state (clean ops) m)) s'"
    by (intro exI conjI) (assumption, simp add: clean_def cl agrees_def m_deliver_map)
qed

text \<open>A step of a request in progress; what it does depends on the state, so the state comes first.\<close>

lemma move_on_replays:
  assumes a: "agrees m s"
  shows "\<exists>evs s'. trace (step lib ops cfg view True) s evs s' \<and> agrees (snd (run_state (move_on lib ops cfg r) m)) s'"
proof (cases "map_of (m_tasks m) r")
  case None
  then show ?thesis using a by (intro exI[of _ "[]"] exI[of _ s]) (simp add: move_on_def trace.idle)
next
  case (Some td)
  obtain t d where td: "map_of (m_tasks m) r = Some (t, d)" using Some by (cases td) auto
  then have t: "tasks s r = Some t" and r: "r < m_count m"
    using a by (simp_all add: agrees_def) (metis not_le option.distinct(1))
  show ?thesis
  proof (cases "task_chan t")
    case None
    then obtain k msg where tk: "t = LinkAckTask k msg" by (cases t) auto
    obtain wl' sigs resp where la: "link_get_ack lib ops (m_env m) k msg (m_waiting m) = (wl', sigs, resp)"
      by (metis prod_cases3)
    have w: "waiting s = m_waiting m" using a by (simp add: agrees_def)
    let ?s = "s\<lparr>waiting := wl', mailbox := deliver sigs (mailbox s), tasks := (tasks s)(r := None), clock := clock s,
        ack_requests := insert k (ack_requests s)\<rparr>"
    have "step lib ops cfg view True s (LinkAcked r k msg resp) ?s"
      by (rule step.link_acks[OF t[unfolded tk] agrees_env[OF a order_refl] order_refl la[folded w]])
    then have "trace (step lib ops cfg view True) s [LinkAcked r k msg resp] ?s" by (rule trace_single)
    moreover have "agrees (snd (run_state (move_on lib ops cfg r) m)) ?s"
      using a by (auto simp: move_on_def td tk ack_at_def la agrees_def m_deliver_map hm_simps)
    ultimately show ?thesis by blast
  next
    case (Some c)
    have mb: "map_of (m_mailbox m) c = mailbox s c" using a by (simp add: agrees_def)
    have not_ack: "move_on lib ops cfg r = State_Monad.bind State_Monad.get (\<lambda>m'. if m' = m then
        (if map_of (m_mailbox m) c = None then State_Monad.bind (sleep_until d) (\<lambda>_. resume_at lib cfg r t c)
         else resume_at lib cfg r t c) else move_on lib ops cfg r)"
      using Some td by (cases t) (auto simp: move_on_def fun_eq_iff intro!: state_ext)
    have resume: "\<exists>evs s'. trace (step lib ops cfg view True) u evs s' \<and> agrees (snd (run_state (resume_at lib cfg r t c) n)) s'"
      if n: "agrees n u" "tasks u r = Some t" "r < m_count n" for n u
    proof (cases "resume_task lib t (mailbox u c)")
      case None
      with n show ?thesis
        by (intro exI[of _ "[]"] exI[of _ u]) (simp add: resume_at_def trace.idle agrees_def)
    next
      case (Some p)
      have "\<exists>ev. step lib ops cfg view True u ev (u\<lparr>tasks := finish r p (tasks u)\<rparr>)"
        using step.times_out[OF n(2) \<open>task_chan t = Some c\<close>, of lib p] step.resumes[OF n(2) \<open>task_chan t = Some c\<close>, of _ lib p] Some
        by (cases "mailbox u c") (simp_all, blast+)
      then obtain ev where "step lib ops cfg view True u ev (u\<lparr>tasks := finish r p (tasks u)\<rparr>)" by blast
      moreover have "snd (run_state (resume_at lib cfg r t c) n) = m_settle cfg r p n"
        using Some n(1) by (simp add: resume_at_def agrees_def)
      ultimately show ?thesis using agrees_settle[OF n(1,3), of cfg p] trace_single by metis
    qed
    show ?thesis
    proof (cases "mailbox s c")
      case None
      obtain evs u where u: "trace (step lib ops cfg view True) s evs u" "agrees (snd (run_state (sleep_until d) m)) u"
        using replays_sleep_until[of lib ops cfg view d] a unfolding replays_def by blast
      have same: "m_tasks (snd (run_state (sleep_until d) m)) = m_tasks m"
        "m_count (snd (run_state (sleep_until d) m)) = m_count m"
        by (simp_all add: sleep_until_def)
      have "tasks u r = Some t" using u(2) td same by (simp add: agrees_def)
      from resume[OF u(2) this] r same obtain evs2 s2 where "trace (step lib ops cfg view True) u evs2 s2"
        "agrees (snd (run_state (resume_at lib cfg r t c) (snd (run_state (sleep_until d) m)))) s2" by auto
      with u(1) None mb show ?thesis
        by (subst not_ack) (intro exI conjI, rule trace_append, assumption+, simp add: case_prod_unfold)
    next
      case (Some sig)
      with resume[OF a t r] mb show ?thesis by (subst not_ack) simp
    qed
  qed
qed

lemma replays_move_on [simp]: "replays lib ops cfg view (move_on lib ops cfg r)"
  by (rule replaysI) (rule move_on_replays)

lemma replays_await [simp]: "replays lib ops cfg view (await_answer lib ops cfg r)"
  unfolding await_answer_def
  by (intro replays_bind) (auto intro!: replays_bind split: option.splits)

lemma replays_request [simp]: "replays lib ops cfg view (request_answer lib ops cfg req)"
  unfolding request_answer_def by (intro replays_bind) simp_all

text \<open>A script from the start is a run of the relay from its start.\<close>

lemma replays_start:
  assumes "replays lib ops cfg view script"
  obtains evs s where "trace (step lib ops cfg view True) (relay_start ops r 0 P K) evs s"
    "agrees (snd (run_state script (machine_new ops r))) s"
  using assms agrees_new[of ops r P K] unfolding replays_def by blast

section \<open>Every request is answered\<close>

lemma resume_result:
  assumes "resume_task lib t sig = Some p"
  obtains (answer) resp where "p = Answer resp"
  | (ack) k c m where "t = LinkGetTask k c" "p = Continue (LinkAckTask k m)"
proof (cases t)
  case (LinkGetTask k c)
  then obtain rec where "p = link_progress k (link_get_resume lib rec)" using assms by auto
  with LinkGetTask answer ack show thesis by (cases rec) (simp_all add: link_get_resume_def)
qed (use assms answer in auto)

text \<open>What is left of a request after a step of the scheduler.\<close>

definition settled :: "nat \<Rightarrow> 'r machine \<Rightarrow> bool" where
  "settled r m \<longleftrightarrow> map_of (m_tasks m) r = None \<and> map_of (m_answers m) r \<noteq> None"

definition acking :: "nat \<Rightarrow> 'r machine \<Rightarrow> bool" where
  "acking r m \<longleftrightarrow> (\<exists>k msg d. map_of (m_tasks m) r = Some (LinkAckTask k msg, d))"

text \<open>
  The time that an endpoint may let a client wait: /inbox requests wait for \<open>inbox_timeout\<close>, /link
  requests for \<open>link_timeout\<close>, all others not at all.
\<close>

fun request_timeout :: "'net config \<Rightarrow> request \<Rightarrow> duration option" where
  "request_timeout cfg (InboxGet _) = Some (inbox_timeout cfg)"
| "request_timeout cfg (InboxAwait _) = Some (inbox_timeout cfg)"
| "request_timeout cfg (LinkGet _) = Some (link_timeout cfg)"
| "request_timeout cfg (LinkPost _ _ _) = Some (link_timeout cfg)"
| "request_timeout cfg _ = None"

text \<open>
  \<open>on_time t0 limit r m\<close>: the request \<open>r\<close>, which arrived at \<open>t0\<close>, has taken no time so far, unless it
  has been answered with a time-out, at its deadline.
\<close>

definition deadline :: "i64 \<Rightarrow> duration \<Rightarrow> i64" where
  "deadline t0 limit = t0 + of_nat (as_millis limit)"

definition answered_on_time :: "i64 \<Rightarrow> duration option \<Rightarrow> response \<Rightarrow> i64 \<Rightarrow> bool" where
  "answered_on_time t0 limit resp now \<longleftrightarrow>
     (if status resp = REQUEST_TIMEOUT
      then (\<exists>d. limit = Some d \<and> (sint t0 \<le> sint (deadline t0 d) \<longrightarrow> now = deadline t0 d))
      else now = t0)"

definition on_time :: "i64 \<Rightarrow> duration option \<Rightarrow> nat \<Rightarrow> 'r machine \<Rightarrow> bool" where
  "on_time t0 limit r m \<longleftrightarrow>
     (case map_of (m_tasks m) r of
        Some (t, d) \<Rightarrow> m_clock m = t0 \<and>
          (task_chan t \<noteq> None \<longrightarrow> (\<exists>l. limit = Some l \<and> d = deadline t0 l))
      | None \<Rightarrow> (\<exists>resp. map_of (m_answers m) r = Some resp \<and> answered_on_time t0 limit resp (m_clock m)))"

text \<open>A time-out is answered with 408, and nothing else is.\<close>

lemma resume_status:
  assumes "resume_task lib t sig = Some (Answer resp)"
  shows "status resp = REQUEST_TIMEOUT \<longleftrightarrow> sig = None"
proof (cases t)
  case (LinkGetTask k c)
  with assms show ?thesis by (cases sig; cases "the sig") (auto simp: link_get_resume_def)
qed (use assms in \<open>cases sig; cases "the sig"; auto simp: inbox_get_resume_def inbox_await_resume_def
  link_post_resume_def\<close>)+

lemma settle_on_time:
  assumes "m_clock m = t0"
    and "\<And>resp. p = Answer resp \<Longrightarrow> answered_on_time t0 limit resp t0"
    and "\<And>t c. p = Continue t \<Longrightarrow> task_chan t = Some c \<Longrightarrow> limit = Some (task_timeout cfg t)"
    and "p \<noteq> Abort"
  shows "on_time t0 limit r (m_settle cfg r p m)"
  using assms by (cases p) (auto simp: on_time_def hm_simps deadline_def)

lemma move_on_on_time:
  assumes ot: "on_time t0 limit r m"
    and total: "\<And>t d c. map_of (m_tasks m) r = Some (t, d) \<Longrightarrow> task_chan t = Some c \<Longrightarrow>
      resume_task lib t (map_of (m_mailbox m) c) \<noteq> None"
  shows "on_time t0 limit r (snd (run_state (move_on lib ops cfg r) m))"
proof (cases "map_of (m_tasks m) r")
  case None
  with ot show ?thesis by (simp add: move_on_def)
next
  case (Some td)
  obtain t d where td: "map_of (m_tasks m) r = Some (t, d)" using Some by (cases td) auto
  with ot have now: "m_clock m = t0" and dl: "task_chan t \<noteq> None \<Longrightarrow> \<exists>l. limit = Some l \<and> d = deadline t0 l"
    by (simp_all add: on_time_def)
  show ?thesis
  proof (cases "task_chan t")
    case None
    then obtain k msg where "t = LinkAckTask k msg" by (cases t) auto
    with td now show ?thesis
      by (auto simp: move_on_def ack_at_def link_get_ack_def on_time_def answered_on_time_def hm_simps case_prod_unfold Let_def)
  next
    case (Some c)
    obtain l where l: "limit = Some l" "d = deadline t0 l" using dl Some by auto
    obtain p where p: "resume_task lib t (map_of (m_mailbox m) c) = Some p" using total[OF td Some] by auto
    let ?n = "if map_of (m_mailbox m) c = None then snd (run_state (sleep_until d) m) else m"
    have "m_mailbox ?n = m_mailbox m" by (simp add: sleep_until_def)
    moreover have "snd (run_state (move_on lib ops cfg r) m) = snd (run_state (resume_at lib cfg r t c) ?n)"
      using td Some by (cases t) (simp_all add: move_on_def case_prod_unfold)
    ultimately have run: "snd (run_state (move_on lib ops cfg r) m) = m_settle cfg r p ?n"
      using p by (simp add: resume_at_def)
    show ?thesis
    proof (cases "map_of (m_mailbox m) c")
      case None
      then obtain resp where resp: "p = Answer resp" "status resp = REQUEST_TIMEOUT"
        using p resume_status[of lib t None] by (cases t) (auto simp: link_get_resume_def)
      have "m_clock ?n = (if sint t0 \<le> sint d then d else t0)" using None now by (simp add: sleep_until_def)
      with resp l show ?thesis by (simp add: run on_time_def hm_simps answered_on_time_def)
    next
      case (Some sig)
      show ?thesis
        unfolding run
      proof (rule settle_on_time)
        show "m_clock ?n = t0" using Some now by simp
        show "answered_on_time t0 limit resp t0" if "p = Answer resp" for resp
          using resume_status[OF p[unfolded that]] Some by (simp add: answered_on_time_def)
        show "limit = Some (task_timeout cfg u)" if "p = Continue u" "task_chan u = Some c'" for u c'
          by (rule resume_result[OF p]) (use that in auto)
        show "p \<noteq> Abort" by (rule resume_result[OF p]) auto
      qed
    qed
  qed
qed

text \<open>The endpoint decides how long a request waits, and no handler answers 408 at once.\<close>

lemma begin_on_time:
  assumes "begin_request lib ops cfg e0 e ch req wl = (wl', sigs, p)"
  shows "(\<forall>resp. p = Answer resp \<longrightarrow> status resp \<noteq> REQUEST_TIMEOUT) \<and>
    (\<forall>t c. p = Continue t \<longrightarrow> task_chan t = Some c \<longrightarrow> request_timeout cfg req = Some (task_timeout cfg t))"
  using assms
  by (cases req)
    (auto simp: inbox_defs link_defs validate_id_length_def Let_def
      split: prod.splits sum.splits if_splits insert_outcome.splits option.splits bool.splits subscribe_error.splits
        get_or_subscribe_result.splits store_and_subscribe_error.splits)

lemma move_on_settled: "settled r m \<Longrightarrow> run_state (move_on lib ops cfg r) m = ((), m)"
  by (simp add: settled_def move_on_def)

lemma move_on_acking:
  assumes "acking r m"
  shows "settled r (snd (run_state (move_on lib ops cfg r) m)) \<and>
    m_failed (snd (run_state (move_on lib ops cfg r) m)) = m_failed m \<and>
    m_clock (snd (run_state (move_on lib ops cfg r) m)) = m_clock m"
  using assms by (auto simp: acking_def settled_def move_on_def ack_at_def hm_simps case_prod_unfold Let_def)

lemma resume_settles:
  assumes "resume_task lib t (map_of (m_mailbox m) c) = Some p"
  shows "(settled r (snd (run_state (resume_at lib cfg r t c) m)) \<or> acking r (snd (run_state (resume_at lib cfg r t c) m))) \<and>
    m_failed (snd (run_state (resume_at lib cfg r t c) m)) = m_failed m"
proof -
  have "snd (run_state (resume_at lib cfg r t c) m) = m_settle cfg r p m"
    using assms by (simp add: resume_at_def)
  then show ?thesis
    by (cases rule: resume_result[OF assms]) (simp_all add: settled_def acking_def hm_simps)
qed

context entry_store
begin

lemma move_on_waiting:
  assumes a: "agrees m s" and inv: "relay_inv ops invar view s"
    and td: "map_of (m_tasks m) r = Some (t, d)" and c: "task_chan t = Some c"
  shows "(settled r (snd (run_state (move_on lib ops cfg r) m)) \<or> acking r (snd (run_state (move_on lib ops cfg r) m))) \<and>
    m_failed (snd (run_state (move_on lib ops cfg r) m)) = m_failed m"
proof -
  have t: "tasks s r = Some t" and mb: "map_of (m_mailbox m) c = mailbox s c"
    using a td by (simp_all add: agrees_def)
  obtain p where p: "resume_task lib t (map_of (m_mailbox m) c) = Some p"
    using resume_total[OF inv t c, of lib] mb by auto
  let ?n = "if map_of (m_mailbox m) c = None then snd (run_state (sleep_until d) m) else m"
  have n: "m_mailbox ?n = m_mailbox m" "m_failed ?n = m_failed m"
    by (simp_all add: sleep_until_def)
  have "snd (run_state (move_on lib ops cfg r) m) = snd (run_state (resume_at lib cfg r t c) ?n)"
    using td c by (cases t) (simp_all add: move_on_def case_prod_unfold)
  with resume_settles[of lib t ?n c p r cfg] p n show ?thesis by simp
qed

lemma move_on_first:
  assumes "agrees m s" and "relay_inv ops invar view s" and "settled r m \<or> map_of (m_tasks m) r \<noteq> None"
  shows "(settled r (snd (run_state (move_on lib ops cfg r) m)) \<or> acking r (snd (run_state (move_on lib ops cfg r) m))) \<and>
    m_failed (snd (run_state (move_on lib ops cfg r) m)) = m_failed m"
proof (cases "map_of (m_tasks m) r")
  case None
  then show ?thesis using assms(3) move_on_settled[of r m lib ops cfg] by simp
next
  case (Some td)
  obtain t d where td: "map_of (m_tasks m) r = Some (t, d)" using Some by (cases td) auto
  show ?thesis
  proof (cases "task_chan t")
    case None
    then have "acking r m" using td by (cases t) (auto simp: acking_def)
    then show ?thesis using move_on_acking by blast
  next
    case (Some c)
    from move_on_waiting[OF assms(1,2) td this] show ?thesis .
  qed
qed

lemma await_settles:
  assumes "agrees m s" and "relay_inv ops invar view s" and "settled r m \<or> map_of (m_tasks m) r \<noteq> None"
    and ot: "on_time t0 limit r m"
  obtains resp m' where "run_state (await_answer lib ops cfg r) m = (resp, m')"
    "map_of (m_answers m') r = Some resp" "map_of (m_tasks m') r = None" "m_failed m' = m_failed m"
    "answered_on_time t0 limit resp (m_clock m')"
proof -
  define m1 where "m1 = snd (run_state (move_on lib ops cfg r) m)"
  define m2 where "m2 = snd (run_state (move_on lib ops cfg r) m1)"
  have m1: "settled r m1 \<or> acking r m1" "m_failed m1 = m_failed m"
    using move_on_first[OF assms(1-3), of lib cfg] by (simp_all add: m1_def)
  have m2: "settled r m2" "m_failed m2 = m_failed m1"
    using m1(1) move_on_settled[of r m1 lib ops cfg] move_on_acking[of r m1 lib ops cfg] by (auto simp: m2_def)
  obtain resp where resp: "map_of (m_answers m2) r = Some resp" using m2(1) by (auto simp: settled_def)
  have "run_state (await_answer lib ops cfg r) m = (resp, m2)"
    using resp by (simp add: await_answer_def case_prod_unfold m1_def[symmetric] m2_def[symmetric])
  moreover have "on_time t0 limit r m1"
    unfolding m1_def
  proof (rule move_on_on_time[OF ot])
    show "resume_task lib t (map_of (m_mailbox m) c) \<noteq> None"
      if "map_of (m_tasks m) r = Some (t, d)" "task_chan t = Some c" for t d c
      using resume_total[OF assms(2) _ that(2), of r lib] that(1) assms(1) by (simp add: agrees_def)
  qed
  then have "on_time t0 limit r m2"
    unfolding m2_def by (rule move_on_on_time) (use m1(1) in \<open>auto simp: settled_def acking_def\<close>)
  ultimately show thesis using that resp m1(2) m2 by (simp add: settled_def on_time_def)
qed

lemma send_starts:
  assumes "agrees m s" and "relay_inv ops invar view s"
  shows "fst (run_state (send lib ops cfg req) m) = m_count m \<and>
    (settled (m_count m) (snd (run_state (send lib ops cfg req) m)) \<or>
     map_of (m_tasks (snd (run_state (send lib ops cfg req) m))) (m_count m) \<noteq> None) \<and>
    m_failed (snd (run_state (send lib ops cfg req) m)) = m_failed m \<and>
    on_time (m_clock m) (request_timeout cfg req) (m_count m) (snd (run_state (send lib ops cfg req) m))"
proof -
  obtain wl' sigs p where br: "begin_request lib ops cfg (m_env m) (m_env m) (m_next m) req (m_waiting m) = (wl', sigs, p)"
    by (metis prod_cases3)
  have "good (m_waiting m)" using assms by (simp add: agrees_def relay_inv_def)
  note na = begin_no_abort[OF this br]
  let ?m = "m\<lparr>m_waiting := wl', m_mailbox := m_deliver sigs (m_mailbox m), m_next := Suc (m_next m), m_count := Suc (m_count m)\<rparr>"
  have "on_time (m_clock m) (request_timeout cfg req) (m_count m) (m_settle cfg (m_count m) p ?m)"
    using begin_on_time[OF br] na by (intro settle_on_time) (auto simp: answered_on_time_def)
  with na br show ?thesis
    by (cases p) (simp_all add: send_def settled_def hm_simps Let_def)
qed

lemma request_answered:
  assumes "agrees m s" and "relay_inv ops invar view s"
  obtains resp m' s' evs where "run_state (request_answer lib ops cfg req) m = (resp, m')"
    "map_of (m_answers m') (m_count m) = Some resp" "m_failed m' = m_failed m"
    "answered_on_time (m_clock m) (request_timeout cfg req) resp (m_clock m')"
    "trace (step lib ops cfg view True) s evs s'" "agrees m' s'"
proof -
  define m1 where "m1 = snd (run_state (send lib ops cfg req) m)"
  obtain evs1 s1 where 1: "trace (step lib ops cfg view True) s evs1 s1" "agrees m1 s1"
    using replays_send assms(1) unfolding replays_def m1_def by blast
  have "relay_inv ops invar view s1"
    using 1(1) assms(2) by (induction rule: trace.induct) (blast intro: step_inv)+
  moreover have "settled (m_count m) m1 \<or> map_of (m_tasks m1) (m_count m) \<noteq> None" "m_failed m1 = m_failed m"
    "fst (run_state (send lib ops cfg req) m) = m_count m"
    using send_starts[OF assms, of lib cfg req] by (simp_all add: m1_def)
  moreover have "on_time (m_clock m) (request_timeout cfg req) (m_count m) m1"
    using send_starts[OF assms, of lib cfg req] by (simp add: m1_def)
  ultimately obtain resp m' where r: "run_state (await_answer lib ops cfg (m_count m)) m1 = (resp, m')"
    "map_of (m_answers m') (m_count m) = Some resp" "m_failed m' = m_failed m"
    "answered_on_time (m_clock m) (request_timeout cfg req) resp (m_clock m')"
    using await_settles[OF 1(2), of "m_count m" "m_clock m" "request_timeout cfg req" lib cfg thesis] by auto
  have req: "run_state (request_answer lib ops cfg req) m = (resp, m')"
    using r(1) \<open>fst _ = _\<close> by (simp add: request_answer_def case_prod_unfold m1_def)
  obtain evs s' where "trace (step lib ops cfg view True) s evs s'" "agrees m' s'"
    using replays_request[of lib ops cfg view req] assms(1) req unfolding replays_def by force
  with that req r show thesis by blast
qed

end
end
