(* ===== verification/Server_Router.thy ===== *)
theory Server_Router
  imports Relay_System
begin

text \<open>
  The outer part of the server: the route table and the layers of \<open>HttpRelay::build_router\<close>, and
  the middleware \<open>identify_client\<close> of \<open>client_ip.rs\<close>.  How axum matches paths and nests layers is
  the library's; the table and the order are the program's.
\<close>

section \<open>Routes\<close>

datatype http_method = GET | POST | DELETE

datatype endpoint =
    Root | Ep_inbox_ack | Ep_inbox_await | Ep_inbox_get | Ep_inbox_post | Ep_inbox_delete
  | Ep_link_get | Ep_link_post

text \<open>\<open>link_compat\<close> is the cargo feature of that name.\<close>

definition build_routes :: "bool \<Rightarrow> (string \<times> http_method \<times> endpoint) list" where
  "build_routes link_compat =
     [(''/'', GET, Root),
      (''/inbox/{id}/ack'', GET, Ep_inbox_ack),
      (''/inbox/{id}/await'', GET, Ep_inbox_await),
      (''/inbox/{id}'', GET, Ep_inbox_get), (''/inbox/{id}'', POST, Ep_inbox_post),
      (''/inbox/{id}'', DELETE, Ep_inbox_delete)] @
     (if link_compat then [(''/link/{id}'', GET, Ep_link_get), (''/link/{id}'', POST, Ep_link_post)] else [])"

text \<open>What an endpoint makes of the ID, the headers and the body of an HTTP request.\<close>

fun endpoint_request :: "endpoint \<Rightarrow> string \<Rightarrow> header_map \<Rightarrow> bytes \<Rightarrow> request option" where
  "endpoint_request Root k headers b = None"
| "endpoint_request Ep_inbox_ack k headers b = Some (InboxAck k)"
| "endpoint_request Ep_inbox_await k headers b = Some (InboxAwait k)"
| "endpoint_request Ep_inbox_get k headers b = Some (InboxGet k)"
| "endpoint_request Ep_inbox_post k headers b = Some (InboxPost k headers b)"
| "endpoint_request Ep_inbox_delete k headers b = Some (InboxDelete k)"
| "endpoint_request Ep_link_get k headers b = Some (LinkGet k)"
| "endpoint_request Ep_link_post k headers b = Some (LinkPost k headers b)"

text \<open>The layers in the order in which they are added; a later one wraps the earlier ones.\<close>

datatype 'net layer = Body_limit nat | Identify_client "'net trusted_proxies" | Trace | Cors_very_permissive

definition build_layers :: "'net config \<Rightarrow> 'net layer list" where
  "build_layers cfg = [Body_limit (max_body_size cfg), Identify_client (trusted_proxies cfg), Trace] @
     (if cors_allow_all cfg then [Cors_very_permissive] else [])"

lemma routes_distinct: "distinct (map (\<lambda>(path, m, _). (path, m)) (build_routes link_compat))"
  by (cases link_compat) (simp_all add: build_routes_def)

section \<open>\<open>identify_client\<close>\<close>

text \<open>
  The middleware answers itself, or runs the rest (\<open>next\<close>) with the client's address as the
  request extension \<open>ClientIp\<close>.  \<open>text_response\<close> is \<open>(StatusCode, &str).into_response()\<close>.
\<close>

definition identify_client ::
    "http_lib \<Rightarrow> (status_code \<Rightarrow> string \<Rightarrow> 'a) \<Rightarrow> ('net \<Rightarrow> ip_addr \<Rightarrow> bool) \<Rightarrow> 'net trusted_proxies \<Rightarrow>
     ip_addr \<Rightarrow> header_map \<Rightarrow> (ip_addr \<Rightarrow> 'a) \<Rightarrow> 'a" where
  "identify_client lib text_response net_contains proxies peer headers run_next =
     (case client_ip (to_str lib) net_contains proxies peer (headers ''x-forwarded-for'') of
        Inr ip \<Rightarrow> run_next ip
      | Inl err \<Rightarrow> text_response BAD_REQUEST ''Invalid X-Forwarded-For header'')"

end
