(* ===== verification/Server_Run.thy ===== *)
theory Server_Run
  imports Relay_Machine Server_Router
begin

text \<open>
  The life of a server, from \<open>HttpRelay::start\<close> in server.rs: what can fail on the way, what runs
  afterwards, the clean-up task, the addresses it reports and the way it stops.  Sockets are inputs.
\<close>

section \<open>The \<open>?\<close> operator\<close>

fun and_then :: "'e + 'a \<Rightarrow> ('a \<Rightarrow> 'e + 'b) \<Rightarrow> 'e + 'b" where
  "and_then (Inl e) f = Inl e"
| "and_then (Inr x) f = f x"

lemma and_then_Inr: "and_then r f = Inr y \<longleftrightarrow> (\<exists>x. r = Inr x \<and> f x = Inr y)"
  by (cases r) auto

section \<open>\<open>HttpRelay\<close>\<close>

record socket_addr =
  sock_ip :: ip_addr
  sock_port :: "16 word"

text \<open>
  What the operating system and axum_server answer: \<open>TcpListener::bind\<close>, \<open>set_nonblocking\<close>,
  \<open>local_addr\<close> and \<open>axum_server::from_tcp\<close>.
\<close>

record 'l net_io =
  io_bind :: "socket_addr \<Rightarrow> anyhow + 'l"
  io_set_nonblocking :: "'l \<Rightarrow> anyhow + unit"
  io_local_addr :: "'l \<Rightarrow> anyhow + socket_addr"
  io_from_tcp :: "'l \<Rightarrow> anyhow + unit"

text \<open>The calls that a server's \<open>Handle\<close> has got, the first one first.\<close>

datatype handle_call = Graceful_shutdown "duration option" | Shutdown

record http_relay =
  http_handle :: "handle_call list"
  http_address :: socket_addr

text \<open>What \<open>start\<close> leaves running besides the relay that it returns.\<close>

record ('r, 'net) running =
  relay :: http_relay
  served_state :: "('r, 'net) app_state"
  served_routes :: "(string \<times> http_method \<times> endpoint) list"
  served_layers :: "'net layer list"
  cleanup_interval :: duration

definition start ::
    "bool \<Rightarrow> 'l net_io \<Rightarrow> ('r, 'x) repo_ops \<Rightarrow> (string option \<Rightarrow> nat \<Rightarrow> anyhow + 'r) \<Rightarrow> 'net config \<Rightarrow>
     anyhow + ('r, 'net) running" where
  "start link_compat io ops repo_new cfg =
     and_then (app_state_new ops repo_new cfg) (\<lambda>app.
     and_then (io_bind io \<lparr>sock_ip = bind_address cfg, sock_port = http_port cfg\<rparr>) (\<lambda>listener.
     and_then (io_set_nonblocking io listener) (\<lambda>_.
     and_then (io_local_addr io listener) (\<lambda>addr.
     and_then (io_from_tcp io listener) (\<lambda>_.
       Inr \<lparr>relay = \<lparr>http_handle = [], http_address = addr\<rparr>, served_state = app,
            served_routes = build_routes link_compat, served_layers = build_layers cfg,
            cleanup_interval = from_secs 15\<rparr>)))))"

text \<open>\<open>HttpRelayBuilder::run\<close>\<close>

definition run ::
    "bool \<Rightarrow> 'l net_io \<Rightarrow> ('r, 'x) repo_ops \<Rightarrow> (string option \<Rightarrow> nat \<Rightarrow> anyhow + 'r) \<Rightarrow> 'net setting list \<Rightarrow>
     anyhow + ('r, 'net) running" where
  "run link_compat io ops repo_new settings = start link_compat io ops repo_new (build settings)"

text \<open>\<open>Drop\<close>, and \<open>shutdown\<close>, which takes the relay by value and so drops it at its end.\<close>

definition drop_relay :: "http_relay \<Rightarrow> http_relay" where
  "drop_relay r = r\<lparr>http_handle := http_handle r @ [Shutdown]\<rparr>"

definition shutdown :: "http_relay \<Rightarrow> http_relay" where
  "shutdown r = drop_relay (r\<lparr>http_handle := http_handle r @ [Graceful_shutdown (Some (from_secs 1))]\<rparr>)"

text \<open>The handler of the root path; \<open>text_response\<close> is the response with this status and text.\<close>

definition root_handler :: "(status_code \<Rightarrow> string \<Rightarrow> 'a) \<Rightarrow> 'a" where
  "root_handler text_response = text_response STATUS_OK ''Http Relay''"

text \<open>
  A server that starts on a database file of an earlier run holds the entries of that file, nobody
  waits, and the invariant of the relay holds.
\<close>

lemma start_state:
  assumes "start link_compat io ops repo_new cfg = Inr running"
  obtains r where "repo_new (persist_db cfg) (max_entries cfg) = Inr r"
    "served_state running = \<lparr>app_config = cfg, pending_list = waiting_list_new ops r\<rparr>"
  using assms by (auto simp: start_def and_then_Inr app_state_new_def split: sum.splits)

lemma sqlite_start_inv:
  assumes "start link_compat io sqlite_ops (sqlite_open failing db) cfg = Inr running"
    and "\<And>path rows. db path = Some rows \<Longrightarrow> table_ok rows"
    and "s = relay_start sqlite_ops (repository (pending_list (served_state running))) now UNIV UNIV"
  shows "relay_inv sqlite_ops sqlite_invar sqlite_view s \<and> waiting s = pending_list (served_state running)"
proof -
  obtain r where r: "sqlite_open failing db (persist_db cfg) (max_entries cfg) = Inr r"
    "served_state running = \<lparr>app_config = cfg, pending_list = waiting_list_new sqlite_ops r\<rparr>"
    using start_state[OF assms(1)] by blast
  have "r = sqlite_new (Option.bind (persist_db cfg) db) (max_entries cfg)"
    using r(1) by (cases "persist_db cfg") (simp_all add: sqlite_open_def split: if_splits)
  moreover have "table_ok []" by (simp add: table_ok_def)
  ultimately have "sqlite_invar r"
    using assms(2) by (cases "Option.bind (persist_db cfg) db")
      (auto simp: sqlite_new_def create_schema_def sqlite_invar_def bind_eq_Some_conv)
  moreover have "entries_known (sqlite_view r) UNIV UNIV" by (simp add: entries_known_def)
  ultimately have "relay_inv sqlite_ops sqlite_invar sqlite_view (relay_start sqlite_ops r now UNIV UNIV)"
    by (rule sqlite.start_inv)
  with r(2) show ?thesis by (simp add: assms(3) relay_start_def waiting_list_new_def)
qed

section \<open>The clean-up task\<close>

text \<open>One round of the loop, and a number of rounds.\<close>

definition cleanup_round :: "('r, 'x) repo_ops \<Rightarrow> duration \<Rightarrow> ('r, nat) script" where
  "cleanup_round ops interval = State_Monad.bind (sleep (as_millis interval)) (\<lambda>_. clean ops)"

fun cleanup_task :: "('r, 'x) repo_ops \<Rightarrow> duration \<Rightarrow> nat \<Rightarrow> ('r, unit) script" where
  "cleanup_task ops interval 0 = State_Monad.return ()"
| "cleanup_task ops interval (Suc n) =
     State_Monad.bind (cleanup_round ops interval) (\<lambda>_. cleanup_task ops interval n)"

lemma replays_cleanup_round [simp]: "replays lib ops cfg view (cleanup_round ops interval)"
  unfolding cleanup_round_def by (rule replays_bind) simp_all

lemma replays_cleanup_task [simp]: "replays lib ops cfg view (cleanup_task ops interval n)"
  by (induction n) (auto intro!: replays_bind)

context entry_store
begin

text \<open>A round deletes what has expired by then and nothing else, and every channel whose receiver is gone.\<close>

lemma clean_reclaims:
  assumes a: "agrees m s" and inv: "relay_inv ops invar view s" and cl: "run_state (clean ops) m = (n, m')"
  shows "m_clock m' = m_clock m \<and> (\<forall>k. view (repository (m_waiting m')) k = (case view (repository (m_waiting m)) k of
        Some x \<Rightarrow> if expired_before (m_clock m') (expires_at x) then None else Some x | None \<Rightarrow> None)) \<and>
    (\<forall>k. \<forall>c \<in> set (waiters_chans (waiters_at (waiters_map (m_waiting m')) k)). \<not> m_gone m' c)"
proof -
  have g: "good (m_waiting m)" using a inv by (simp add: agrees_def relay_inv_def)
  obtain wl' sigs e where ce: "cleanup_expired ops e (m_waiting m) = (wl', sigs, n)" and "e = m_env m"
    and m': "m' = m\<lparr>m_waiting := wl', m_mailbox := m_deliver sigs (m_mailbox m)\<rparr>"
    using cl by (auto simp: clean_def split: prod.splits)
  from \<open>e = _\<close> have e: "fair_scan e" "reliable e" "t_purge e = m_clock m" "closed e = m_gone m"
    by (simp_all add: m_env_def)
  obtain X where imp: "reliable e \<longrightarrow>
      X = {k. \<exists>s. view (repository (m_waiting m)) k = Some s \<and> expired_before (m_clock m) (expires_at s)}"
    and v: "view (repository wl') = view (repository (m_waiting m)) |` (- X)"
    and at: "\<forall>j. waiters_at (waiters_map wl') j =
        (if j \<in> X then waiters_new else open_waiters (m_gone m) (waiters_at (waiters_map (m_waiting m)) j))"
    using cleanup_spec[OF g e(1) ce] unfolding e(3,4) by (elim exE conjE) (rule that; assumption)
  have X: "X = {k. \<exists>s. view (repository (m_waiting m)) k = Some s \<and> expired_before (m_clock m) (expires_at s)}"
    using imp e(2) by blast
  have clk: "m_clock m' = m_clock m" by (simp add: m')
  have gone: "m_gone m' = m_gone m" by (simp add: m' m_gone_def fun_eq_iff)
  have "waiters_chans waiters_new = []" by (simp add: waiters_new_def waiters_chans_def)
  moreover have "set (waiters_chans (open_waiters cl w)) \<subseteq> - Collect cl" for cl w
    by (auto simp: open_waiters_def waiters_chans_def)
  ultimately have "\<not> m_gone m c" if "c \<in> set (waiters_chans (waiters_at (waiters_map wl') k))" for k c
    using that at by (fastforce split: if_splits)
  moreover have "view (repository wl') k = (case view (repository (m_waiting m)) k of
        Some x \<Rightarrow> if expired_before (m_clock m) (expires_at x) then None else Some x | None \<Rightarrow> None)" for k
    by (simp add: v X restrict_map_def split: option.split)
  ultimately show ?thesis unfolding gone clk by (simp add: m')
qed

lemma cleanup_round_reclaims:
  assumes a: "agrees m s" and inv: "relay_inv ops invar view s"
    and rd: "run_state (cleanup_round ops interval) m = (n, m')"
    and fits: "0 \<le> sint (m_clock m)" "sint (m_clock m) + int (as_millis interval) < 2 ^ 63"
  shows "sint (m_clock m') = sint (m_clock m) + int (as_millis interval) \<and>
    (\<forall>k. view (repository (m_waiting m')) k = (case view (repository (m_waiting m)) k of
        Some x \<Rightarrow> if expired_before (m_clock m') (expires_at x) then None else Some x | None \<Rightarrow> None)) \<and>
    (\<forall>k. \<forall>c \<in> set (waiters_chans (waiters_at (waiters_map (m_waiting m')) k)). \<not> m_gone m' c)"
proof -
  fix lib :: http_lib and cfg :: "unit config"
  define m1 where "m1 = snd (run_state (sleep (as_millis interval)) m)"
  obtain evs s1 where 1: "trace (step lib ops cfg view True) s evs s1" "agrees m1 s1"
    using replays_sleep a unfolding replays_def m1_def by blast
  have "relay_inv ops invar view s1"
    using 1(1) inv by (induction rule: trace.induct) (blast intro: step_inv)+
  moreover have "run_state (clean ops) m1 = (n, m')"
    using rd by (simp add: cleanup_round_def m1_def case_prod_unfold)
  moreover have "m_waiting m1 = m_waiting m" "sint (m_clock m1) = sint (m_clock m) + int (as_millis interval)"
    using sint_add_i64[OF fits] by (simp_all add: m1_def sleep_def sleep_until_def)
  ultimately show ?thesis using clean_reclaims[OF 1(2), of n m'] by simp
qed

end

section \<open>URLs\<close>

text \<open>Decimal numbers as \<open>format!\<close> writes them.\<close>

definition digit_char :: "nat \<Rightarrow> char" where
  "digit_char d = char_of (48 + d)"

fun decimal :: "nat \<Rightarrow> string" where
  "decimal n = (if n < 10 then [digit_char n] else decimal (n div 10) @ [digit_char (n mod 10)])"

declare decimal.simps [simp del]

text \<open>
  Crate url: \<open>url_parse\<close> is \<open>Url::parse\<close>, \<open>url_push\<close> is \<open>path_segments_mut\<close> with \<open>push\<close>.  \<open>None\<close> is
  an error, on which \<open>expect\<close> panics.
\<close>

record 'u url_lib =
  url_parse :: "string \<Rightarrow> 'u option"
  url_push :: "string \<Rightarrow> 'u \<Rightarrow> 'u option"

definition local_url :: "'u url_lib \<Rightarrow> http_relay \<Rightarrow> 'u option" where
  "local_url urls r = url_parse urls (''http://localhost:'' @ decimal (unat (sock_port (http_address r))))"

definition local_link_url :: "'u url_lib \<Rightarrow> http_relay \<Rightarrow> 'u option" where
  "local_link_url urls r = Option.bind (local_url urls r) (url_push urls ''link'')"

lemma to_digit_char: "d < 10 \<Longrightarrow> to_digit 10 (digit_char d) = Some d"
proof -
  assume d: "d < 10"
  then have "(of_char (digit_char d) :: nat) = 48 + d" by (simp add: digit_char_def)
  with d show ?thesis by (simp add: to_digit_def)
qed

lemma digits_append:
  "digits r s = (ds, []) \<Longrightarrow> digits r (s @ t) = (ds @ fst (digits r t), snd (digits r t))"
proof (induction s arbitrary: ds)
  case (Cons c s)
  then obtain d es where d: "to_digit r c = Some d" and es: "digits r s = (es, [])" "ds = d # es"
    by (auto split: option.splits prod.splits)
  with Cons.IH[OF es(1)] show ?case by simp
qed simp

text \<open>Reading a decimal number back gives the number, and no zero in front.\<close>

lemma digits_decimal:
  "\<exists>ds. digits 10 (decimal n) = (ds, []) \<and> foldl (\<lambda>acc d. acc * 10 + d) 0 ds = n \<and> ds \<noteq> [] \<and>
     (n \<noteq> 0 \<longrightarrow> hd ds \<noteq> 0) \<and> (n < 10 ^ Suc k \<longrightarrow> length ds \<le> Suc k)"
proof (induction n arbitrary: k rule: decimal.induct)
  case (1 n)
  show ?case
  proof (cases "n < 10")
    case True
    then show ?thesis by (simp add: decimal.simps[of n] to_digit_char)
  next
    case False
    obtain ds where ds: "digits 10 (decimal (n div 10)) = (ds, [])" "foldl (\<lambda>acc d. acc * 10 + d) 0 ds = n div 10"
      "ds \<noteq> []" "n div 10 \<noteq> 0 \<longrightarrow> hd ds \<noteq> 0" "n div 10 < 10 ^ Suc (k - 1) \<longrightarrow> length ds \<le> Suc (k - 1)"
      using 1[OF False, of "k - 1"] by blast
    have "digits 10 (decimal n) = (ds @ [n mod 10], [])"
      using False digits_append[OF ds(1), of "[digit_char (n mod 10)]"]
      by (simp add: decimal.simps[of n] to_digit_char)
    moreover have "length (ds @ [n mod 10]) \<le> Suc k" if "n < 10 ^ Suc k"
    proof (cases k)
      case 0
      with that False show ?thesis by simp
    next
      case (Suc j)
      then show ?thesis using ds(5) that by (simp add: less_mult_imp_div_less mult.commute)
    qed
    ultimately show ?thesis using ds False by auto
  qed
qed

lemma read_decimal:
  assumes "n \<le> bound" and "n < 10 ^ Suc k"
  shows "read_number 10 (Suc k) False bound (decimal n) = Some (n, [])"
proof -
  obtain ds where ds: "digits 10 (decimal n) = (ds, [])" "foldl (\<lambda>acc d. acc * 10 + d) 0 ds = n" "ds \<noteq> []"
    "n \<noteq> 0 \<longrightarrow> hd ds \<noteq> 0" "n < 10 ^ Suc k \<longrightarrow> length ds \<le> Suc k"
    using digits_decimal[of n k] by blast
  have "length ds \<le> 1" if "n = 0"
    using that ds(1) by (auto simp: decimal.simps[of 0] to_digit_char)
  with ds assms show ?thesis by (auto simp: read_number_def Let_def)
qed

text \<open>A sample: every address can be bound once asked for.\<close>

definition sample_io :: "socket_addr net_io" where
  "sample_io = \<lparr>io_bind = Inr, io_set_nonblocking = (\<lambda>_. Inr ()), io_local_addr = Inr, io_from_tcp = (\<lambda>_. Inr ())\<rparr>"

end
