(* ===== verification/Storage_Agreement.thy ===== *)
theory Storage_Agreement
  imports Storage_Sqlite Storage_Memory
begin

text \<open>
  The two back ends side by side.  \<open>twins\<close> relates a table and a map with the same content, down to
  the creation times that decide which acknowledged entry has to go; every operation keeps it.
\<close>

definition entry_of_row :: "row \<Rightarrow> entry" where
  "entry_of_row w = \<lparr>e_message_body = row_message_body w, e_content_type = row_content_type w,
     e_acked = (row_acked w \<noteq> 0), e_expires_at = row_expires_at w, e_created_at = row_created_at w\<rparr>"

definition twins :: "row list \<Rightarrow> entry_map \<Rightarrow> bool" where
  "twins t m \<longleftrightarrow> (\<forall>k. map_of m k = map_option entry_of_row (map_of (keyed t) k))"

definition same_content :: "sqlite_repo \<Rightarrow> memory_repo \<Rightarrow> bool" where
  "same_content r m \<longleftrightarrow> twins (table r) (entries m) \<and> sqlite_max_entries r = memory_max_entries m"

text \<open>No two acknowledged entries were created in the same millisecond.\<close>

definition ages_differ :: "entry_map \<Rightarrow> bool" where
  "ages_differ m \<longleftrightarrow> (\<forall>k w k' w'. map_of m k = Some w \<and> map_of m k' = Some w' \<and> e_acked w \<and> e_acked w' \<and>
     e_created_at w = e_created_at w' \<longrightarrow> k = k')"

lemma entry_of_row_simps [simp]:
  "e_message_body (entry_of_row w) = row_message_body w" "e_content_type (entry_of_row w) = row_content_type w"
  "e_acked (entry_of_row w) = (row_acked w \<noteq> 0)" "e_expires_at (entry_of_row w) = row_expires_at w"
  "e_created_at (entry_of_row w) = row_created_at w"
  by (simp_all add: entry_of_row_def)

lemma stored_of_twin [simp]: "stored_of_entry (entry_of_row w) = stored_of_row w"
  by (simp add: stored_of_entry_def stored_of_row_def)

lemma twins_view: "twins t m \<Longrightarrow> map_view m = table_view t"
  by (auto simp: fun_eq_iff twins_def map_view_def table_view_eq option.map_comp comp_def)

lemma twins_length:
  assumes "table_ok t" and "hm_ok m" and "twins t m"
  shows "length m = length t"
proof -
  have "dom (map_of m) = dom (map_of (keyed t))" using assms(3) by (auto simp: twins_def dom_def)
  moreover have "card (dom (map_of (keyed t))) = length (keyed t)" by (rule hm_card[OF keyed_ok[OF assms(1)]])
  ultimately show ?thesis using hm_card[OF assms(2)] by (simp add: keyed_def)
qed

lemma keyed_get: "table_ok t \<Longrightarrow> map_of (keyed t) k = Some w \<longleftrightarrow> w \<in> set t \<and> row_id w = k"
  by (simp add: hm_mem[OF keyed_ok, symmetric]) (auto simp: keyed_def)

lemma twins_get:
  "table_ok t \<Longrightarrow> twins t m \<Longrightarrow> map_of m k = Some x \<longleftrightarrow> (\<exists>w \<in> set t. row_id w = k \<and> x = entry_of_row w)"
  by (auto simp: twins_def keyed_get)

lemma keyed_upsert:
  assumes "table_ok t"
  shows "map_of (keyed (sql_upsert w t)) = (map_of (keyed t))(row_id w \<mapsto> w)"
proof
  fix k
  have "keyed (sql_upsert w t) = filter (\<lambda>(k, u). row_id u \<noteq> row_id w) (keyed t) @ [(row_id w, w)]"
    by (simp add: sql_upsert_def keyed_filter[symmetric]) (simp add: keyed_def)
  then show "map_of (keyed (sql_upsert w t)) k = ((map_of (keyed t))(row_id w \<mapsto> w)) k"
    using hm_get_filter[OF keyed_ok[OF assms]]
    by (auto simp: map_add_def dest: keyed_mem split: option.splits)
qed

lemma twins_upsert:
  "table_ok t \<Longrightarrow> twins t m \<Longrightarrow> twins (sql_upsert w t) (hm_insert (row_id w) (entry_of_row w) m)"
  by (auto simp: twins_def keyed_upsert hm_simps)

lemma keyed_map:
  assumes "\<And>w. row_id (f w) = row_id w"
  shows "map_of (keyed (map f t)) k = map_option f (map_of (keyed t) k)"
  by (induction t) (auto simp: keyed_def assms)

section \<open>Operations\<close>

lemma twins_ack:
  assumes "twins t m"
  shows "twins (fst (sql_ack k t)) (case map_of m k of None \<Rightarrow> m
      | Some w \<Rightarrow> hm_insert k (w\<lparr>e_acked := True, e_message_body := None\<rparr>) m)"
  unfolding twins_def
proof
  fix j
  let ?f = "\<lambda>w. if row_id w = k then w\<lparr>row_acked := 1, row_message_body := None\<rparr> else w"
  have acked: "map_of (keyed (fst (sql_ack k t))) j = map_option ?f (map_of (keyed t) j)"
    by (simp add: sql_ack_def keyed_map)
  show "map_of (case map_of m k of None \<Rightarrow> m
      | Some w \<Rightarrow> hm_insert k (w\<lparr>e_acked := True, e_message_body := None\<rparr>) m) j =
      map_option entry_of_row (map_of (keyed (fst (sql_ack k t))) j)"
  proof (cases "j = k")
    case True
    have "?f w = w\<lparr>row_acked := 1, row_message_body := None\<rparr>" if "map_of (keyed t) k = Some w" for w
      using keyed_mem[OF that] by simp
    with True acked assms show ?thesis
      by (cases "map_of (keyed t) k") (simp_all add: twins_def hm_simps entry_of_row_def)
  next
    case False
    have "?f w = w" if "map_of (keyed t) j = Some w" for w
      using keyed_mem[OF that] False by simp
    with False acked assms show ?thesis
      by (cases "map_of (keyed t) j"; cases "map_of (keyed t) k") (simp_all add: twins_def hm_simps)
  qed
qed

lemma twins_expired:
  assumes ok: "table_ok t" "map_ok m" and tw: "twins t m" and fair: "mset (scan e m) = mset m"
    and de: "memory_delete_expired e m = (m', ids)"
  shows "twins (filter (\<lambda>w. \<not> expired_before (t_purge e) (row_expires_at w)) t) m'"
  unfolding twins_def
proof
  fix k
  note d = memory_delete_expired_spec(4)[OF ok(2) fair de]
  have "m' = fold hm_remove ids m" using de by (auto simp: memory_delete_expired_def Let_def)
  then have "map_of m' k = (if k \<in> set ids then None else map_of m k)" by (simp add: hm_get_remove_all)
  with tw show "map_of m' k = map_option entry_of_row
      (map_of (keyed (filter (\<lambda>w. \<not> expired_before (t_purge e) (row_expires_at w)) t)) k)"
    by (cases "map_of (keyed t) k")
      (simp_all add: keyed_get_filter[OF ok(1)] twins_def d twins_view[OF tw] table_view_eq stored_of_row_def)
qed

lemma oldest_same:
  assumes ok: "table_ok t" "map_ok m" and tw: "twins t m" and differ: "ages_differ m"
    and fair: "\<And>xs. mset (visit xs) = mset xs" "mset (scan f m) = mset m"
  shows "sql_oldest_acked visit 1 t = (case oldest_acked_id f m of None \<Rightarrow> [] | Some k \<Rightarrow> [k])"
proof -
  define S where "S = sort_key (\<lambda>w. sint (row_created_at w)) (visit (filter (\<lambda>w. row_acked w = 1) t))"
  have "mset S = mset (filter (\<lambda>w. row_acked w = 1) t)" by (simp add: S_def fair)
  then have S: "set S = {w \<in> set t. row_acked w = 1}" by (metis set_filter set_mset_mset)
  have sorted: "sorted (map (\<lambda>w. sint (row_created_at w)) S)" by (simp add: S_def)
  have flag: "row_acked w \<noteq> 0 \<longleftrightarrow> row_acked w = 1" if "w \<in> set t" for w using ok(1) that by (auto simp: table_ok_def)
  have scan: "set (scan f m) = set m" using fair(2) by (metis set_mset_mset)
  have mem: "(k, x) \<in> set m \<longleftrightarrow> (\<exists>w \<in> set t. row_id w = k \<and> x = entry_of_row w)" for k x
    using ok(2) twins_get[OF ok(1) tw] by (simp add: map_ok_def hm_mem)
  show ?thesis
  proof (cases "oldest_acked_id f m")
    case None
    then have none: "\<not> e_acked x" if "(k, x) \<in> set m" for k x
      using that by (auto simp: oldest_acked_id_def filter_empty_conv scan)
    have no_row: "row_acked w \<noteq> 1" if "w \<in> set t" for w
    proof -
      have "(row_id w, entry_of_row w) \<in> set m" using that mem by blast
      from none[OF this] show ?thesis by simp
    qed
    have "set S = {}" unfolding S using no_row by simp
    then have "S = []" by simp
    with None show ?thesis by (simp add: sql_oldest_acked_def S_def)
  next
    case (Some k)
    then obtain x where mk: "min_by_key (\<lambda>(_, w). sint (e_created_at w)) (filter (\<lambda>(_, w). e_acked w) (scan f m)) = Some (k, x)"
      by (auto simp: oldest_acked_id_def)
    note least = min_by_key_Some[OF mk]
    have x: "(k, x) \<in> set m" "e_acked x" using least by (auto simp: scan)
    have min: "sint (e_created_at x) \<le> sint (e_created_at y)" if "(j, y) \<in> set m" "e_acked y" for j y
    proof -
      have "(j, y) \<in> set (filter (\<lambda>(_, w). e_acked w) (scan f m))" using that by (simp add: scan)
      with least show ?thesis by fastforce
    qed
    obtain w where w: "w \<in> set t" "row_id w = k" "x = entry_of_row w" using x(1) mem by blast
    then have wS: "w \<in> set S" using S flag x(2) by simp
    then obtain u S' where u: "S = u # S'" by (cases S) auto
    then have "u \<in> set t" "row_acked u = 1" using S by auto
    then have um: "(row_id u, entry_of_row u) \<in> set m" using mem by blast
    then have "sint (row_created_at w) \<le> sint (row_created_at u)"
      using min[OF um] w(3) \<open>row_acked u = 1\<close> by simp
    moreover have "sint (row_created_at u) \<le> sint (row_created_at w)" using sorted wS by (auto simp: u)
    ultimately have "sint (row_created_at u) = sint (row_created_at w)" by simp
    from arg_cong[OF this, of "of_int :: int \<Rightarrow> i64"] have "row_created_at u = row_created_at w" by simp
    moreover have "map_of m (row_id u) = Some (entry_of_row u)" "map_of m k = Some x"
      using um x(1) ok(2) by (simp_all add: map_ok_def hm_mem)
    ultimately have "row_id u = k"
      using differ[unfolded ages_differ_def, rule_format, of "row_id u" "entry_of_row u" k x] x(2) w(3) \<open>row_acked u = 1\<close>
      by simp
    with Some u show ?thesis by (simp add: sql_oldest_acked_def S_def)
  qed
qed

lemma twins_remove:
  assumes "table_ok t" and "twins t m"
  shows "twins (filter (\<lambda>w. row_id w \<noteq> k) t) (hm_remove k m)"
  unfolding twins_def
proof
  fix j
  show "map_of (hm_remove k m) j = map_option entry_of_row (map_of (keyed (filter (\<lambda>w. row_id w \<noteq> k) t)) j)"
    using assms(2) keyed_mem[of t j]
    by (cases "map_of (keyed t) j") (auto simp: keyed_get_filter[OF assms(1)] twins_def hm_simps)
qed

lemma twins_room:
  assumes ok: "table_ok t" "map_ok m" and tw: "twins t m" and len: "length m \<le> limit" and differ: "ages_differ m"
    and e: "fair_scan e" "reliable e" and f: "fair_scan f" "t_purge e = t_purge f"
    and mr: "make_room e limit t = (t', res)" "memory_make_room f limit m = (m', room)"
  shows "twins t' m' \<and> res = Inr room \<and> table_ok t' \<and> map_ok m'"
proof -
  have fair: "mset (scan e xs) = mset xs" "mset (scan f ys) = mset ys" for xs ys
    using e(1) f(1) by (simp_all add: fair_scan_def)
  have same_len: "length m = length t" using twins_length ok tw by (simp add: map_ok_def)
  show ?thesis
  proof (cases "length t < limit")
    case True
    with mr ok tw same_len e(2) show ?thesis by (simp add: make_room_def count_entries_def memory_make_room_def)
  next
    case False
    let ?t1 = "filter (\<lambda>w. \<not> expired_before (t_purge f) (row_expires_at w)) t"
    obtain m1 ids where de: "memory_delete_expired f m = (m1, ids)" by fastforce
    have tw1: "twins ?t1 m1" by (rule twins_expired[OF ok tw fair(2) de])
    have ok1: "table_ok ?t1" "map_ok m1" using ok memory_delete_expired_spec(1)[OF ok(2) fair(2) de] by simp_all
    have len1: "length m1 = length ?t1" using twins_length ok1 tw1 by (simp add: map_ok_def)
    have count1: "length t - length (filter (\<lambda>w. expired_before (t_purge f) (row_expires_at w)) t) = length ?t1"
      using length_filter_split[of "\<lambda>w. expired_before (t_purge f) (row_expires_at w)" t] by simp
    have del: "delete_expired e t = (?t1, Inr (map row_id (filter (\<lambda>w. expired_before (t_purge f) (row_expires_at w)) t)))"
      using e(2) by (simp add: delete_expired_def sql_delete_expired_def f(2))
    show ?thesis
    proof (cases "length ?t1 < limit")
      case True
      with mr False ok1 tw1 same_len len1 de del count1 e(2) show ?thesis
        by (auto simp: make_room_def count_entries_def memory_make_room_def Let_def)
    next
      case full: False
      have "length m1 \<le> length m" by (rule memory_delete_expired_spec(2)[OF ok(2) fair(2) de])
      then have over: "length ?t1 + 1 - limit = 1" "limit = length ?t1" using full len len1 by simp_all
      have differ1: "ages_differ m1"
      proof -
        have "m1 = fold hm_remove ids m" using de by (auto simp: memory_delete_expired_def Let_def)
        then show ?thesis using differ unfolding ages_differ_def by (simp add: hm_get_remove_all) blast
      qed
      obtain t2 d where da: "sql_delete_acked (scan e) 1 ?t1 = (t2, d)" by fastforce
      note old = oldest_same[OF ok1 tw1 differ1 fair(1) fair(2)]
      define m2 where "m2 = (case oldest_acked_id f m1 of None \<Rightarrow> m1 | Some k \<Rightarrow> hm_remove k m1)"
      have t2: "t2 = (case oldest_acked_id f m1 of None \<Rightarrow> ?t1 | Some k \<Rightarrow> filter (\<lambda>w. row_id w \<noteq> k) ?t1)"
        using da by (auto simp: sql_delete_acked_def Let_def old[unfolded One_nat_def] split: option.splits)
      have tw2: "twins t2 m2" "table_ok t2" "map_ok m2"
        using tw1 ok1 twins_remove[OF ok1(1) tw1] table_ok_filter[OF ok1(1)] map_ok_remove[OF ok1(2)]
        unfolding t2 m2_def by (simp_all split: option.split)
      have len2: "length m2 = length t2" using twins_length tw2 by (simp add: map_ok_def)
      have "length t2 + d = length ?t1" using delete_acked_count[OF ok1(1) fair(1) da] by simp
      then have cnt: "length ?t1 - d = length m2" using len2 by simp
      have "make_room e limit t = (t2, Inr (length ?t1 - d < limit))"
        using False full del count1 over da e(2) by (simp add: make_room_def count_entries_def Let_def)
      moreover have "memory_make_room f limit m = (m2, length m2 < limit)"
        using False full same_len len1 de by (simp add: memory_make_room_def Let_def m2_def)
      ultimately show ?thesis using mr cnt tw2 by simp
    qed
  qed
qed

lemma twins_insert:
  assumes inv: "sqlite_invar r" "memory_invar m" and same: "same_content r m" and differ: "ages_differ (entries m)"
    and e: "fair_scan e" "reliable e" and f: "fair_scan f" "t_purge e = t_purge f" "t_insert e = t_insert f"
  shows "snd (sqlite_insert e r k b ct x) = snd (memory_insert f m k b ct x) \<and>
    same_content (fst (sqlite_insert e r k b ct x)) (fst (memory_insert f m k b ct x))"
proof -
  let ?w = "\<lparr>row_id = k, row_message_body = Some b, row_content_type = ct, row_acked = 0,
      row_expires_at = x, row_created_at = t_insert e\<rparr>"
  let ?x = "\<lparr>e_message_body = Some b, e_content_type = ct, e_acked = False, e_expires_at = x, e_created_at = t_insert f\<rparr>"
  have w: "entry_of_row ?w = ?x" by (simp add: entry_of_row_def f(3))
  have ok: "table_ok (table r)" "map_ok (entries m)" and tw: "twins (table r) (entries m)"
    and lim: "sqlite_max_entries r = memory_max_entries m" "length (entries m) \<le> memory_max_entries m"
    using inv same by (simp_all add: sqlite_invar_def memory_invar_def same_content_def)
  have put: "twins (sql_upsert ?w t) (hm_insert k ?x n)" if "table_ok t" "twins t n" for t n
    using twins_upsert[OF that, of ?w] w by simp
  have ex: "sql_exists k (table r) = hm_contains k (entries m)"
    using tw by (simp add: sql_exists_view table_view_eq hm_contains_def twins_def)
  show ?thesis
  proof (cases "hm_contains k (entries m)")
    case True
    with ex put[OF ok(1) tw] e(2) lim show ?thesis
      by (simp add: sqlite_insert_def contains_def sqlite_write_def memory_insert_def same_content_def)
  next
    case False
    obtain t' res where mr: "make_room e (sqlite_max_entries r) (table r) = (t', res)" by fastforce
    obtain n' room where mm: "memory_make_room f (memory_max_entries m) (entries m) = (n', room)" by fastforce
    note rm = twins_room[OF ok tw lim(2) differ e f(1,2) mr[unfolded lim(1)] mm]
    show ?thesis
    proof (cases room)
      case True
      with rm False ex mr mm put[of t' n'] e(2) lim show ?thesis
        by (simp add: sqlite_insert_def contains_def sqlite_write_def memory_insert_def same_content_def)
    next
      case full: False
      with rm False ex mr mm e(2) lim show ?thesis
        by (simp add: sqlite_insert_def contains_def memory_insert_def same_content_def)
    qed
  qed
qed

lemma twins_acked:
  assumes "sqlite_invar r" and same: "same_content r m" and "reliable e"
  shows "snd (sqlite_ack e r k) = snd (memory_ack f m k) \<and>
    same_content (fst (sqlite_ack e r k)) (fst (memory_ack f m k))"
proof -
  have tw: "twins (table r) (entries m)" using same by (simp add: same_content_def)
  obtain t n where a: "sql_ack k (table r) = (t, n)" by fastforce
  have "(n > 0) = (map_of (entries m) k \<noteq> None)"
    using sql_ack_spec(2)[OF _ a] assms(1) tw by (simp add: sqlite_invar_def table_view_eq twins_def)
  with a twins_ack[OF tw, of k] same assms(3) show ?thesis
    by (cases "map_of (entries m) k") (simp_all add: sqlite_ack_def memory_ack_def same_content_def)
qed

lemma twins_cleanup:
  assumes "sqlite_invar r" and "memory_invar m" and same: "same_content r m"
    and "reliable e" and f: "fair_scan f" "t_purge e = t_purge f"
  shows "same_content (fst (sqlite_cleanup_expired e r)) (fst (memory_cleanup_expired f m)) \<and>
    (\<exists>ids ids'. snd (sqlite_cleanup_expired e r) = Inr ids \<and> snd (memory_cleanup_expired f m) = Inr ids' \<and> set ids = set ids')"
proof -
  have ok: "table_ok (table r)" "map_ok (entries m)" and tw: "twins (table r) (entries m)"
    using assms(1,2) same by (simp_all add: sqlite_invar_def memory_invar_def same_content_def)
  have fair: "mset (scan f ys) = mset ys" for ys using f(1) by (simp add: fair_scan_def)
  obtain n ids where de: "memory_delete_expired f (entries m) = (n, ids)" by fastforce
  have "row_id ` {w \<in> set (table r). expired_before (t_purge f) (row_expires_at w)} = set ids"
    unfolding memory_delete_expired_spec(4)[OF ok(2) fair de] twins_view[OF tw]
    by (auto simp: table_view_mem[OF ok(1)] stored_of_row_def)
  with de twins_expired[OF ok tw fair de] same assms(4) show ?thesis
    by (simp add: sqlite_cleanup_expired_def delete_expired_def sql_delete_expired_def memory_cleanup_expired_def
        same_content_def f(2))
qed

end
