(* ===== verification/Storage_Properties.thy ===== *)
theory Storage_Properties
  imports Storage_Agreement
begin

text \<open>
  The properties of the two storage back ends, each stated over the back end's own operations, and
  the sample stores at which they are instantiated.
\<close>

section \<open>Sample stores\<close>

definition sample_row :: "string \<Rightarrow> bytes option \<Rightarrow> i64 \<Rightarrow> i64 \<Rightarrow> row" where
  "sample_row k b x c = \<lparr>row_id = k, row_message_body = b, row_content_type = None,
     row_acked = (if b = None then 1 else 0), row_expires_at = x, row_created_at = c\<rparr>"

text \<open>Three slots, all taken: \<open>a\<close> and \<open>b\<close> are acknowledged, \<open>b\<close> is the older one.\<close>

definition sample_sqlite :: sqlite_repo where
  "sample_sqlite = \<lparr>table = [sample_row ''a'' None 100 5, sample_row ''b'' None 100 3,
     sample_row ''c'' (Some [7]) 100 1], sqlite_max_entries = 3\<rparr>"

definition sample_entry :: "bytes option \<Rightarrow> i64 \<Rightarrow> i64 \<Rightarrow> entry" where
  "sample_entry b x c = \<lparr>e_message_body = b, e_content_type = None, e_acked = (b = None),
     e_expires_at = x, e_created_at = c\<rparr>"

definition sample_memory :: memory_repo where
  "sample_memory = \<lparr>entries = [(''a'', sample_entry None 100 5), (''b'', sample_entry None 100 3),
     (''c'', sample_entry (Some [7]) 100 1)], memory_max_entries = 3\<rparr>"

lemmas sample_defs =
  sample_row_def sample_sqlite_def sample_entry_def sample_memory_def

lemma sample_sqlite_ok: "sqlite_invar sample_sqlite"
  by (simp add: sample_defs sqlite_invar_def table_ok_def)

lemma sample_memory_ok: "memory_invar sample_memory"
  by (simp add: sample_defs memory_invar_def map_ok_def hm_ok_def)

section \<open>Admission\<close>

text \<open>C9.  With a working database, \<open>insert\<close> of \<open>persistence.rs\<close> stores the
  message exactly if the ID exists already or fewer than \<open>max_entries\<close> IDs hold an undelivered
  message that is not expired; otherwise the answer is \<open>StoreFull\<close>.\<close>

theorem sqlite_insert_admission:
  assumes "sqlite_invar r" and "fair_scan e" and "reliable e"
  shows "snd (sqlite_insert e r k b ct x) =
    Inr (if sqlite_view r k \<noteq> None \<or> card (held (t_purge e) (sqlite_view r)) < sqlite_max_entries r
         then Stored else StoreFull)"
  using sqlite.insert_admission[OF assms] by simp

lemma sqlite_insert_admission_witness:
  "snd (sqlite_insert (calm_env 50 0 (\<lambda>_. False)) sample_sqlite ''d'' [1] None 200) = Inr Stored \<and>
   snd (sqlite_insert (calm_env 50 0 (\<lambda>_. False)) sample_sqlite ''d'' [1] None 200) =
    Inr (if sqlite_view sample_sqlite ''d'' \<noteq> None \<or>
            card (held 50 (sqlite_view sample_sqlite)) < sqlite_max_entries sample_sqlite
         then Stored else StoreFull)"
proof
  show "snd (sqlite_insert (calm_env 50 0 (\<lambda>_. False)) sample_sqlite ''d'' [1] None 200) = Inr Stored"
    by code_simp
  show "snd (sqlite_insert (calm_env 50 0 (\<lambda>_. False)) sample_sqlite ''d'' [1] None 200) =
    Inr (if sqlite_view sample_sqlite ''d'' \<noteq> None \<or>
            card (held 50 (sqlite_view sample_sqlite)) < sqlite_max_entries sample_sqlite
         then Stored else StoreFull)"
    by (rule sqlite_insert_admission[OF sample_sqlite_ok calm_env_ok, unfolded calm_env_simps])
qed

text \<open>C26.  The in-memory \<open>insert\<close> of \<open>storage_memory.rs\<close> follows the same
  rule, and it never fails.\<close>

theorem memory_insert_admission:
  assumes "memory_invar r" and "fair_scan e"
  shows "snd (memory_insert e r k b ct x) =
    Inr (if memory_view r k \<noteq> None \<or> card (held (t_purge e) (memory_view r)) < memory_max_entries r
         then Stored else StoreFull)"
proof -
  obtain r' res where ins: "memory_insert e r k b ct x = (r', res)" by fastforce
  then obtain out where "res = Inr out" using memory_insert_spec[OF assms ins] by blast
  with ins memory_insert_spec[OF assms ins] show ?thesis
    by (cases out) auto
qed

lemma memory_insert_admission_witness:
  "snd (memory_insert (calm_env 50 0 (\<lambda>_. False)) sample_memory ''d'' [1] None 200) = Inr Stored \<and>
   snd (memory_insert (calm_env 50 0 (\<lambda>_. False)) sample_memory ''d'' [1] None 200) =
    Inr (if memory_view sample_memory ''d'' \<noteq> None \<or>
            card (held 50 (memory_view sample_memory)) < memory_max_entries sample_memory
         then Stored else StoreFull)"
proof
  show "snd (memory_insert (calm_env 50 0 (\<lambda>_. False)) sample_memory ''d'' [1] None 200) = Inr Stored"
    by code_simp
  show "snd (memory_insert (calm_env 50 0 (\<lambda>_. False)) sample_memory ''d'' [1] None 200) =
    Inr (if memory_view sample_memory ''d'' \<noteq> None \<or>
            card (held 50 (memory_view sample_memory)) < memory_max_entries sample_memory
         then Stored else StoreFull)"
    by (rule memory_insert_admission[OF sample_memory_ok calm_env_ok(1), unfolded calm_env_simps])
qed

section \<open>Nothing undelivered is lost\<close>

text \<open>C10.  Whatever the outcome of an SQLite \<open>insert\<close>, database errors
  included, every other ID that holds an undelivered, unexpired message keeps it unchanged.\<close>

theorem sqlite_insert_frame:
  assumes "sqlite_invar r" and "fair_scan e" and "sqlite_insert e r k b ct x = (r', res)"
    and "j \<in> held (t_purge e) (sqlite_view r)" and "j \<noteq> k"
  shows "sqlite_view r' j = sqlite_view r j"
proof -
  have "repo_insert sqlite_ops e r k b ct x = (r', res)" using assms(3) by simp
  from sqlite.insert_frame[OF assms(1,2) this assms(4,5)] show ?thesis .
qed

lemma sqlite_insert_frame_witness:
  "sqlite_view (fst (sqlite_insert (calm_env 50 0 (\<lambda>_. False)) sample_sqlite ''d'' [1] None 200)) ''c'' =
   sqlite_view sample_sqlite ''c''"
proof -
  have h: "''c'' \<in> held (t_purge (calm_env 50 0 (\<lambda>_. False) :: row env)) (sqlite_view sample_sqlite)"
    by (simp add: held_def disposable_def expired_before_def sqlite_view_def table_view_def
        sql_select_def stored_of_row_def sample_defs)
  show ?thesis
    by (rule sqlite_insert_frame[OF sample_sqlite_ok calm_env_ok(1) surjective_pairing h]) simp
qed

text \<open>C29.  The same holds for the in-memory \<open>insert\<close>: whatever it evicts to make room, and
  when it rejects the message, every other ID that holds an undelivered, unexpired message keeps it
  unchanged.\<close>

theorem memory_insert_frame:
  assumes "memory_invar r" and "fair_scan e" and "memory_insert e r k b ct x = (r', res)"
    and "j \<in> held (t_purge e) (memory_view r)" and "j \<noteq> k"
  shows "memory_view r' j = memory_view r j"
proof -
  have "repo_insert memory_ops e r k b ct x = (r', res)" using assms(3) by simp
  from memory.insert_frame[OF assms(1,2) this assms(4,5)] show ?thesis .
qed

lemma memory_insert_frame_witness:
  "memory_view (fst (memory_insert (calm_env 50 0 (\<lambda>_. False)) sample_memory ''d'' [1] None 200)) ''c'' =
   memory_view sample_memory ''c''"
proof -
  have h: "''c'' \<in> held (t_purge (calm_env 50 0 (\<lambda>_. False) :: (string \<times> entry) env)) (memory_view sample_memory)"
    by (simp add: held_def disposable_def expired_before_def memory_view_def map_view_def
        stored_of_entry_def sample_defs)
  show ?thesis
    by (rule memory_insert_frame[OF sample_memory_ok calm_env_ok(1) surjective_pairing h]) simp
qed

section \<open>What is inserted is found\<close>

text \<open>C38.  A message that SQLite's \<open>insert\<close> reports as stored is what a later
  \<open>get\<close> returns if the database can be read: body, Content-Type and expiry as given, and not acknowledged, also where the ID
  held an acknowledged entry before.\<close>

theorem sqlite_insert_get:
  assumes "sqlite_invar r" and "fair_scan e" and "sqlite_insert e r k b ct x = (r', Inr Stored)"
    and "reliable e'"
  shows "sqlite_get e' r' k =
    Inr (Some \<lparr>message_body = Some b, content_type = ct, acked = False, expires_at = x\<rparr>)"
proof -
  have ins: "repo_insert sqlite_ops e r k b ct x = (r', Inr Stored)" using assms(3) by simp
  have "sqlite_invar r'" using sqlite.insert_keeps[OF assms(1,2) ins] by simp
  from sqlite.get_calm[OF this assms(4)] sqlite.insert_stored[OF assms(1,2) ins] show ?thesis
    by (auto simp: fresh_entry_def)
qed

lemma sqlite_insert_get_witness:
  "\<exists>r'. sqlite_insert (calm_env 50 0 (\<lambda>_. False)) sample_sqlite ''a'' [1] None 200 = (r', Inr Stored) \<and>
    sqlite_get (calm_env 50 0 (\<lambda>_. False)) r' ''a'' =
      Inr (Some \<lparr>message_body = Some [1], content_type = None, acked = False, expires_at = 200\<rparr>)"
proof -
  have "snd (sqlite_insert (calm_env 50 0 (\<lambda>_. False)) sample_sqlite ''a'' [1] None 200) = Inr Stored"
    by code_simp
  then obtain r' where i: "sqlite_insert (calm_env 50 0 (\<lambda>_. False)) sample_sqlite ''a'' [1] None 200 = (r', Inr Stored)"
    by (metis prod.collapse)
  from i sqlite_insert_get[OF sample_sqlite_ok calm_env_ok(1) i calm_env_ok(2)] show ?thesis by blast
qed

section \<open>The back ends agree\<close>

text \<open>C14.  While no SQL statement fails, the two modules behind \<open>EntryRepository\<close> are
  interchangeable: if both have the same entries (creation times included), the same
  \<open>max_entries\<close> and read the same clock, if the map has at most \<open>max_entries\<close> entries, and if no two
  acknowledged entries were created in the same millisecond, then \<open>insert\<close>, \<open>get\<close> and \<open>ack\<close> return the
  same, \<open>cleanup_expired\<close> reports the same IDs, and afterwards both have the same entries again.\<close>

theorem backends_agree:
  assumes "sqlite_invar r" and "memory_invar m" and "same_content r m" and "ages_differ (entries m)"
    and "fair_scan e" and "reliable e" and "fair_scan f" and "t_purge e = t_purge f" and "t_insert e = t_insert f"
  shows "sqlite_get e r k = memory_get f m k \<and>
    snd (sqlite_insert e r k b ct x) = snd (memory_insert f m k b ct x) \<and>
    same_content (fst (sqlite_insert e r k b ct x)) (fst (memory_insert f m k b ct x)) \<and>
    snd (sqlite_ack e r k) = snd (memory_ack f m k) \<and>
    same_content (fst (sqlite_ack e r k)) (fst (memory_ack f m k)) \<and>
    (\<exists>ids ids'. snd (sqlite_cleanup_expired e r) = Inr ids \<and> snd (memory_cleanup_expired f m) = Inr ids' \<and>
       set ids = set ids') \<and>
    same_content (fst (sqlite_cleanup_expired e r)) (fst (memory_cleanup_expired f m))"
proof -
  have "memory_get f m k = Inr (memory_view m k)" by (simp add: memory_get_def memory_view_def map_view_def)
  moreover have "memory_view m = sqlite_view r"
    using twins_view assms(3) by (simp add: same_content_def memory_view_def sqlite_view_def)
  ultimately have "sqlite_get e r k = memory_get f m k"
    using sqlite.get_calm[OF assms(1,6)] by simp
  with twins_insert[OF assms, of k b ct x] twins_acked[OF assms(1,3,6), of k f] twins_cleanup[OF assms(1-3,6-8)]
  show ?thesis by (elim conjE) (intro conjI)
qed

text \<open>Both full sample stores give up \<open>b\<close> for \<open>d\<close>.\<close>

lemma backends_agree_witness:
  "snd (memory_insert (calm_env 50 0 (\<lambda>_. False)) sample_memory ''d'' [1] None 90) = Inr Stored \<and>
   same_content (fst (sqlite_insert (calm_env 50 0 (\<lambda>_. False)) sample_sqlite ''d'' [1] None 90))
     (fst (memory_insert (calm_env 50 0 (\<lambda>_. False)) sample_memory ''d'' [1] None 90))"
proof -
  have same: "same_content sample_sqlite sample_memory"
    by (simp add: same_content_def twins_def keyed_def sample_defs entry_of_row_def)
  have differ: "ages_differ (entries sample_memory)"
    by (auto simp: ages_differ_def sample_defs split: if_splits)
  have "snd (memory_insert (calm_env 50 0 (\<lambda>_. False)) sample_memory ''d'' [1] None 90) = Inr Stored" by code_simp
  with backends_agree[OF sample_sqlite_ok sample_memory_ok same differ calm_env_ok calm_env_ok(1), of 50 0 "\<lambda>_. False" 50 0 "\<lambda>_. False"]
  show ?thesis by simp
qed

section \<open>Making room\<close>

text \<open>Among the acknowledged rows, \<open>sql_oldest_acked\<close> takes none before an older one.\<close>

lemma oldest_first:
  assumes ok: "table_ok t" and fair: "\<And>xs. mset (visit xs) = mset xs"
    and w: "w \<in> set t" "row_acked w = 1" "row_id w \<in> set (sql_oldest_acked visit n t)"
    and w': "w' \<in> set t" "row_acked w' = 1" "row_id w' \<notin> set (sql_oldest_acked visit n t)"
  shows "sint (row_created_at w) \<le> sint (row_created_at w')"
proof -
  define A where "A = filter (\<lambda>w. row_acked w = 1) t"
  define S where "S = sort_key (\<lambda>w. sint (row_created_at w)) (visit A)"
  have ids: "sql_oldest_acked visit n t = map row_id (take n S)"
    by (simp add: sql_oldest_acked_def S_def A_def)
  have "mset S = mset A" by (simp add: S_def fair)
  then have S: "set S = set A" by (metis set_mset_mset)
  have inj: "inj_on row_id (set t)" using ok by (simp add: table_ok_def distinct_map)
  have "w \<in> set (take n S)"
  proof -
    obtain u where u: "u \<in> set (take n S)" "row_id u = row_id w" using w(3) ids by auto
    then have "u \<in> set t" using S set_take_subset[of n S] by (auto simp: A_def)
    with inj u(2) w(1) have "u = w" by (auto dest: inj_onD)
    with u(1) show ?thesis by simp
  qed
  moreover have "w' \<in> set (drop n S)"
  proof -
    have "w' \<in> set S" using S w'(1,2) by (simp add: A_def)
    moreover have "w' \<notin> set (take n S)" using w'(3) ids by auto
    ultimately show ?thesis by (metis Un_iff append_take_drop_id set_append)
  qed
  moreover have "sorted (map (\<lambda>w. sint (row_created_at w)) (take n S @ drop n S))"
    by (simp add: S_def)
  ultimately show ?thesis by (simp add: sorted_append del: append_take_drop_id)
qed

text \<open>C27.  When SQLite's \<open>make_room\<close> deletes an entry that is not expired,
  that entry was acknowledged, and no acknowledged entry that stays is older.  It deletes no more than
  it has to: at least \<open>max_entries - 1\<close> entries stay, and exactly that many if any acknowledged
  entry stays.  The result says whether a slot is free.\<close>

theorem sqlite_make_room_oldest:
  assumes ok: "table_ok t" and fair: "fair_scan e" and mr: "make_room e limit t = (t', Inr room)"
    and w: "w \<in> set t" "w \<notin> set t'" "\<not> expired_before (t_purge e) (row_expires_at w)"
  shows "row_acked w = 1 \<and>
    (\<forall>w' \<in> set t'. row_acked w' = 1 \<longrightarrow> sint (row_created_at w) \<le> sint (row_created_at w')) \<and>
    limit - 1 \<le> length t' \<and> ((\<exists>w' \<in> set t'. row_acked w' = 1) \<longrightarrow> length t' = limit - 1) \<and>
    (room \<longleftrightarrow> length t' < limit)"
proof -
  have fair': "mset (scan e xs) = mset xs" for xs using fair by (simp add: fair_scan_def)
  have "t' \<noteq> t" using w(1,2) by blast
  with mr have full: "\<not> fault e S_count" "\<not> length t < limit"
    by (auto simp: make_room_def count_entries_def split: if_splits)
  obtain t1 dres where de: "delete_expired e t = (t1, dres)" by fastforce
  from de show ?thesis
  proof (cases rule: delete_expired_cases)
    case (failed err)
    with mr full de show ?thesis by (simp add: make_room_def count_entries_def)
  next
    case (purge ids)
    have "w \<in> set t1" using w purge(2) by simp
    then have "t' \<noteq> t1" using w(2) by blast
    have c1: "length t - length ids = length t1" using purge(4) by simp
    let ?over = "length t1 + 1 - limit"
    obtain t2 d where da: "sql_delete_acked (scan e) ?over t1 = (t2, d)" by fastforce
    have over: "\<not> length t1 < limit" and out: "t' = t2" "room = (length t1 - d < limit)"
      using mr full de purge(1) c1 da \<open>t' \<noteq> t1\<close>
      by (auto simp: make_room_def count_entries_def Let_def split: if_splits)
    have ok1: "table_ok t1" using ok purge(2) by simp
    have t2: "t2 = filter (\<lambda>w. row_id w \<notin> set (sql_oldest_acked (scan e) ?over t1)) t1"
      using da by (auto simp: sql_delete_acked_def Let_def)
    have w1: "row_id w \<in> set (sql_oldest_acked (scan e) ?over t1)"
      using \<open>w \<in> set t1\<close> w(2) out(1) t2 by auto
    have older: "sint (row_created_at w) \<le> sint (row_created_at w')" if "row_acked w = 1" "w' \<in> set t'" "row_acked w' = 1" for w'
    proof -
      have "w' \<in> set t1" "row_id w' \<notin> set (sql_oldest_acked (scan e) ?over t1)"
        using that(2) out(1) t2 by auto
      from oldest_first[OF ok1 fair' \<open>w \<in> set t1\<close> that(1) w1 this(1) that(3) this(2)] show ?thesis .
    qed
    have acked: "row_acked w = 1"
    proof -
      obtain P where "t2 = filter P t1" "\<forall>w \<in> set t1. \<not> P w \<longrightarrow> row_acked w = 1"
        using delete_acked_rows(1)[OF ok1 fair' da] by blast
      with \<open>w \<in> set t1\<close> w(2) out(1) show ?thesis by auto
    qed
    have cnt: "d = min ?over (length (filter (\<lambda>w. row_acked w = 1) t1))" "length t2 + d = length t1"
      using delete_acked_count[OF ok1 fair' da] by simp_all
    have "d = ?over" if "w' \<in> set t'" "row_acked w' = 1" for w'
    proof (rule ccontr)
      assume "d \<noteq> ?over"
      then have "d < ?over" using cnt(1) by simp
      from delete_acked_rows(2)[OF ok1 fair' da this] that out(1) show False by simp
    qed
    then have "(\<exists>w' \<in> set t'. row_acked w' = 1) \<longrightarrow> length t2 = limit - 1" using cnt(2) over by fastforce
    moreover have "limit - 1 \<le> length t2" "length t1 - d = length t2" using cnt over by arith+
    ultimately show ?thesis using acked older out by simp
  qed
qed

text \<open>The sample store has to give up one entry: \<open>b\<close>, the older of the acknowledged ones.\<close>

lemma sqlite_make_room_oldest_witness:
  "\<exists>t'. make_room (calm_env 50 0 (\<lambda>_. False)) 3 (table sample_sqlite) = (t', Inr True) \<and>
     sample_row ''b'' None 100 3 \<notin> set t' \<and> 3 - 1 \<le> length t'"
proof -
  let ?e = "calm_env 50 0 (\<lambda>_. False) :: row env"
  define t' where "t' = fst (make_room ?e 3 (table sample_sqlite))"
  have t': "make_room ?e 3 (table sample_sqlite) = (t', Inr True)" "t' = [sample_row ''a'' None 100 5, sample_row ''c'' (Some [7]) 100 1]"
    unfolding t'_def by code_simp+
  have ok: "table_ok (table sample_sqlite)" using sample_sqlite_ok by (simp add: sqlite_invar_def)
  have w: "sample_row ''b'' None 100 3 \<in> set (table sample_sqlite)" "sample_row ''b'' None 100 3 \<notin> set t'"
    "\<not> expired_before (t_purge ?e) (row_expires_at (sample_row ''b'' None 100 3))"
    by (simp_all add: t'(2) sample_defs expired_before_def)
  from sqlite_make_room_oldest[OF ok calm_env_ok(1) t'(1) w] t'(1) w(2) show ?thesis by blast
qed

end
