(* ===== verification/Waiting_List_Properties.thy ===== *)
theory Waiting_List_Properties
  imports Waiting_List_Signals Storage_Properties
begin

text \<open>
  The properties of the waiting list over the back ends that the crate compiles.  The invariant
  \<open>wl_inv\<close> is what every method keeps; \<open>Relay_Correct\<close> shows that it always holds.
\<close>

section \<open>Sample waiting lists\<close>

text \<open>Two slots; \<open>m\<close> has a message, \<open>w\<close> has a consumer that waits on channel 4.\<close>

definition sample_wl :: "memory_repo waiting_list" where
  "sample_wl = \<lparr>repository = \<lparr>entries = [(''m'', sample_entry (Some [7]) 100 1)], memory_max_entries = 2\<rparr>,
     waiters_map = [(''w'', \<lparr>ack_waiters = [], message_waiters = [4]\<rparr>),
                    (''m'', \<lparr>ack_waiters = [5], message_waiters = []\<rparr>)],
     max_waiting_ids = 2, last_full_map_prune = Some 0\<rparr>"

lemma sample_wl_ok: "wl_inv memory_ops memory_invar memory_view sample_wl"
  by (simp add: sample_wl_def sample_entry_def wl_inv_def memory_invar_def map_ok_def hm_ok_def
      waiters_ok_def waiters_is_empty_def waiters_bounded_def max_waiters_per_entry_def
      memory_view_def map_view_def stored_of_entry_def waiters_at_def waiters_new_def)

abbreviation calm :: "i64 \<Rightarrow> 'x env" where
  "calm t \<equiv> calm_env t 0 (\<lambda>_. False)"

definition sample_sqlite_wl :: "sqlite_repo waiting_list" where
  "sample_sqlite_wl = \<lparr>repository = sqlite_new None 1, waiters_map = [(''w'', \<lparr>ack_waiters = [], message_waiters = [4]\<rparr>)],
     max_waiting_ids = 1, last_full_map_prune = Some 0\<rparr>"

lemma sample_sqlite_wl_ok: "wl_inv sqlite_ops sqlite_invar sqlite_view sample_sqlite_wl"
  by (simp add: sample_sqlite_wl_def sqlite_new_def create_schema_def wl_inv_def sqlite_invar_def
      table_ok_def hm_ok_def waiters_ok_def waiters_is_empty_def waiters_bounded_def
      max_waiters_per_entry_def sqlite_view_def table_view_def sql_select_def)

section \<open>\<open>store\<close>\<close>

text \<open>C16.  When \<open>store\<close> succeeds, the message is in the store under its ID with the
  expiry that the TTL gives, every consumer that waited for the ID has been sent exactly this
  message, nobody else has been sent one, producers that waited for the ACK of the previous
  message are told that it is gone, and no waiter of the ID is left behind.\<close>

theorem store_delivers:
  assumes "wl_inv memory_ops memory_invar memory_view wl" and "fair_scan e"
    and "store memory_ops e k m ttl wl = (wl', sigs, Inr Stored)"
  shows "memory_view (repository wl') k =
      Some (fresh_entry (body m) (msg_content_type m) (t_store e + of_nat (as_millis ttl))) \<and>
    (\<forall>c \<in> set (msgs_at (waiters_map wl) k). SentMessage c m \<in> set sigs) \<and>
    (\<forall>c m'. SentMessage c m' \<in> set sigs \<longrightarrow> c \<in> set (msgs_at (waiters_map wl) k) \<and> m' = m) \<and>
    (\<forall>c \<in> set (acks_at (waiters_map wl) k). Dropped c \<in> set sigs) \<and>
    waiters_at (waiters_map wl') k = waiters_new"
  using memory.store_stored[OF assms] by blast

lemma store_delivers_witness:
  "\<exists>wl' sigs. store memory_ops (calm 50) ''w'' \<lparr>body = [1], msg_content_type = None\<rparr> (from_secs 1) sample_wl =
      (wl', sigs, Inr Stored) \<and> SentMessage 4 \<lparr>body = [1], msg_content_type = None\<rparr> \<in> set sigs"
proof -
  let ?m = "\<lparr>body = [1], msg_content_type = None\<rparr> :: message"
  have "snd (snd (store memory_ops (calm 50) ''w'' ?m (from_secs 1) sample_wl)) = Inr Stored"
    by (simp add: store_def memory_insert_def memory_make_room_def hm_contains_def sample_wl_def split: prod.split)
  then obtain wl' sigs where st: "store memory_ops (calm 50) ''w'' ?m (from_secs 1) sample_wl = (wl', sigs, Inr Stored)"
    by (metis prod.collapse)
  have "4 \<in> set (msgs_at (waiters_map sample_wl) ''w'')" by (simp add: sample_wl_def waiters_at_def)
  with store_delivers[OF sample_wl_ok calm_env_ok(1) st] st show ?thesis by blast
qed

text \<open>A message that the store rejects as full changes nothing for anyone: no
  waiter is told or dropped, every held message stays, and the store does hold
  \<open>max_entries\<close> undelivered messages.\<close>

lemma store_rejected:
  assumes "wl_inv sqlite_ops sqlite_invar sqlite_view wl" and "fair_scan e"
    and "store sqlite_ops e k m ttl wl = (wl', sigs, Inr StoreFull)"
  shows "sigs = [] \<and> waiters_map wl' = waiters_map wl \<and> sqlite_view (repository wl') k = None \<and>
    (\<forall>j \<in> held (t_purge e) (sqlite_view (repository wl)).
       sqlite_view (repository wl') j = sqlite_view (repository wl) j) \<and>
    max_waiting_ids wl \<le> card (held (t_purge e) (sqlite_view (repository wl)))"
  using sqlite.store_full[OF assms] by blast

definition full_sqlite_wl :: "sqlite_repo waiting_list" where
  "full_sqlite_wl = waiting_list_new sqlite_ops
     \<lparr>table = [sample_row ''c'' (Some [7]) 100 1], sqlite_max_entries = 1\<rparr>"

lemma store_rejected_witness:
  "\<exists>wl' sigs. store sqlite_ops (calm 50) ''w'' \<lparr>body = [1], msg_content_type = None\<rparr> (from_secs 1) full_sqlite_wl =
      (wl', sigs, Inr StoreFull) \<and> sigs = []"
proof -
  let ?m = "\<lparr>body = [1], msg_content_type = None\<rparr> :: message"
  have "snd (snd (store sqlite_ops (calm 50) ''w'' ?m (from_secs 1) full_sqlite_wl)) = Inr StoreFull"
    by (simp add: store_def sqlite_insert_def make_room_def contains_def count_entries_def delete_expired_def
        sql_delete_expired_def sql_delete_acked_def sql_oldest_acked_def sql_exists_def expired_before_def
        full_sqlite_wl_def waiting_list_new_def sample_row_def split: prod.split)
  then obtain wl' sigs where st: "store sqlite_ops (calm 50) ''w'' ?m (from_secs 1) full_sqlite_wl = (wl', sigs, Inr StoreFull)"
    by (metis prod.collapse)
  have "wl_inv sqlite_ops sqlite_invar sqlite_view full_sqlite_wl"
    unfolding full_sqlite_wl_def
    by (rule sqlite.good_new) (simp add: sqlite_invar_def table_ok_def sample_row_def)
  from store_rejected[OF this calm_env_ok(1) st] st show ?thesis by blast
qed

text \<open>C12.  When the database fails during \<open>store\<close>, the message reaches every consumer
  that waits for its ID all the same, although the producer gets an error.  What the store has
  under the ID stays as it was, and so does every message that it holds; but the producers that wait
  for the ACK of the entry that was to be replaced are told that it is gone.\<close>

theorem failed_store_delivers:
  assumes "wl_inv sqlite_ops sqlite_invar sqlite_view wl" and "fair_scan e"
    and "store sqlite_ops e k m ttl wl = (wl', sigs, Inl err)"
  shows "(\<forall>c \<in> set (msgs_at (waiters_map wl) k). SentMessage c m \<in> set sigs) \<and>
    (\<forall>c \<in> set (acks_at (waiters_map wl) k). Dropped c \<in> set sigs) \<and>
    sqlite_view (repository wl') k = sqlite_view (repository wl) k \<and>
    (\<forall>j \<in> held (t_purge e) (sqlite_view (repository wl)).
       sqlite_view (repository wl') j = sqlite_view (repository wl) j)"
proof -
  obtain r where ins: "repo_insert sqlite_ops e (repository wl) k (body m) (msg_content_type m)
        (t_store e + of_nat (as_millis ttl)) = (r, Inl err)"
    and wl': "repository wl' = r"
    and sigs: "sigs = map Dropped (acks_at (waiters_map wl) k) @ map (\<lambda>c. SentMessage c m) (msgs_at (waiters_map wl) k)"
    using assms(3) by (auto simp: store_eq split: prod.splits if_splits)
  note inv = sqlite.goodD(1)[OF assms(1)]
  from sqlite.insert_error[OF inv assms(2) ins]
  have k: "sqlite_view r k = sqlite_view (repository wl) k"
    by (auto split: if_splits dest: purged_None)
  moreover have "sqlite_view r j = sqlite_view (repository wl) j"
    if "j \<in> held (t_purge e) (sqlite_view (repository wl))" for j
    using sqlite.insert_frame[OF inv assms(2) ins that] k by (cases "j = k") auto
  ultimately show ?thesis by (auto simp: wl' sigs)
qed
lemma failed_store_delivers_witness:
  "\<exists>wl' sigs err. store sqlite_ops ((calm 50)\<lparr>fault := \<lambda>s. s = S_upsert\<rparr>) ''w'' \<lparr>body = [1], msg_content_type = None\<rparr>
      (from_secs 1) sample_sqlite_wl = (wl', sigs, Inl err) \<and>
     SentMessage 4 \<lparr>body = [1], msg_content_type = None\<rparr> \<in> set sigs \<and> sqlite_view (repository wl') ''w'' = None"
proof -
  let ?m = "\<lparr>body = [1], msg_content_type = None\<rparr> :: message" and ?e = "(calm 50)\<lparr>fault := \<lambda>s. s = S_upsert\<rparr> :: row env"
  have "snd (snd (store sqlite_ops ?e ''w'' ?m (from_secs 1) sample_sqlite_wl)) = Inl ''Failed to insert entry''"
    by (simp add: store_def sqlite_insert_def make_room_def contains_def count_entries_def sql_exists_def
        sqlite_write_def sample_sqlite_wl_def sqlite_new_def create_schema_def split: prod.split)
  then obtain wl' sigs where st: "store sqlite_ops ?e ''w'' ?m (from_secs 1) sample_sqlite_wl =
      (wl', sigs, Inl ''Failed to insert entry'')" by (metis prod.collapse)
  have fair: "fair_scan ?e" by (simp add: fair_scan_def)
  have "4 \<in> set (msgs_at (waiters_map sample_sqlite_wl) ''w'')" "sqlite_view (repository sample_sqlite_wl) ''w'' = None"
    by (simp_all add: sample_sqlite_wl_def waiters_at_def sqlite_new_def create_schema_def sqlite_view_def
        table_view_def sql_select_def)
  with failed_store_delivers[OF sample_sqlite_wl_ok fair st] st show ?thesis by metis
qed

section \<open>\<open>ack\<close>\<close>

text \<open>The message \<open>c\<close>, with a producer that waits on channel 5 for its ACK.\<close>

definition acking_sqlite_wl :: "sqlite_repo waiting_list" where
  "acking_sqlite_wl = full_sqlite_wl\<lparr>waiters_map := [(''c'', \<lparr>ack_waiters = [5], message_waiters = []\<rparr>)]\<rparr>"

lemma acking_sqlite_wl_ok: "wl_inv sqlite_ops sqlite_invar sqlite_view acking_sqlite_wl"
  by (simp add: acking_sqlite_wl_def full_sqlite_wl_def waiting_list_new_def wl_inv_def sqlite_invar_def
      table_ok_def hm_ok_def waiters_ok_def waiters_is_empty_def waiters_bounded_def
      max_waiters_per_entry_def sqlite_view_def table_view_def sql_select_def sample_row_def stored_of_row_def
      waiters_at_def)

text \<open>C23.  With SQLite, \<open>ack\<close> reports success exactly if the entry can be read, is not
  expired, and is acknowledged already or can be updated; a database error counts as a failure.
  On success the entry is acknowledged and its body deleted, no other entry changes, and exactly the
  requests that wait for the ACK of the ID are told; otherwise nothing changes and nobody is told.\<close>

theorem ack_exact:
  assumes "wl_inv sqlite_ops sqlite_invar sqlite_view wl"
    and "ack sqlite_ops e k wl = (wl', sigs, ok)"
  shows "(ok \<longleftrightarrow> \<not> fault e S_select \<and> (\<exists>s. sqlite_view (repository wl) k = Some s \<and>
        \<not> is_expired (t_check e) (expires_at s) \<and> (acked s \<or> \<not> fault e S_ack))) \<and>
    (ok \<longrightarrow> (\<exists>s. sqlite_view (repository wl) k = Some s \<and>
        sqlite_view (repository wl') = (sqlite_view (repository wl))(k \<mapsto> s\<lparr>message_body := None, acked := True\<rparr>)) \<and>
      sigs = map SentAck (acks_at (waiters_map wl) k)) \<and>
    (\<not> ok \<longrightarrow> wl' = wl \<and> sigs = [])"
proof (intro conjI impI)
  have get: "sqlite_get e (repository wl) k =
      (if fault e S_select then Inl ''Failed to get entry'' else Inr (sqlite_view (repository wl) k))"
    by (simp add: sqlite_get_def sqlite_view_def table_view_def)
  have ackd: "\<exists>r n. sqlite_ack e (repository wl) k =
      (if fault e S_ack then (repository wl, Inl ''Failed to acknowledge entry'') else (r, Inr n))"
    by (simp add: sqlite_ack_def split: prod.split)
  show "ok \<longleftrightarrow> \<not> fault e S_select \<and> (\<exists>s. sqlite_view (repository wl) k = Some s \<and>
        \<not> is_expired (t_check e) (expires_at s) \<and> (acked s \<or> \<not> fault e S_ack))"
    using assms(2) get ackd
    by (auto simp: ack_def split: if_splits option.splits prod.splits)
  show "wl' = wl" "sigs = []" if "\<not> ok"
    using that assms(2) get ackd by (auto simp: ack_def split: if_splits option.splits prod.splits)
  assume ok
  with assms(2) have ak: "ack sqlite_ops e k wl = (wl', sigs, True)" by simp
  show "\<exists>s. sqlite_view (repository wl) k = Some s \<and>
        sqlite_view (repository wl') = (sqlite_view (repository wl))(k \<mapsto> s\<lparr>message_body := None, acked := True\<rparr>)"
    using sqlite.ack_done(1)[OF assms(1) ak] by (auto simp: live_at_def acked_entry_def)
  show "sigs = map SentAck (acks_at (waiters_map wl) k)" by (rule sqlite.ack_done(2)[OF assms(1) ak])
qed

lemma ack_exact_witness:
  "\<exists>wl' sigs. ack sqlite_ops (calm 50) ''c'' acking_sqlite_wl = (wl', sigs, True) \<and> sigs = [SentAck 5]"
proof -
  obtain wl' sigs ok where ak: "ack sqlite_ops (calm 50) ''c'' acking_sqlite_wl = (wl', sigs, ok)"
    by (metis prod_cases3)
  have "sqlite_view (repository acking_sqlite_wl) ''c'' =
      Some \<lparr>message_body = Some [7], content_type = None, acked = False, expires_at = 100\<rparr>"
    by (simp add: acking_sqlite_wl_def full_sqlite_wl_def waiting_list_new_def sqlite_view_def table_view_def
        sql_select_def sample_row_def stored_of_row_def)
  with ack_exact[OF acking_sqlite_wl_ok ak] ak show ?thesis
    by (auto simp: acking_sqlite_wl_def waiters_at_def is_expired_def)
qed

text \<open>The in-memory back end cannot fail.\<close>

lemma memory_ack_exact:
  assumes "wl_inv memory_ops memory_invar memory_view wl" and "reliable e"
    and "ack memory_ops e k wl = (wl', sigs, ok)"
  shows "(ok \<longleftrightarrow> (\<exists>s. memory_view (repository wl) k = Some s \<and> \<not> is_expired (t_check e) (expires_at s))) \<and>
    (ok \<longrightarrow> (\<exists>s. memory_view (repository wl) k = Some s \<and>
        memory_view (repository wl') = (memory_view (repository wl))(k \<mapsto> s\<lparr>message_body := None, acked := True\<rparr>)) \<and>
      sigs = map SentAck (acks_at (waiters_map wl) k)) \<and>
    (\<not> ok \<longrightarrow> wl' = wl \<and> sigs = [])"
proof (intro conjI impI)
  show "ok \<longleftrightarrow> (\<exists>s. memory_view (repository wl) k = Some s \<and> \<not> is_expired (t_check e) (expires_at s))"
    using memory.ack_ok_iff[OF assms] by (simp add: live_at_def)
  assume ok
  with assms(3) have ak: "ack memory_ops e k wl = (wl', sigs, True)" by simp
  show "\<exists>s. memory_view (repository wl) k = Some s \<and>
        memory_view (repository wl') = (memory_view (repository wl))(k \<mapsto> s\<lparr>message_body := None, acked := True\<rparr>)"
    using memory.ack_done(1)[OF assms(1) ak] by (auto simp: live_at_def acked_entry_def)
  show "sigs = map SentAck (acks_at (waiters_map wl) k)" by (rule memory.ack_done(2)[OF assms(1) ak])
next
  show "wl' = wl" "sigs = []" if "\<not> ok"
    using assms(1,3) by (cases rule: memory.ack_cases; use that assms(2) in auto)+
qed

text \<open>A second ACK of the same message succeeds, tells nobody and changes
  nothing, as long as the entry is not expired.\<close>

lemma ack_idempotent:
  assumes "wl_inv memory_ops memory_invar memory_view wl" and "ack memory_ops e k wl = (wl', sigs, True)"
    and "\<forall>s. memory_view (repository wl) k = Some s \<longrightarrow> \<not> is_expired (t_check e') (expires_at s)"
  shows "ack memory_ops e' k wl' = (wl', [], True)"
proof -
  obtain s where s: "memory_view (repository wl) k = Some s"
    "memory_view (repository wl') = (memory_view (repository wl))(k \<mapsto> acked_entry s)"
    using memory.ack_done(1)[OF assms(1,2)] by (auto simp: live_at_def)
  have "memory_get e' (repository wl') k = Inr (memory_view (repository wl') k)"
    by (simp add: memory_get_def memory_view_def map_view_def)
  with s assms(3) show ?thesis by (simp add: ack_def)
qed

lemma ack_idempotent_witness:
  "ack memory_ops (calm 60) ''m'' (fst (ack memory_ops (calm 50) ''m'' sample_wl)) =
    (fst (ack memory_ops (calm 50) ''m'' sample_wl), [], True)"
proof -
  have "snd (snd (ack memory_ops (calm 50) ''m'' sample_wl)) = True" by code_simp
  then obtain wl' sigs where ak: "ack memory_ops (calm 50) ''m'' sample_wl = (wl', sigs, True)"
    by (metis prod.collapse)
  have "\<forall>s. memory_view (repository sample_wl) ''m'' = Some s \<longrightarrow> \<not> is_expired (t_check (calm 60)) (expires_at s)"
    by (simp add: sample_wl_def sample_entry_def memory_view_def map_view_def stored_of_entry_def is_expired_def)
  from ack_idempotent[OF sample_wl_ok ak this] ak show ?thesis by simp
qed

section \<open>Subscribing\<close>

text \<open>C18.  With SQLite, \<open>subscribe_ack\<close> finds the entry of an ID unless it is missing or
  expired or cannot be read: then the answer is \<open>NotFound\<close> and nothing changes.  For an acknowledged
  entry it signals the new channel at once, for any other the channel is registered under the ID, or
  the waiter limits turn the producer away.\<close>

theorem subscribe_ack_exact:
  assumes "wl_inv sqlite_ops sqlite_invar sqlite_view wl"
    and "subscribe_ack sqlite_ops e ch k wl = (wl', sigs, res)"
    and "entry = (case sqlite_view (repository wl) k of
        Some s \<Rightarrow> if fault e S_select \<or> is_expired (t_check e) (expires_at s) then None else Some s
      | None \<Rightarrow> None)"
  shows "case res of
      Inl NotFound \<Rightarrow> entry = None \<and> wl' = wl \<and> sigs = []
    | Inl WaiterLimitReached \<Rightarrow> \<exists>s. entry = Some s \<and> \<not> acked s
    | Inr rx \<Rightarrow> rx = ch \<and> (\<exists>s. entry = Some s \<and>
        (if acked s then wl' = wl \<and> sigs = [SentAck ch]
         else ch \<in> set (acks_at (waiters_map wl') k)))"
proof (cases "fault e S_select")
  case True
  then have "res = Inl NotFound \<and> wl' = wl \<and> sigs = []"
    using assms(2) by (simp add: subscribe_ack_def sqlite_get_def)
  with True assms(3) show ?thesis by (simp split: option.splits)
next
  case False
  let ?f = "e\<lparr>fault := \<lambda>_. False\<rparr>"
  have entry: "entry = Some s \<longleftrightarrow> live_at (t_check ?f) (sqlite_view (repository wl)) k s" for s
    using False assms(3) by (auto simp: live_at_def split: option.splits)
  have rel: "reliable ?f" by (simp add: reliable_def list_all_iff)
  have "ensure_waiter_capacity ?f k wl = ensure_waiter_capacity e k wl"
    by (simp add: ensure_waiter_capacity_def Let_def cong: if_cong option.case_cong)
  then have "waiters_for ?f k wl = waiters_for e k wl" by (simp add: waiters_for_def)
  then have sub: "subscribe_ack sqlite_ops ?f ch k wl = (wl', sigs, res)"
    using assms(2) False
    by (simp add: subscribe_ack_def sqlite_get_def cong: if_cong option.case_cong)
  from assms(1) sub show ?thesis
  proof (cases rule: sqlite.subscribe_ack_cases)
    case missing
    with rel have "entry = None" using entry by (metis not_None_eq)
    with missing show ?thesis by simp
  next
    case (done_already s)
    with entry[of s] show ?thesis by simp
  next
    case (no_room s s1)
    with entry[of s] show ?thesis by simp
  next
    case (added s wl1 s1 s2 w w' ok)
    have "entry = Some s" using added(6) entry by simp
    show ?thesis
    proof (cases ok)
      case True
      then have res: "res = Inr ch" using added(5) by simp
      note reg = sqlite.subscribe_ack_registered[OF assms(1) sub[unfolded res]]
      with reg res \<open>entry = Some s\<close> added(6,7) show ?thesis by (auto simp: live_at_def)
    next
      case False
      with added \<open>entry = Some s\<close> show ?thesis by simp
    qed
  qed
qed

lemma subscribe_ack_exact_witness:
  "\<exists>wl' sigs. subscribe_ack sqlite_ops (calm 50) 9 ''c'' acking_sqlite_wl = (wl', sigs, Inr 9) \<and>
     9 \<in> set (acks_at (waiters_map wl') ''c'')"
proof -
  let ?f = "subscribe_ack sqlite_ops (calm 50) 9 ''c'' acking_sqlite_wl"
  obtain wl' sigs res where sa: "?f = (wl', sigs, res)" by (metis prod_cases3)
  have "snd (snd ?f) = Inr 9"
    by (simp add: subscribe_ack_def sqlite_get_def sql_select_def stored_of_row_def sample_row_def acking_sqlite_wl_def
        full_sqlite_wl_def waiting_list_new_def is_expired_def waiters_for_def ensure_waiter_capacity_def hm_contains_def
        add_ack_waiter_def retain_open_def max_waiters_per_entry_def)
  with sa have "res = Inr 9" by simp
  with subscribe_ack_exact[OF acking_sqlite_wl_ok sa refl] sa show ?thesis
    by (auto simp: acking_sqlite_wl_def full_sqlite_wl_def waiting_list_new_def sqlite_view_def table_view_def
        sql_select_def sample_row_def stored_of_row_def is_expired_def)
qed

text \<open>C24.  With a working store, \<open>get_or_subscribe\<close> returns a message exactly
  if the ID has an unacknowledged entry that is not expired, and then that entry's body and
  Content-Type; it changes nothing in that case.  Otherwise the caller waits, registered for the
  ID, or is turned away by the waiter limits.\<close>

theorem get_or_subscribe_exact:
  assumes "wl_inv sqlite_ops sqlite_invar sqlite_view wl" and "reliable e"
    and "get_or_subscribe sqlite_ops e ch k wl = (wl', sigs, res)"
  shows "(case res of
      Inr (GotMessage m) \<Rightarrow> wl' = wl \<and> sigs = [] \<and>
        (\<exists>s. sqlite_view (repository wl) k = Some s \<and> \<not> is_expired (t_check e) (expires_at s) \<and>
           message_body s = Some (body m) \<and> content_type s = msg_content_type m)
    | Inr (Waiting rx) \<Rightarrow> rx = ch \<and> ch \<in> set (msgs_at (waiters_map wl') k)
    | Inl err \<Rightarrow> err = WaiterLimitReached) \<and>
    ((\<exists>m. res = Inr (GotMessage m)) \<longleftrightarrow>
     (\<exists>s. sqlite_view (repository wl) k = Some s \<and> \<not> is_expired (t_check e) (expires_at s) \<and> \<not> acked s))"
  using assms(1,3)
proof (cases rule: sqlite.get_or_subscribe_cases)
  case (available s b)
  then show ?thesis by (auto simp: live_at_def)
next
  case (no_room s1)
  with assms(2) show ?thesis by (auto simp: live_at_def)
next
  case (added wl1 s1 s2 w w' ok)
  have "ch \<in> set (msgs_at (waiters_map wl') k)" if ok
    using sqlite.get_or_subscribe_registered[OF assms(1), of e ch k wl' sigs ch] assms(3) added(5) that by simp
  with added(5,6) assms(2) show ?thesis by (auto simp: live_at_def)
qed

lemma get_or_subscribe_exact_witness:
  "\<exists>wl' sigs. get_or_subscribe sqlite_ops (calm 50) 9 ''c'' full_sqlite_wl =
     (wl', sigs, Inr (GotMessage \<lparr>body = [7], msg_content_type = None\<rparr>)) \<and> wl' = full_sqlite_wl"
proof -
  obtain wl' sigs res where gs: "get_or_subscribe sqlite_ops (calm 50) 9 ''c'' full_sqlite_wl = (wl', sigs, res)"
    by (metis prod_cases3)
  have inv: "wl_inv sqlite_ops sqlite_invar sqlite_view full_sqlite_wl"
    unfolding full_sqlite_wl_def by (rule sqlite.good_new) (simp add: sqlite_invar_def table_ok_def sample_row_def)
  have v: "sqlite_view (repository full_sqlite_wl) ''c'' =
      Some \<lparr>message_body = Some [7], content_type = None, acked = False, expires_at = 100\<rparr>"
    by (simp add: full_sqlite_wl_def waiting_list_new_def sqlite_view_def table_view_def sql_select_def
        stored_of_row_def sample_row_def)
  note ex = get_or_subscribe_exact[OF inv calm_env_ok(2) gs, unfolded v]
  from ex obtain m where "res = Inr (GotMessage m)" by (auto simp: is_expired_def)
  with ex gs show ?thesis by (cases m) auto
qed

text \<open>C28.  A producer that \<open>store_and_subscribe_ack\<close> tells to retry
  (\<open>WaiterLimitReached\<close>) has stored nothing: the content of the store and the message waiters
  that are still connected are as before.\<close>

theorem retry_stores_nothing:
  assumes "wl_inv sqlite_ops sqlite_invar sqlite_view wl" and "fair_scan e"
    and "store_and_subscribe_ack sqlite_ops e ch k m ttl wl = (wl', sigs, Inl SasWaiterLimitReached)"
  shows "repository wl' = repository wl \<and>
    (\<forall>s \<in> set sigs. \<exists>c. s = Dropped c \<and> closed e c) \<and>
    (\<forall>j c. c \<in> set (msgs_at (waiters_map wl) j) \<longrightarrow> \<not> closed e c \<longrightarrow> c \<in> set (msgs_at (waiters_map wl') j))"
  using assms
proof (cases rule: sqlite.sas_cases)
  case no_room
  note es = ensure_step[OF no_room(1) sqlite.goodD(3)[OF assms(1)] refl]
  have "\<forall>j c. c \<in> set (msgs_at (waiters_map wl) j) \<longrightarrow> \<not> closed e c \<longrightarrow> c \<in> set (msgs_at (waiters_map wl') j)"
    using open_kept(1)[OF es(3)] by blast
  with es(4,6) show ?thesis by blast
qed auto

lemma retry_stores_nothing_witness:
  "\<exists>wl' sigs. store_and_subscribe_ack sqlite_ops (calm 50) 9 ''k'' \<lparr>body = [1], msg_content_type = None\<rparr> (from_secs 1)
      sample_sqlite_wl = (wl', sigs, Inl SasWaiterLimitReached) \<and> repository wl' = repository sample_sqlite_wl"
proof -
  let ?m = "\<lparr>body = [1], msg_content_type = None\<rparr> :: message"
  have "snd (snd (store_and_subscribe_ack sqlite_ops (calm 50) 9 ''k'' ?m (from_secs 1) sample_sqlite_wl)) =
      Inl SasWaiterLimitReached"
    by (simp add: store_and_subscribe_ack_def ensure_waiter_capacity_def hm_contains_def sample_sqlite_wl_def
        full_map_prune_interval_def from_secs_def)
  then obtain wl' sigs where sas: "store_and_subscribe_ack sqlite_ops (calm 50) 9 ''k'' ?m (from_secs 1) sample_sqlite_wl =
      (wl', sigs, Inl SasWaiterLimitReached)" by (metis prod.collapse)
  from retry_stores_nothing[OF sample_sqlite_wl_ok calm_env_ok(1) sas] sas show ?thesis by blast
qed

section \<open>Waiter limits\<close>





text \<open>The waiter map after pruning holds the IDs that somebody connected still waits for.\<close>

lemma pruned_length:
  assumes "hm_ok m"
  shows "length (filter (\<lambda>(_, w). \<not> waiters_is_empty w) (map (\<lambda>(k, w). (k, open_waiters cl w)) m)) =
    card {k. \<exists>c \<in> set (waiters_chans (waiters_at m k)). \<not> cl c}"
proof -
  let ?m = "filter (\<lambda>(_, w). \<not> waiters_is_empty w) (map (\<lambda>(k, w). (k, open_waiters cl w)) m)"
  have ok: "hm_ok (map (\<lambda>(k, w). (k, open_waiters cl w)) m)" using assms by simp
  then have "hm_ok ?m" by simp
  have "waiters_is_empty (open_waiters cl w) \<longleftrightarrow> (\<forall>c \<in> set (waiters_chans w). cl c)" for w
    by (auto simp: waiters_is_empty_def waiters_chans_def filter_empty_conv)
  then have "dom (map_of ?m) = {k. \<exists>c \<in> set (waiters_chans (waiters_at m k)). \<not> cl c}"
    using ok by (auto simp: hm_simps dom_def waiters_at_def waiters_chans_def waiters_new_def split: option.splits)
  with hm_card[OF \<open>hm_ok ?m\<close>] show ?thesis by simp
qed

text \<open>C30.  When a prune is due, a new ID is admitted exactly if fewer than
  \<open>max_waiting_ids\<close> IDs have a client that is still connected.\<close>

theorem prune_makes_room:
  assumes "hm_ok (waiters_map wl)" and "map_of (waiters_map wl) k = None"
    and "max_waiting_ids wl \<le> length (waiters_map wl)"
    and "\<forall>prev. last_full_map_prune wl = Some prev \<longrightarrow> prev + 1000000000 \<le> m_elapsed e"
    and "ensure_waiter_capacity e k wl = (wl', sigs, res)"
  shows "res = (if card {j. \<exists>c \<in> set (waiters_chans (waiters_at (waiters_map wl) j)). \<not> closed e c} < max_waiting_ids wl
      then Inr () else Inl WaiterLimitReached) \<and> last_full_map_prune wl' = Some (m_prune e)"
  using assms pruned_length[OF assms(1), of "closed e"]
  by (auto simp: ensure_waiter_capacity_def hm_contains_def remove_closed_waiters_def Let_def
      full_map_prune_interval_def from_secs_def split: option.splits if_splits)

lemma prune_makes_room_witness:
  "snd (snd (ensure_waiter_capacity (calm_env 0 1000000000 (\<lambda>c. c = 4) :: unit env) ''x'' sample_wl)) = Inr ()"
proof -
  obtain wl' sigs res where en: "ensure_waiter_capacity (calm_env 0 1000000000 (\<lambda>c. c = 4) :: unit env) ''x'' sample_wl = (wl', sigs, res)"
    by (metis prod_cases3)
  have "{j. \<exists>c \<in> set (waiters_chans (waiters_at (waiters_map sample_wl) j)). \<not> c = 4} = {''m''}"
    by (auto simp: sample_wl_def waiters_at_def waiters_chans_def waiters_new_def split: if_splits)
  moreover have "res = (if card {j. \<exists>c \<in> set (waiters_chans (waiters_at (waiters_map sample_wl) j)).
      \<not> closed (calm_env 0 1000000000 (\<lambda>c. c = 4) :: unit env) c} < max_waiting_ids sample_wl then Inr () else Inl WaiterLimitReached)"
    by (rule prune_makes_room[OF _ _ _ _ en, THEN conjunct1]) (simp_all add: sample_wl_def hm_ok_def)
  ultimately show ?thesis using en by (simp add: sample_wl_def)
qed

section \<open>Clean-up\<close>

text \<open>C25.  With SQLite, \<open>cleanup_expired\<close> deletes exactly the entries whose expiry has
  passed and returns their number; if preparing or running the deletion fails, it deletes none and
  returns 0.  It tells everyone who waits for a deleted ID, drops the senders of disconnected
  clients in either case, and leaves all other entries and waiters alone.\<close>

theorem cleanup_exact:
  assumes "wl_inv sqlite_ops sqlite_invar sqlite_view wl" and "fair_scan e"
    and "cleanup_expired sqlite_ops e wl = (wl', sigs, n)"
    and "X = (if fault e S_prepare_delete_expired \<or> fault e S_delete_expired then {}
      else {k. \<exists>s. sqlite_view (repository wl) k = Some s \<and> expired_before (t_purge e) (expires_at s)})"
  shows "n = card X \<and> sqlite_view (repository wl') = sqlite_view (repository wl) |` (- X) \<and>
    (\<forall>k. waiters_at (waiters_map wl') k =
       (if k \<in> X then waiters_new else open_waiters (closed e) (waiters_at (waiters_map wl) k))) \<and>
    (\<forall>k \<in> X. \<forall>c \<in> set (waiters_chans (waiters_at (waiters_map wl) k)). Dropped c \<in> set sigs)"
proof -
  have ex: "\<exists>Y. (reliable f \<longrightarrow> Y = {k. \<exists>s. sqlite_view (repository wl) k = Some s \<and> expired_before (t_purge f) (expires_at s)}) \<and>
      Y \<subseteq> dom (sqlite_view (repository wl)) \<and> n = card Y \<and> sqlite_view (repository wl') = sqlite_view (repository wl) |` (- Y) \<and>
      (\<forall>k. waiters_at (waiters_map wl') k =
         (if k \<in> Y then waiters_new else open_waiters (closed f) (waiters_at (waiters_map wl) k))) \<and>
      (\<forall>k \<in> Y. \<forall>c \<in> set (waiters_chans (waiters_at (waiters_map wl) k)). Dropped c \<in> set sigs)"
    if "fair_scan f" "cleanup_expired sqlite_ops f wl = (wl', sigs, n)" for f
    using sqlite.cleanup_spec[OF assms(1) that] by (elim exE conjE) (intro exI conjI; fast)
  show ?thesis
  proof (cases "fault e S_prepare_delete_expired \<or> fault e S_delete_expired")
    case True
    then have "n = 0"
      using assms(3) by (auto simp: cleanup_expired_def sqlite_cleanup_expired_def delete_expired_def Let_def
          split: prod.splits if_splits)
    obtain Y where Y: "Y \<subseteq> dom (sqlite_view (repository wl))" "n = card Y"
        "sqlite_view (repository wl') = sqlite_view (repository wl) |` (- Y)"
        "\<forall>k. waiters_at (waiters_map wl') k =
         (if k \<in> Y then waiters_new else open_waiters (closed e) (waiters_at (waiters_map wl) k))"
      using ex[OF assms(2,3)] by blast
    have "finite (dom (sqlite_view (repository wl)))" by (rule sqlite.finite_view[OF sqlite.goodD(1)[OF assms(1)]])
    then have "Y = {}" using Y(1,2) \<open>n = 0\<close> by (metis card_0_eq finite_subset)
    with Y True show ?thesis by (simp add: assms(4))
  next
    case False
    let ?f = "e\<lparr>fault := \<lambda>_. False\<rparr>"
    have "cleanup_expired sqlite_ops ?f wl = (wl', sigs, n)"
      using assms(3) False by (simp add: cleanup_expired_def sqlite_cleanup_expired_def delete_expired_def)
    moreover have same: "closed ?f = closed e" "t_purge ?f = t_purge e" by simp_all
    moreover have "fair_scan ?f" "reliable ?f" using assms(2) by (simp_all add: fair_scan_def reliable_def list_all_iff)
    ultimately obtain Y where "Y = {k. \<exists>s. sqlite_view (repository wl) k = Some s \<and> expired_before (t_purge e) (expires_at s)}"
        "n = card Y" "sqlite_view (repository wl') = sqlite_view (repository wl) |` (- Y)"
        "\<forall>k. waiters_at (waiters_map wl') k =
         (if k \<in> Y then waiters_new else open_waiters (closed e) (waiters_at (waiters_map wl) k))"
        "\<forall>k \<in> Y. \<forall>c \<in> set (waiters_chans (waiters_at (waiters_map wl) k)). Dropped c \<in> set sigs"
      using ex[of ?f] unfolding same by blast
    moreover have "X = Y" using False assms(4) calculation(1) by simp
    ultimately show ?thesis by simp
  qed
qed

lemma cleanup_exact_witness:
  "\<exists>wl' sigs. cleanup_expired sqlite_ops (calm 101) full_sqlite_wl = (wl', sigs, 1)"
proof -
  obtain wl' sigs n where cl: "cleanup_expired sqlite_ops (calm 101) full_sqlite_wl = (wl', sigs, n)"
    by (metis prod_cases3)
  have inv: "wl_inv sqlite_ops sqlite_invar sqlite_view full_sqlite_wl"
    unfolding full_sqlite_wl_def by (rule sqlite.good_new) (simp add: sqlite_invar_def table_ok_def sample_row_def)
  have "{k. \<exists>s. sqlite_view (repository full_sqlite_wl) k = Some s \<and>
      expired_before (t_purge (calm 101)) (expires_at s)} = {''c''}"
    by (auto simp: full_sqlite_wl_def waiting_list_new_def sqlite_view_def table_view_def sql_select_def
        stored_of_row_def sample_row_def expired_before_def split: if_splits)
  with cleanup_exact[OF inv calm_env_ok(1) cl refl] cl show ?thesis by simp
qed

section \<open>Expiry times\<close>

text \<open>C32.  The expiry that \<open>store\<close> computes is exact, and a stored message counts as expired
  from \<open>now + ttl\<close> milliseconds on and not before, as long as that time fits in an \<open>i64\<close>.\<close>

theorem ttl_exact:
  assumes "wl_inv memory_ops memory_invar memory_view wl" and "fair_scan e"
    and "store memory_ops e k m ttl wl = (wl', sigs, Inr Stored)"
    and "0 \<le> sint (t_store e)" and "sint (t_store e) + int (as_millis ttl) < 2 ^ 63"
  shows "\<exists>s. memory_view (repository wl') k = Some s \<and>
    (\<forall>now. is_expired now (expires_at s) \<longleftrightarrow> sint (t_store e) + int (as_millis ttl) \<le> sint now)"
  using memory.store_stored(1)[OF assms(1-3)] sint_add_i64[OF assms(4,5)]
  by (simp add: is_expired_def)

lemma ttl_exact_witness:
  "\<exists>wl' sigs s. store memory_ops (calm 50) ''w'' \<lparr>body = [1], msg_content_type = None\<rparr> (from_secs 1) sample_wl =
      (wl', sigs, Inr Stored) \<and> memory_view (repository wl') ''w'' = Some s \<and> \<not> is_expired 1049 (expires_at s) \<and>
      is_expired 1050 (expires_at s)"
proof -
  let ?m = "\<lparr>body = [1], msg_content_type = None\<rparr> :: message"
  have "snd (snd (store memory_ops (calm 50) ''w'' ?m (from_secs 1) sample_wl)) = Inr Stored"
    by (simp add: store_def memory_insert_def memory_make_room_def hm_contains_def sample_wl_def split: prod.split)
  then obtain wl' sigs where st: "store memory_ops (calm 50) ''w'' ?m (from_secs 1) sample_wl = (wl', sigs, Inr Stored)"
    by (metis prod.collapse)
  from ttl_exact[OF sample_wl_ok calm_env_ok(1) st] st show ?thesis by auto
qed

lemma huge_ttl_expires:
  fixes now :: i64
  assumes "0 \<le> sint now" and "sint now < 2 ^ 62"
  shows "is_expired now (now + of_nat (as_millis (from_secs 9223372036854776)))"
proof -
  have w: "(of_nat (as_millis (from_secs 9223372036854776)) :: i64) = - 9223372036854775616"
    by simp
  have "sint (now - 9223372036854775616) = sint now - 9223372036854775616"
    using assms by (simp add: sint_word_ariths signed_take_bit_int_eq_self)
  then have "sint (now + - 9223372036854775616) \<le> sint now" by simp
  then show ?thesis unfolding is_expired_def w .
qed

text \<open>C40.  A defect: beyond the range of \<open>ttl_exact\<close> the addition wraps.  A TTL of
  9223372036854776 seconds, which the command line accepts, puts the expiry before the clock: the
  message is reported as stored, and is expired already then.\<close>

theorem ttl_wraps:
  assumes "wl_inv memory_ops memory_invar memory_view wl" and "fair_scan e"
    and "store memory_ops e k m (from_secs 9223372036854776) wl = (wl', sigs, Inr Stored)"
    and "0 \<le> sint (t_store e)" and "sint (t_store e) < 2 ^ 62"
  shows "\<exists>s. memory_view (repository wl') k = Some s \<and> is_expired (t_store e) (expires_at s)"
proof -
  have "is_expired (t_store e) (expires_at (fresh_entry (body m) (msg_content_type m)
      (t_store e + of_nat (as_millis (from_secs 9223372036854776)))))"
    using huge_ttl_expires[OF assms(4,5)] by (simp only: fresh_entry_def stored_entry.select_convs)
  with memory.store_stored(1)[OF assms(1-3)] show ?thesis by blast
qed

lemma ttl_wraps_witness:
  "\<exists>wl' sigs s. store memory_ops (calm 50) ''w'' \<lparr>body = [1], msg_content_type = None\<rparr>
       (from_secs 9223372036854776) sample_wl = (wl', sigs, Inr Stored) \<and>
     memory_view (repository wl') ''w'' = Some s \<and> is_expired 50 (expires_at s)"
proof -
  let ?m = "\<lparr>body = [1], msg_content_type = None\<rparr> :: message"
  have "snd (snd (store memory_ops (calm 50) ''w'' ?m (from_secs 9223372036854776) sample_wl)) = Inr Stored"
    by (simp add: store_def memory_insert_def memory_make_room_def hm_contains_def sample_wl_def split: prod.split)
  then obtain wl' sigs where
    st: "store memory_ops (calm 50) ''w'' ?m (from_secs 9223372036854776) sample_wl = (wl', sigs, Inr Stored)"
    by (metis prod.collapse)
  from ttl_wraps[OF sample_wl_ok calm_env_ok(1) st] st show ?thesis by auto
qed

end
