(* ===== verification/Http_Properties.thy ===== *)
theory Http_Properties
  imports Relay_System Waiting_List_Properties
begin

text \<open>
  The properties of the HTTP side: responses, handlers, client addresses and configuration.
\<close>

section \<open>Sample HTTP library\<close>

text \<open>Printable ASCII is text, as documented for \<open>HeaderValue\<close>.\<close>

definition sample_lib :: http_lib where
  "sample_lib = \<lparr>
     to_str = (\<lambda>v. if list_all (\<lambda>b. 32 \<le> b \<and> b < 127) v then Some (map (\<lambda>b. char_of (unat b)) v) else None),
     parse_value = (\<lambda>s. Some (map of_char s)),
     base_headers = (\<lambda>n. if n = ''content-type'' then [text_bytes ''application/octet-stream''] else [])\<rparr>"

text \<open>The behaviour of the http crate that forwarding a Content-Type relies on: text that was read
  from a header value parses back to the same value.\<close>

definition values_reparse :: "http_lib \<Rightarrow> bool" where
  "values_reparse lib \<longleftrightarrow> (\<forall>v s. to_str lib v = Some s \<longrightarrow> parse_value lib s = Some v)"

lemma of_char_char_of_byte: "(of_char (char_of (unat b)) :: 8 word) = b" for b :: "8 word"
proof -
  have "unat b < 2 ^ LENGTH(8)" by (rule unsigned_less)
  then have "(of_char (char_of (unat b)) :: nat) = unat b" by simp
  then have "(of_nat (of_char (char_of (unat b))) :: 8 word) = of_nat (unat b)" by (rule arg_cong)
  then show ?thesis by (simp only: of_nat_of_char of_nat_unat ucast_id)
qed

lemma sample_lib_reparse: "values_reparse sample_lib"
  by (auto simp: values_reparse_def sample_lib_def comp_def of_char_char_of_byte split: if_splits)

section \<open>Responses\<close>

text \<open>C37.  Every endpoint refuses an ID of more than 256 bytes with 400, before it
  touches the waiting list.\<close>

theorem long_id_refused:
  assumes "256 < length (request_id req)"
  shows "\<exists>resp. begin_request lib ops cfg e0 e ch req wl = (wl, [], Answer resp) \<and> status resp = BAD_REQUEST"
  using assms
  by (cases req) (auto simp: inbox_defs link_defs validate_id_length_def max_id_length_def)

lemma long_id_refused_witness:
  "\<exists>resp. begin_request sample_lib memory_ops (config_default :: nat config) (calm 0) (calm 0) 0
     (InboxGet (replicate 257 CHR ''x'')) sample_wl = (sample_wl, [], Answer resp) \<and> status resp = BAD_REQUEST"
  by (rule long_id_refused) simp

section \<open>Store and forward\<close>

text \<open>C13.  A message that POST /inbox/{id} accepts is what the next GET of the ID
  returns at once, while it is not expired and the database can be read: the same body, and the
  Content-Type of the POST if it had one that is visible text, else the default of a response
  that consists of bytes.  This relies on \<open>values_reparse\<close>.\<close>

theorem post_then_get:
  assumes "wl_inv sqlite_ops sqlite_invar sqlite_view wl" and "fair_scan e" and "reliable e'"
    and "length k \<le> 256" and "values_reparse lib"
    and post: "inbox_post lib sqlite_ops cfg e k headers b wl = (wl', sigs, resp)" and "status resp = STATUS_OK"
    and "sint (t_check e') < sint (t_store e + of_nat (as_millis (inbox_cache_ttl cfg)))"
  shows "\<exists>resp'. inbox_get lib sqlite_ops e' ch k wl' = (wl', [], Responded resp') \<and>
    status resp' = STATUS_OK \<and> response_body resp' = b \<and>
    response_headers resp' ''content-type'' =
      (case headers ''content-type'' of
         v # _ \<Rightarrow> if to_str lib v = None then base_headers lib ''content-type'' else [v]
       | [] \<Rightarrow> base_headers lib ''content-type'')"
proof -
  let ?m = "\<lparr>body = b, msg_content_type = request_content_type lib headers\<rparr>"
  have len: "length k \<le> max_id_length" using assms(4) by (simp add: max_id_length_def)
  have st: "store sqlite_ops e k ?m (inbox_cache_ttl cfg) wl = (wl', sigs, Inr Stored)"
    using post assms(7) len
    by (auto simp: inbox_post_def validate_id_length_def Let_def split: prod.splits sum.splits if_splits insert_outcome.splits)
  have g: "wl_inv sqlite_ops sqlite_invar sqlite_view wl'" by (rule sqlite.store_step(1)[OF assms(1,2) st])
  have v: "sqlite_view (repository wl') k = Some (fresh_entry b (request_content_type lib headers)
      (t_store e + of_nat (as_millis (inbox_cache_ttl cfg))))"
    using sqlite.store_stored(1)[OF assms(1,2) st] by simp
  have get: "sqlite_get e' (repository wl') k = Inr (sqlite_view (repository wl') k)"
    using sqlite.get_calm[OF sqlite.goodD(1)[OF g] assms(3)] by simp
  have "inbox_get lib sqlite_ops e' ch k wl' = (wl', [], Responded (message_response lib ?m))"
    using len assms(8) by (simp add: inbox_get_def validate_id_length_def get_or_subscribe_def get v is_expired_def)
  moreover have "parse_value lib s = Some v" if "to_str lib v = Some s" for v s
    using assms(5) that by (simp add: values_reparse_def)
  ultimately show ?thesis
    by (cases "headers ''content-type''"; cases "to_str lib (hd (headers ''content-type''))")
      (auto simp: message_response_headers request_content_type_def header_get_def)
qed

definition sample_headers :: header_map where
  "sample_headers n = (if n = ''content-type'' then [text_bytes ''text/plain''] else [])"

lemma sample_content_type: "to_str sample_lib (text_bytes ''text/plain'') = Some ''text/plain''"
  by code_simp

lemma post_then_get_witness:
  "\<exists>wl' sigs resp resp'. inbox_post sample_lib sqlite_ops (config_default :: nat config) (calm 50) ''w'' sample_headers [1]
       sample_sqlite_wl = (wl', sigs, resp) \<and>
     inbox_get sample_lib sqlite_ops (calm 60) 9 ''w'' wl' = (wl', [], Responded resp') \<and> response_body resp' = [1] \<and>
     response_headers resp' ''content-type'' = [text_bytes ''text/plain'']"
proof -
  let ?cfg = "config_default :: nat config"
  obtain wl' sigs resp where post: "inbox_post sample_lib sqlite_ops ?cfg (calm 50) ''w'' sample_headers [1] sample_sqlite_wl =
      (wl', sigs, resp)" by (metis prod_cases3)
  have "status (snd (snd (inbox_post sample_lib sqlite_ops ?cfg (calm 50) ''w'' sample_headers [1] sample_sqlite_wl))) = STATUS_OK"
    by (simp add: inbox_post_def validate_id_length_def max_id_length_def store_def sqlite_insert_def make_room_def
        contains_def count_entries_def sql_exists_def sqlite_write_def sample_sqlite_wl_def sqlite_new_def
        create_schema_def split: prod.split)
  with post have ok: "status resp = STATUS_OK" by simp
  have h: "sample_headers ''content-type'' = [text_bytes ''text/plain'']" by (simp add: sample_headers_def)
  have t: "sint (t_check (calm 60 :: row env)) <
      sint (t_store (calm 50 :: row env) + of_nat (as_millis (inbox_cache_ttl ?cfg)))"
    by (simp add: config_defs)
  from post_then_get[OF sample_sqlite_wl_ok calm_env_ok(1) calm_env_ok(2) _ sample_lib_reparse post ok t, of 9] post h
  show ?thesis by (auto simp: sample_content_type)
qed

section \<open>The gap in the link handler\<close>

text \<open>C39.  A defect of the older handoff: GET /link/{id} takes the lock once for the
  message and once for its automatic ACK, and the ACK names the ID only.  A POST in between replaces
  the message.  In this run the consumer gets the first message, and its ACK deletes the body of the
  second, which no consumer has received, and marks it acknowledged.\<close>

theorem link_get_acks_undelivered:
  "\<exists>wl2 wl3 s2 s3 resp.
     link_get sample_lib memory_ops (calm 50) 9 ''m'' sample_wl = (sample_wl, [], LinkGot \<lparr>body = [7], msg_content_type = None\<rparr>) \<and>
     store memory_ops (calm 50) ''m'' \<lparr>body = [8], msg_content_type = None\<rparr> (from_secs 1) sample_wl = (wl2, s2, Inr Stored) \<and>
     link_get_ack sample_lib memory_ops (calm 50) ''m'' \<lparr>body = [7], msg_content_type = None\<rparr> wl2 = (wl3, s3, resp) \<and>
     response_body resp = [7] \<and>
     memory_view (repository wl3) ''m'' = Some (acked_entry (fresh_entry [8] None 1050))"
proof -
  let ?m = "\<lparr>body = [8], msg_content_type = None\<rparr> :: message"
  have get: "link_get sample_lib memory_ops (calm 50) 9 ''m'' sample_wl =
      (sample_wl, [], LinkGot \<lparr>body = [7], msg_content_type = None\<rparr>)"
    by (simp add: link_get_def validate_id_length_def max_id_length_def get_or_subscribe_def memory_get_def
        stored_of_entry_def sample_wl_def sample_entry_def is_expired_def)
  have "snd (snd (store memory_ops (calm 50) ''m'' ?m (from_secs 1) sample_wl)) = Inr Stored"
    by (simp add: store_def memory_insert_def memory_make_room_def hm_contains_def sample_wl_def split: prod.split)
  then obtain wl2 s2 where st: "store memory_ops (calm 50) ''m'' ?m (from_secs 1) sample_wl = (wl2, s2, Inr Stored)"
    by (metis prod.collapse)
  note g = memory.store_step(1)[OF sample_wl_ok calm_env_ok(1) st]
  have v: "memory_view (repository wl2) ''m'' = Some (fresh_entry [8] None 1050)"
    using memory.store_stored(1)[OF sample_wl_ok calm_env_ok(1) st] by simp
  obtain wl3 s3 ok where ak: "ack memory_ops (calm 50) ''m'' wl2 = (wl3, s3, ok)" by (metis prod_cases3)
  have ok using memory.ack_ok_iff[OF g calm_env_ok(2) ak] v by (simp add: live_at_def is_expired_def)
  with ak have "ack memory_ops (calm 50) ''m'' wl2 = (wl3, s3, True)" by simp
  from memory.ack_done(1)[OF g this] v
  have "memory_view (repository wl3) ''m'' = Some (acked_entry (fresh_entry [8] None 1050))"
    by (auto simp: live_at_def)
  with get st ak show ?thesis by (simp add: link_get_ack_def)
qed

section \<open>Client addresses\<close>

text \<open>Sample networks: a network is the list of its addresses.\<close>

definition in_list :: "ip_addr list \<Rightarrow> ip_addr \<Rightarrow> bool" where
  "in_list ips ip = (ip \<in> set ips)"

text \<open>A peer that is not a trusted proxy is the client itself, whatever
  \<open>X-Forwarded-For\<close> headers it sends: it cannot claim another address or cause an error.\<close>

lemma untrusted_peer_is_client:
  assumes "\<not> contains_ip net_contains proxies peer"
  shows "client_ip to_text net_contains proxies peer headers = Inr (to_canonical peer)"
  using assms by (simp add: client_ip_def)

lemma untrusted_peer_is_client_witness:
  "client_ip (to_str sample_lib) in_list [[V4 0x7F000001]] (V4 5) [text_bytes ''1.2.3.4''] = Inr (V4 5)"
  using untrusted_peer_is_client[of in_list "[[V4 0x7F000001]]" "V4 5"] by (simp add: contains_ip_def in_list_def)

text \<open>C21.  For a trusted proxy, the two nested loops of \<open>client_ip\<close>
  compute the documented result: of all entries of all header lines from right to left, the first
  that is not a trusted proxy decides; if all are, the leftmost; if there are none, \<open>Missing\<close>.\<close>

theorem client_is_rightmost_untrusted:
  assumes "contains_ip net_contains proxies peer"
  shows "client_ip to_text net_contains proxies peer headers =
    forwarded_client net_contains proxies (forwarded_entries to_text headers)"
  using assms by (rule client_ip_forwarded)

lemma client_is_rightmost_untrusted_witness:
  "client_ip (to_str sample_lib) in_list [[V4 0x7F000001]] (V4 0x7F000001) [] =
   forwarded_client in_list [[V4 0x7F000001]] (forwarded_entries (to_str sample_lib) [])"
  by (rule client_is_rightmost_untrusted) (simp add: contains_ip_def in_list_def)

text \<open>C22.  Once the client is found, what stands to the left of it does not
  matter: header lines that the client puts in front change neither its address nor cause an
  error, even if they cannot be read.\<close>

theorem forged_lines_ignored:
  assumes "client_ip to_text net_contains proxies peer headers = Inr ip" and "\<not> contains_ip net_contains proxies ip"
  shows "client_ip to_text net_contains proxies peer (forged @ headers) = Inr ip"
proof (cases "contains_ip net_contains proxies peer")
  case False
  with assms show ?thesis by (simp add: client_ip_def)
next
  case True
  let ?es = "forwarded_entries to_text headers"
  have c: "forwarded_client net_contains proxies ?es = Inr ip" using assms(1) True by (simp add: client_ip_forwarded)
  have split: "forwarded_entries to_text (forged @ headers) = ?es @ forwarded_entries to_text forged"
    by (simp add: forwarded_entries_def)
  show ?thesis
  proof (cases rule: stop_cases[of ?es net_contains proxies])
    case empty
    with c show ?thesis by (simp add: forwarded_client_def)
  next
    case (proxies a)
    then have "ip = to_canonical a" using c by (simp add: forwarded_client_def del: keep_dropWhile)
    with proxies(4) assms(2) show ?thesis by simp
  next
    case (stop e fs)
    then have "dropWhile (is_proxy net_contains proxies) (?es @ forwarded_entries to_text forged) =
        e # (fs @ forwarded_entries to_text forged)"
      using dropWhile_append1[of e ?es "is_proxy net_contains proxies"] by simp
    with c stop show ?thesis
      by (simp add: client_ip_forwarded[OF True] split forwarded_client_def split: forwarded_entry.splits)
  qed
qed

lemma forged_lines_ignored_witness:
  "client_ip (to_str sample_lib) in_list [[V4 0x7F000001]] (V4 0x7F000001) ([[200]] @ [text_bytes ''1.2.3.4'']) = Inr (V4 0x01020304)"
proof (rule forged_lines_ignored)
  show "client_ip (to_str sample_lib) in_list [[V4 0x7F000001]] (V4 0x7F000001) [text_bytes ''1.2.3.4''] = Inr (V4 0x01020304)"
    by code_simp
qed (simp add: contains_ip_def in_list_def)

text \<open>C33.  The address found is always canonical, so one client never appears
  under two addresses, and it is the peer or one of the entries of the header; it is a trusted proxy
  only if every entry is.\<close>

theorem client_ip_canonical:
  assumes "client_ip to_text net_contains proxies peer headers = Inr ip"
  shows "to_canonical ip = ip \<and>
    (ip = to_canonical peer \<or> (\<exists>a. Address a \<in> set (forwarded_entries to_text headers) \<and> ip = to_canonical a)) \<and>
    (contains_ip net_contains proxies ip \<longrightarrow>
       (\<forall>x \<in> set (forwarded_entries to_text headers). is_proxy net_contains proxies x))"
proof (cases "contains_ip net_contains proxies peer")
  case False
  with assms have "ip = to_canonical peer" by (simp add: client_ip_def)
  with False show ?thesis by simp
next
  case True
  with assms have "forwarded_client net_contains proxies (forwarded_entries to_text headers) = Inr ip"
    by (simp add: client_ip_forwarded)
  then show ?thesis by (rule forwarded_client_cases) blast
qed

lemma client_ip_canonical_witness:
  "to_canonical (V4 5) = V4 5 \<and> client_ip (to_str sample_lib) in_list [] (V6 0xFFFF00000005) [] = Inr (V4 5)"
proof -
  have "client_ip (to_str sample_lib) in_list [] (V6 0xFFFF00000005) [] = Inr (V4 5)"
    by (simp add: client_ip_def contains_ip_def)
  with client_ip_canonical[OF this] show ?thesis by blast
qed

section \<open>Configuration\<close>

text \<open>Of several calls of one setter of \<open>HttpRelayBuilder\<close> the last one counts, and calls of
  different setters commute: no option overwrites another.\<close>

lemma builder_last_wins:
  assumes "\<forall>b \<in> set later. \<not> same_option a b"
  shows "build (earlier @ [a] @ later) = set_option a (build (earlier @ later))"
  using fold_set_commute[OF assms] by (simp add: build_def)

lemma builder_sample:
  "max_entries (build [Max_entries 3, Http_port 9, Cors_allow_all True] :: nat config) = 3"
  using builder_last_wins[of "[Http_port 9, Cors_allow_all True]" "Max_entries 3" "[]"]
  by (simp add: same_option_def build_def)

end
