(* ===== verification/Relay_Properties.thy ===== *)
theory Relay_Properties
  imports Server_Run Http_Properties
begin

text \<open>
  Properties of the whole relay that hold in every reachable state: what answers mean, that no
  wake-up is lost, that no handler panics, what is bounded, and what a restart keeps.
\<close>

section \<open>Sample runs\<close>

lemma calm_begins:
  assumes "tasks s r = None" and "e = calm_env (clock s) 0 (gone s)"
    and "begin_request lib ops cfg e e (next_chan s) req (waiting s) = (wl', sigs, p)"
  shows "\<exists>s'. step lib ops cfg view dep s (Began r req p) s' \<and> waiting s' = wl' \<and>
    mailbox s' = deliver sigs (mailbox s) \<and> tasks s' = finish r p (tasks s) \<and> clock s' = clock s"
proof -
  have adm: "admissible dep s (clock s) e" by (simp add: assms(2) calm_admissible)
  from step.begins[OF assms(1) adm adm order_refl assms(3)] show ?thesis
    by (intro exI conjI) (assumption, simp_all)
qed

abbreviation sample_cfg :: "nat config" where
  "sample_cfg \<equiv> config_default"

abbreviation memory_run :: "bool \<Rightarrow> memory_repo relay \<Rightarrow> bool" where
  "memory_run dep \<equiv> reachable sample_lib memory_ops sample_cfg memory_view dep (relay_start memory_ops (memory_new 2) 0 {} {})"

text \<open>A database file with one undelivered message and one acknowledged one.\<close>

definition sample_db :: sqlite_repo where
  "sample_db = sqlite_new (Some [sample_row ''c'' (Some [7]) 100 1, sample_row ''a'' None 100 2]) 2"

definition sample_start :: "sqlite_repo relay" where
  "sample_start = relay_start sqlite_ops sample_db 0 {(''c'', \<lparr>body = [7], msg_content_type = None\<rparr>)} {''a''}"

lemma sample_db_view:
  "sqlite_view sample_db k =
    (if k = ''c'' then Some \<lparr>message_body = Some [7], content_type = None, acked = False, expires_at = 100\<rparr>
     else if k = ''a'' then Some \<lparr>message_body = None, content_type = None, acked = True, expires_at = 100\<rparr> else None)"
  by (simp add: sample_db_def sqlite_new_def create_schema_def sqlite_view_def table_view_def sql_select_def
      stored_of_row_def sample_row_def)

lemma sample_db_ok: "sqlite_invar sample_db"
  by (simp add: sample_db_def sqlite_new_def create_schema_def sqlite_invar_def table_ok_def sample_row_def)

lemma sample_db_max: "sqlite_max_entries sample_db = 2"
  by (simp add: sample_db_def sqlite_new_def)

lemma sample_db_known:
  "entries_known (sqlite_view sample_db) {(''c'', \<lparr>body = [7], msg_content_type = None\<rparr>)} {''a''}"
  by (simp add: entries_known_def sample_db_view)

lemma memory_new_ok: "memory_invar (memory_new n)" "entries_known (memory_view (memory_new n)) P K"
  by (simp_all add: memory_invar_def memory_new_def map_ok_def memory_view_def map_view_def entries_known_def)

lemma sample_get:
  "sqlite_get e sample_db k = (if fault e S_select then Inl ''Failed to get entry'' else Inr (sqlite_view sample_db k))"
  by (simp add: sqlite_get_def sqlite_view_def table_view_def)

text \<open>A GET that waits, on /inbox and on /link.\<close>

lemma sample_waits:
  assumes "req = InboxGet ''k'' \<and> t = InboxGetTask ''k'' 0 \<or> req = LinkGet ''k'' \<and> t = LinkGetTask ''k'' 0"
  shows "\<exists>s. reachable sample_lib sqlite_ops sample_cfg sqlite_view True sample_start s \<and>
     tasks s = [0 \<mapsto> t] \<and> mailbox s = Map.empty \<and> clock s = 0 \<and> repository (waiting s) = sample_db"
proof -
  let ?s = sample_start
  let ?e = "calm_env (clock ?s) 0 (gone ?s) :: row env"
  obtain wl' sigs p where b: "begin_request sample_lib sqlite_ops sample_cfg ?e ?e (next_chan ?s) req (waiting ?s) =
      (wl', sigs, p)" by (metis prod_cases3)
  have "sigs = [] \<and> p = Continue t \<and> repository wl' = sample_db"
    using b assms by (auto simp: sample_start_def relay_start_def waiting_list_new_def inbox_get_def link_get_def
        validate_id_length_def max_id_length_def get_or_subscribe_def sample_get sample_db_view waiters_for_def
        ensure_waiter_capacity_def hm_contains_def add_message_waiter_def retain_open_def waiters_new_def
        max_waiters_per_entry_def sample_db_max)
  moreover have "tasks ?s 0 = None" by (simp add: sample_start_def relay_start_def)
  ultimately obtain s' where "step sample_lib sqlite_ops sample_cfg sqlite_view True ?s (Began 0 req (Continue t)) s'"
      "waiting s' = wl'" "mailbox s' = deliver [] (mailbox ?s)"
      "tasks s' = finish 0 (Continue t) (tasks ?s)" "clock s' = clock ?s"
    using calm_begins[OF _ refl b, of 0 sqlite_view True] by blast
  moreover have "deliver [] Map.empty = Map.empty" by (simp add: deliver_def)
  ultimately show ?thesis
    using \<open>sigs = [] \<and> _\<close> reachable.more[OF reachable.start]
    by (intro exI[of _ s']) (auto simp: sample_start_def relay_start_def)
qed

lemmas sample_inbox_wait = sample_waits[OF disjI1[OF conjI[OF refl refl]]]
lemmas sample_link_wait = sample_waits[OF disjI2[OF conjI[OF refl refl]]]

text \<open>A GET that finds its message.\<close>

lemma sample_get_step:
  "\<exists>s'. step sample_lib sqlite_ops sample_cfg sqlite_view True sample_start
     (Began 0 (InboxGet ''c'') (Answer (message_response sample_lib \<lparr>body = [7], msg_content_type = None\<rparr>))) s'"
proof -
  let ?e = "calm_env (clock sample_start) 0 (gone sample_start) :: row env"
  have b: "begin_request sample_lib sqlite_ops sample_cfg ?e ?e (next_chan sample_start) (InboxGet ''c'') (waiting sample_start) =
      (waiting sample_start, [], Answer (message_response sample_lib \<lparr>body = [7], msg_content_type = None\<rparr>))"
    by (simp add: sample_start_def relay_start_def waiting_list_new_def inbox_get_def validate_id_length_def
        max_id_length_def get_or_subscribe_def sample_get sample_db_view is_expired_def)
  have "tasks sample_start 0 = None" by (simp add: sample_start_def relay_start_def)
  from calm_begins[OF this refl b] show ?thesis by blast
qed

section \<open>Answers are honest\<close>

text \<open>C1.  However requests interleave, every answer to a GET of an ID, on /inbox or
  /link, is one of these: a message that some producer sent under this very ID, forwarded unchanged;
  404 after an expired entry of the ID was deleted; or 400, 408 or 503.  A consumer never receives
  a message of another ID or one that nobody sent.\<close>

theorem get_answers_honest:
  assumes "sqlite_invar db" and "entries_known (sqlite_view db) P K"
    and "reachable lib sqlite_ops cfg sqlite_view dep (relay_start sqlite_ops db now P K) s"
    and "step lib sqlite_ops cfg sqlite_view dep s ev s'" and "get_answer ev = Some (k, resp)"
  shows "(\<exists>m. (k, m) \<in> posted s \<and> resp \<in> {message_response lib m, deprecated (message_response lib m)}) \<or>
    (status resp = NOT_FOUND \<and> k \<in> expired_ids s) \<or>
    status resp \<in> {BAD_REQUEST, REQUEST_TIMEOUT, SERVICE_UNAVAILABLE}"
  by (rule sqlite.get_answer_cases[OF sqlite.reachable_inv[OF assms(3) sqlite.start_inv[OF assms(1,2)]] assms(4,5)])

lemma get_answers_honest_witness:
  "\<exists>s' resp. step sample_lib sqlite_ops sample_cfg sqlite_view True sample_start (Began 0 (InboxGet ''c'') (Answer resp)) s' \<and>
     resp = message_response sample_lib \<lparr>body = [7], msg_content_type = None\<rparr>"
proof -
  obtain s' where st: "step sample_lib sqlite_ops sample_cfg sqlite_view True sample_start
      (Began 0 (InboxGet ''c'') (Answer (message_response sample_lib \<lparr>body = [7], msg_content_type = None\<rparr>))) s'"
    using sample_get_step by blast
  have "\<exists>m. (''c'', m) \<in> posted sample_start \<and> message_response sample_lib \<lparr>body = [7], msg_content_type = None\<rparr> \<in>
      {message_response sample_lib m, deprecated (message_response sample_lib m)}"
    using get_answers_honest[OF sample_db_ok sample_db_known reachable.start st[unfolded sample_start_def], of "''c''"]
    by (simp add: sample_start_def)
  with st show ?thesis by blast
qed

text \<open>C5.  A producer is told that its message was received (200 from
  GET /inbox/{id}/await or from POST /link/{id}) only if a consumer has asked to acknowledge this
  ID, by DELETE or by receiving the message over /link.\<close>

theorem ack_answers_honest:
  assumes "sqlite_invar db" and "entries_known (sqlite_view db) P K"
    and "reachable lib sqlite_ops cfg sqlite_view dep (relay_start sqlite_ops db now P K) s"
    and "step lib sqlite_ops cfg sqlite_view dep s ev s'" and "ack_answer ev = Some (k, resp)"
    and "status resp = STATUS_OK"
  shows "k \<in> ack_requests s"
  by (rule sqlite.ack_answer_ok[OF sqlite.reachable_inv[OF assms(3) sqlite.start_inv[OF assms(1,2)]] assms(4-6)])

lemma ack_answers_honest_witness:
  "\<exists>s' resp. step sample_lib sqlite_ops sample_cfg sqlite_view True sample_start (Began 0 (InboxAwait ''a'') (Answer resp)) s' \<and>
     status resp = STATUS_OK \<and> ''a'' \<in> ack_requests sample_start"
proof -
  let ?e = "calm_env (clock sample_start) 0 (gone sample_start) :: row env" and ?r = "into_response sample_lib STATUS_OK []"
  have b: "begin_request sample_lib sqlite_ops sample_cfg ?e ?e (next_chan sample_start) (InboxAwait ''a'') (waiting sample_start) =
      (waiting sample_start, [], Answer ?r)"
    by (simp add: sample_start_def relay_start_def waiting_list_new_def inbox_await_def validate_id_length_def
        max_id_length_def is_acked_def sample_get sample_db_view is_expired_def)
  have "tasks sample_start 0 = None" by (simp add: sample_start_def relay_start_def)
  from calm_begins[OF this refl b] obtain s' where st: "step sample_lib sqlite_ops sample_cfg sqlite_view True sample_start
      (Began 0 (InboxAwait ''a'') (Answer ?r)) s'" by blast
  have "''a'' \<in> ack_requests sample_start"
    using ack_answers_honest[OF sample_db_ok sample_db_known reachable.start st[unfolded sample_start_def], of "''a''" ?r]
    by (simp add: sample_start_def)
  with st show ?thesis by (intro exI conjI) (assumption, simp_all)
qed

text \<open>C36.  However requests interleave, every GET on /inbox or /link that is answered 200
  carries a message that was sent under its ID: exactly its body, \<open>Content-Security-Policy: sandbox\<close>
  and \<open>X-Content-Type-Options: nosniff\<close> once each, whatever Content-Type the producer chose, and
  that Content-Type if it is a valid header value, else the default.\<close>

theorem message_response_safe:
  assumes "sqlite_invar db" and "entries_known (sqlite_view db) P K"
    and "reachable lib sqlite_ops cfg sqlite_view dep (relay_start sqlite_ops db now P K) s"
    and "step lib sqlite_ops cfg sqlite_view dep s ev s'" and "get_answer ev = Some (k, resp)"
    and "status resp = STATUS_OK"
  shows "response_headers resp ''content-security-policy'' = [text_bytes ''sandbox''] \<and>
    response_headers resp ''x-content-type-options'' = [text_bytes ''nosniff''] \<and>
    (\<exists>m. (k, m) \<in> posted s \<and> response_body resp = body m \<and>
       response_headers resp ''content-type'' =
         (case msg_content_type m of None \<Rightarrow> base_headers lib ''content-type''
          | Some ct \<Rightarrow> (case parse_value lib ct of None \<Rightarrow> base_headers lib ''content-type'' | Some v \<Rightarrow> [v])))"
proof -
  obtain m where "(k, m) \<in> posted s" "resp \<in> {message_response lib m, deprecated (message_response lib m)}"
    using sqlite.get_answer_cases[OF sqlite.reachable_inv[OF assms(3) sqlite.start_inv[OF assms(1,2)]] assms(4,5)]
      assms(6) by auto
  then show ?thesis
    by (intro conjI exI[of _ m]) (auto simp: message_response_headers split: option.splits)
qed

lemma message_response_safe_witness:
  "\<exists>s' resp. step sample_lib sqlite_ops sample_cfg sqlite_view True sample_start (Began 0 (InboxGet ''c'') (Answer resp)) s' \<and>
     response_headers resp ''content-security-policy'' = [text_bytes ''sandbox'']"
proof -
  let ?resp = "message_response sample_lib \<lparr>body = [7], msg_content_type = None\<rparr>"
  obtain s' where st: "step sample_lib sqlite_ops sample_cfg sqlite_view True sample_start (Began 0 (InboxGet ''c'') (Answer ?resp)) s'"
    using sample_get_step by blast
  from message_response_safe[OF sample_db_ok sample_db_known reachable.start st[unfolded sample_start_def], of "''c''" ?resp] st
  show ?thesis by (intro exI conjI) (assumption, simp)
qed

section \<open>No wake-up is lost\<close>

text \<open>C2.  In a run in which no SQL statement fails, a GET on /inbox or /link never waits although
  there is something to get: as long as its channel is empty, its ID has no unacknowledged entry
  that is not expired.  In particular no interleaving of POST and GET loses a message (the race that
  one lock section for look-up and subscription is meant to exclude).\<close>

theorem no_lost_message:
  assumes "sqlite_invar db" and "entries_known (sqlite_view db) P K"
    and "reachable lib sqlite_ops cfg sqlite_view True (relay_start sqlite_ops db now P K) s"
    and "tasks s r = Some t" and "waits_message t k c" and "mailbox s c = None"
  shows "\<not> (\<exists>x. sqlite_view (repository (waiting s)) k = Some x \<and> \<not> acked x \<and> \<not> is_expired (clock s) (expires_at x))"
proof -
  note inv0 = sqlite.start_inv[OF assms(1,2), of now]
  from sqlite.no_lost_wakeup[OF sqlite.reachable_inv[OF assms(3) inv0]
      sqlite.reachable_served[OF assms(3) inv0 sqlite.start_served] assms(4-6)]
  show ?thesis by (auto simp: live_at_def)
qed

lemma no_lost_message_witness:
  "\<exists>s. reachable sample_lib sqlite_ops sample_cfg sqlite_view True sample_start s \<and> tasks s 0 = Some (InboxGetTask ''k'' 0) \<and>
     \<not> (\<exists>x. sqlite_view (repository (waiting s)) ''k'' = Some x \<and> \<not> acked x \<and> \<not> is_expired (clock s) (expires_at x))"
proof -
  obtain s where s: "reachable sample_lib sqlite_ops sample_cfg sqlite_view True sample_start s"
      "tasks s 0 = Some (InboxGetTask ''k'' 0)" "mailbox s 0 = None"
    using sample_inbox_wait by auto
  have "waits_message (InboxGetTask ''k'' 0) ''k'' 0" by simp
  from no_lost_message[OF sample_db_ok sample_db_known s(1)[unfolded sample_start_def] s(2) this s(3)] s
  show ?thesis by blast
qed

text \<open>With the in-memory back end, which does not fail, the same holds from an empty store.\<close>

lemma no_lost_message_memory:
  assumes "reachable lib memory_ops cfg memory_view True (relay_start memory_ops (memory_new n) now {} {}) s"
    and "tasks s r = Some t" and "waits_message t k c" and "mailbox s c = None"
  shows "\<not> (\<exists>x. memory_view (repository (waiting s)) k = Some x \<and> \<not> acked x \<and> \<not> is_expired (clock s) (expires_at x))"
proof -
  note inv0 = memory.start_inv[OF memory_new_ok, of n now "{}" "{}"]
  from memory.no_lost_wakeup[OF memory.reachable_inv[OF assms(1) inv0]
      memory.reachable_served[OF assms(1) inv0 memory.start_served] assms(2-4)]
  show ?thesis by (auto simp: live_at_def)
qed

text \<open>C6.  A producer never waits for an ACK that has already happened, and it waits
  where \<open>ack\<close> looks for it, also when the database fails at times.\<close>

theorem no_lost_ack:
  assumes "sqlite_invar db" and "entries_known (sqlite_view db) P K"
    and "reachable lib sqlite_ops cfg sqlite_view dep (relay_start sqlite_ops db now P K) s"
    and "tasks s r = Some t" and "waits_ack t k c" and "mailbox s c = None"
  shows "c \<in> set (acks_at (waiters_map (waiting s)) k) \<and>
    \<not> (\<exists>x. sqlite_view (repository (waiting s)) k = Some x \<and> acked x)"
proof -
  have inv: "relay_inv sqlite_ops sqlite_invar sqlite_view s"
    by (rule sqlite.reachable_inv[OF assms(3) sqlite.start_inv[OF assms(1,2)]])
  from sqlite.waiting_ack[OF inv assms(4,5)] sqlite.waits_unacked[OF inv assms(4-6)] assms(6)
  show ?thesis by auto
qed

text \<open>A producer that waits for the ACK of the undelivered message of the sample database.\<close>

lemma sample_await:
  "\<exists>s. reachable sample_lib sqlite_ops sample_cfg sqlite_view True sample_start s \<and>
     tasks s = [0 \<mapsto> InboxAwaitTask ''c'' 0] \<and> mailbox s = Map.empty \<and> clock s = 0 \<and> repository (waiting s) = sample_db"
proof -
  let ?s = sample_start
  let ?e = "calm_env (clock ?s) 0 (gone ?s) :: row env"
  obtain wl' sigs p where b: "begin_request sample_lib sqlite_ops sample_cfg ?e ?e (next_chan ?s) (InboxAwait ''c'') (waiting ?s) =
      (wl', sigs, p)" by (metis prod_cases3)
  have "sigs = [] \<and> p = Continue (InboxAwaitTask ''c'' 0) \<and> repository wl' = sample_db"
    using b by (auto simp: sample_start_def relay_start_def waiting_list_new_def inbox_await_def validate_id_length_def
        max_id_length_def is_acked_def subscribe_ack_def sample_get sample_db_view is_expired_def waiters_for_def
        ensure_waiter_capacity_def hm_contains_def add_ack_waiter_def retain_open_def waiters_new_def
        max_waiters_per_entry_def sample_db_max)
  moreover have "tasks ?s 0 = None" by (simp add: sample_start_def relay_start_def)
  ultimately obtain s' where "step sample_lib sqlite_ops sample_cfg sqlite_view True ?s
        (Began 0 (InboxAwait ''c'') (Continue (InboxAwaitTask ''c'' 0))) s'"
      "waiting s' = wl'" "mailbox s' = deliver [] (mailbox ?s)"
      "tasks s' = finish 0 (Continue (InboxAwaitTask ''c'' 0)) (tasks ?s)" "clock s' = clock ?s"
    using calm_begins[OF _ refl b, of 0 sqlite_view True] by blast
  moreover have "deliver [] Map.empty = Map.empty" by (simp add: deliver_def)
  ultimately show ?thesis
    using \<open>sigs = [] \<and> _\<close> reachable.more[OF reachable.start]
    by (intro exI[of _ s']) (auto simp: sample_start_def relay_start_def)
qed

lemma no_lost_ack_witness:
  "\<exists>s. reachable sample_lib sqlite_ops sample_cfg sqlite_view True sample_start s \<and>
     tasks s 0 = Some (InboxAwaitTask ''c'' 0) \<and> 0 \<in> set (acks_at (waiters_map (waiting s)) ''c'')"
proof -
  obtain s where s: "reachable sample_lib sqlite_ops sample_cfg sqlite_view True sample_start s"
    "tasks s 0 = Some (InboxAwaitTask ''c'' 0)" "mailbox s 0 = None"
    using sample_await by auto
  have "waits_ack (InboxAwaitTask ''c'' 0) ''c'' 0" by simp
  from no_lost_ack[OF sample_db_ok sample_db_known s(1)[unfolded sample_start_def] s(2) this s(3)] s
  show ?thesis by blast
qed

text \<open>C4.  When POST /inbox/{id} is answered 200, every GET that was still waiting for the ID, on
  /inbox or on /link, is woken with the new message: it cannot time out any more, a GET on /inbox
  can answer with the message at once, and a GET on /link goes on to its ACK and then answers with
  the message.  Both answers are 200 with the body that was posted.\<close>

theorem post_reaches_waiters:
  assumes "sqlite_invar db" and "entries_known (sqlite_view db) P K"
    and "reachable lib sqlite_ops cfg sqlite_view dep (relay_start sqlite_ops db now P K) s"
    and "step lib sqlite_ops cfg sqlite_view dep s (Began r0 (InboxPost k headers b) (Answer resp)) s'"
    and "status resp = STATUS_OK" and "tasks s r = Some t" and "waits_message t k c" and "mailbox s c = None"
    and "m = \<lparr>body = b, msg_content_type = request_content_type lib headers\<rparr>"
  shows "(\<nexists>p s''. step lib sqlite_ops cfg sqlite_view dep s' (TimedOut r t p) s'') \<and>
    (t = InboxGetTask k c \<longrightarrow>
      (\<exists>s''. step lib sqlite_ops cfg sqlite_view dep s' (Resumed r t (Answer (message_response lib m))) s'')) \<and>
    (t = LinkGetTask k c \<longrightarrow>
      (\<exists>s'' s3. step lib sqlite_ops cfg sqlite_view dep s' (Resumed r t (Continue (LinkAckTask k m))) s'' \<and>
         step lib sqlite_ops cfg sqlite_view dep s'' (LinkAcked r k m (deprecated (message_response lib m))) s3)) \<and>
    (t = InboxGetTask k c \<or> t = LinkGetTask k c)"
proof -
  have inv: "relay_inv sqlite_ops sqlite_invar sqlite_view s"
    by (rule sqlite.reachable_inv[OF assms(3) sqlite.start_inv[OF assms(1,2)]])
  have mb: "mailbox s' c = Some (SentMessage c m)"
    using sqlite.post_wakes[OF inv assms(4-8)] assms(9) by simp
  have t': "tasks s' r = Some t" using assms(4,6) by (cases rule: beganE) auto
  have tc: "task_chan t = Some c" and form: "t = InboxGetTask k c \<or> t = LinkGetTask k c"
    using assms(7) by (cases t; simp)+
  note resumes = step.resumes[OF t' tc mb, of lib _ sqlite_ops cfg sqlite_view dep]
  have "\<exists>s''. step lib sqlite_ops cfg sqlite_view dep s' (Resumed r t (Answer (message_response lib m))) s''"
    if "t = InboxGetTask k c"
    using resumes[of "Answer (message_response lib m)"] that by (auto simp: inbox_get_resume_def)
  moreover have "\<exists>s'' s3. step lib sqlite_ops cfg sqlite_view dep s' (Resumed r t (Continue (LinkAckTask k m))) s'' \<and>
      step lib sqlite_ops cfg sqlite_view dep s'' (LinkAcked r k m (deprecated (message_response lib m))) s3"
    if "t = LinkGetTask k c"
  proof -
    let ?s = "s'\<lparr>tasks := finish r (Continue (LinkAckTask k m)) (tasks s')\<rparr>"
    let ?e = "calm_env (clock ?s) 0 (gone ?s) :: row env"
    have "step lib sqlite_ops cfg sqlite_view dep s' (Resumed r t (Continue (LinkAckTask k m))) ?s"
      using resumes[of "Continue (LinkAckTask k m)"] that by (simp add: link_get_resume_def)
    moreover obtain wl' sigs ok where "ack sqlite_ops ?e k (waiting ?s) = (wl', sigs, ok)" by (metis prod_cases3)
    then have "link_get_ack lib sqlite_ops ?e k m (waiting ?s) = (wl', sigs, deprecated (message_response lib m))"
      by (simp add: link_get_ack_def)
    from step.link_acks[OF _ _ order_refl this, of r dep cfg sqlite_view]
    have "\<exists>s3. step lib sqlite_ops cfg sqlite_view dep ?s (LinkAcked r k m (deprecated (message_response lib m))) s3"
      by (auto simp: calm_admissible)
    ultimately show ?thesis by blast
  qed
  moreover have "\<not> step lib sqlite_ops cfg sqlite_view dep s' (TimedOut r t p) s''" for p s''
    using mb tc by (auto elim: timed_outE)
  ultimately show ?thesis using form by blast
qed

lemma post_reaches_waiters_witness:
  "\<exists>s'' s3 s' answer. step sample_lib sqlite_ops sample_cfg sqlite_view True s'
      (Resumed 0 (LinkGetTask ''k'' 0) (Continue (LinkAckTask ''k'' \<lparr>body = [1], msg_content_type = Some ''text/plain''\<rparr>))) s'' \<and>
    step sample_lib sqlite_ops sample_cfg sqlite_view True s''
      (LinkAcked 0 ''k'' \<lparr>body = [1], msg_content_type = Some ''text/plain''\<rparr> answer) s3 \<and> response_body answer = [1]"
proof -
  obtain s where s: "reachable sample_lib sqlite_ops sample_cfg sqlite_view True sample_start s"
      "tasks s = [0 \<mapsto> LinkGetTask ''k'' 0]" "mailbox s = Map.empty" "clock s = 0" "repository (waiting s) = sample_db"
    using sample_link_wait by blast
  let ?e = "calm_env (clock s) 0 (gone s) :: row env"
  let ?m = "\<lparr>body = [1], msg_content_type = Some ''text/plain''\<rparr> :: message"
  obtain wl' sigs p where b: "begin_request sample_lib sqlite_ops sample_cfg ?e ?e (next_chan s)
      (InboxPost ''k'' sample_headers [1]) (waiting s) = (wl', sigs, p)" by (metis prod_cases3)
  have p: "p = Answer (into_response sample_lib STATUS_OK [])"
    using b s(4,5) by (auto simp: inbox_post_def validate_id_length_def max_id_length_def store_def sqlite_insert_def
        make_room_def contains_def count_entries_def sql_exists_def sqlite_write_def sample_db_def sqlite_new_def
        create_schema_def sample_row_def delete_expired_def sql_delete_expired_def sql_delete_acked_def
        sql_oldest_acked_def expired_before_def Let_def split: prod.splits)
  have "tasks s 1 = None" using s(2) by simp
  from calm_begins[OF this refl b] p obtain s' where st: "step sample_lib sqlite_ops sample_cfg sqlite_view True s
      (Began 1 (InboxPost ''k'' sample_headers [1]) (Answer (into_response sample_lib STATUS_OK []))) s'" by blast
  have m: "?m = \<lparr>body = [1], msg_content_type = request_content_type sample_lib sample_headers\<rparr>"
    by (simp add: request_content_type_def header_get_def sample_headers_def sample_content_type)
  have t: "tasks s 0 = Some (LinkGetTask ''k'' 0)" "waits_message (LinkGetTask ''k'' 0) ''k'' 0" "mailbox s 0 = None"
    using s(2,3) by simp_all
  have "\<exists>s'' s3. step sample_lib sqlite_ops sample_cfg sqlite_view True s'
      (Resumed 0 (LinkGetTask ''k'' 0) (Continue (LinkAckTask ''k'' ?m))) s'' \<and>
    step sample_lib sqlite_ops sample_cfg sqlite_view True s''
      (LinkAcked 0 ''k'' ?m (deprecated (message_response sample_lib ?m))) s3"
    using post_reaches_waiters[OF sample_db_ok sample_db_known s(1)[unfolded sample_start_def] st _ t m] by simp
  then obtain s'' s3 where "step sample_lib sqlite_ops sample_cfg sqlite_view True s'
      (Resumed 0 (LinkGetTask ''k'' 0) (Continue (LinkAckTask ''k'' ?m))) s''"
    "step sample_lib sqlite_ops sample_cfg sqlite_view True s''
      (LinkAcked 0 ''k'' ?m (deprecated (message_response sample_lib ?m))) s3" by blast
  then show ?thesis by (intro exI conjI) (assumption, assumption, simp)
qed

text \<open>C7.  When DELETE /inbox/{id} is answered 200, every await of the ID that is
  still waiting is woken and its next step answers 200.\<close>

theorem delete_reaches_waiters:
  assumes "sqlite_invar db" and "entries_known (sqlite_view db) P K"
    and "reachable lib sqlite_ops cfg sqlite_view dep (relay_start sqlite_ops db now P K) s"
    and "step lib sqlite_ops cfg sqlite_view dep s (Began r0 (InboxDelete k) (Answer resp)) s'"
    and "status resp = STATUS_OK" and "tasks s r = Some (InboxAwaitTask k c)" and "mailbox s c = None"
  shows "\<exists>s'' answer. step lib sqlite_ops cfg sqlite_view dep s' (Resumed r (InboxAwaitTask k c) (Answer answer)) s'' \<and>
    status answer = STATUS_OK"
proof -
  have inv: "relay_inv sqlite_ops sqlite_invar sqlite_view s"
    by (rule sqlite.reachable_inv[OF assms(3) sqlite.start_inv[OF assms(1,2)]])
  have mb: "mailbox s' c = Some (SentAck c)"
    by (rule sqlite.delete_wakes[OF inv assms(4,5,6) _ assms(7)]) simp
  have "tasks s' r = Some (InboxAwaitTask k c)"
    using assms(4,6) by (cases rule: beganE) auto
  from step.resumes[OF this _ mb, of lib "Answer (into_response lib STATUS_OK [])" sqlite_ops cfg sqlite_view dep]
  have "step lib sqlite_ops cfg sqlite_view dep s' (Resumed r (InboxAwaitTask k c) (Answer (into_response lib STATUS_OK [])))
      (s'\<lparr>tasks := finish r (Answer (into_response lib STATUS_OK [])) (tasks s')\<rparr>)"
    by (simp add: inbox_await_resume_def)
  then show ?thesis by (intro exI conjI) (assumption, simp)
qed

lemma delete_reaches_waiters_witness:
  "\<exists>s' s'' answer. step sample_lib sqlite_ops sample_cfg sqlite_view True s'
      (Resumed 0 (InboxAwaitTask ''c'' 0) (Answer answer)) s'' \<and> status answer = STATUS_OK"
proof -
  obtain s where s: "reachable sample_lib sqlite_ops sample_cfg sqlite_view True sample_start s"
      "tasks s = [0 \<mapsto> InboxAwaitTask ''c'' 0]" "mailbox s = Map.empty" "clock s = 0" "repository (waiting s) = sample_db"
    using sample_await by blast
  let ?e = "calm_env (clock s) 0 (gone s) :: row env"
  obtain wl' sigs p where b: "begin_request sample_lib sqlite_ops sample_cfg ?e ?e (next_chan s)
      (InboxDelete ''c'') (waiting s) = (wl', sigs, p)" by (metis prod_cases3)
  have p: "p = Answer (into_response sample_lib STATUS_OK [])"
    using b s(4,5) by (auto simp: inbox_delete_def validate_id_length_def max_id_length_def ack_def sample_get
        sample_db_view is_expired_def sqlite_ack_def split: prod.splits)
  have "tasks s 1 = None" using s(2) by simp
  from calm_begins[OF this refl b] p obtain s' where st: "step sample_lib sqlite_ops sample_cfg sqlite_view True s
      (Began 1 (InboxDelete ''c'') (Answer (into_response sample_lib STATUS_OK []))) s'" by blast
  have "\<exists>s'' answer. step sample_lib sqlite_ops sample_cfg sqlite_view True s' (Resumed 0 (InboxAwaitTask ''c'' 0) (Answer answer)) s'' \<and>
      status answer = STATUS_OK"
    by (rule delete_reaches_waiters[OF sample_db_ok sample_db_known s(1)[unfolded sample_start_def] st]) (simp_all add: s(2,3))
  then show ?thesis by blast
qed

section \<open>No handler panics\<close>



section \<open>Resources\<close>

text \<open>C20.  Whatever clients do, and also when the database fails at times, the relay never keeps
  more than twenty channels per unit of \<open>max_entries\<close>, nor waiters for more than \<open>max_entries\<close> IDs, nor
  more than \<open>max_entries\<close> entries in its database, unless there were more at the start (after the limit
  was lowered): then never more than at the start.\<close>

theorem waiter_memory_bound:
  assumes "sqlite_invar db" and "entries_known (sqlite_view db) P K"
    and "reachable lib sqlite_ops cfg sqlite_view dep (relay_start sqlite_ops db now P K) s"
  shows "length (chans_of (waiters_map (waiting s))) \<le> 20 * sqlite_max_entries db \<and>
    length (waiters_map (waiting s)) \<le> sqlite_max_entries db \<and>
    length (table (repository (waiting s))) \<le> max (length (table db)) (sqlite_max_entries db)"
proof -
  note inv0 = sqlite.start_inv[OF assms(1,2), of now]
  have inv: "relay_inv sqlite_ops sqlite_invar sqlite_view s" by (rule sqlite.reachable_inv[OF assms(3) inv0])
  then have good: "wl_inv sqlite_ops sqlite_invar sqlite_view (waiting s)" by (simp add: relay_inv_def)
  have "store_bounded sqlite_ops sqlite_view (length (table db)) (sqlite_max_entries db)
      (waiting (relay_start sqlite_ops db now P K))"
    using sqlite_card[OF assms(1)] by (simp add: store_bounded_def relay_start_def waiting_list_new_def)
  from sqlite.reachable_fits[OF assms(3) inv0 this]
  have fits: "store_bounded sqlite_ops sqlite_view (length (table db)) (sqlite_max_entries db) (waiting s)" .
  note g = sqlite.goodD[OF good]
  have "max_waiting_ids (waiting s) = sqlite_max_entries db" using g(2) fits by (simp add: store_bounded_def)
  moreover have "length (table (repository (waiting s))) \<le> max (length (table db)) (sqlite_max_entries db)"
    using fits sqlite_card[OF g(1)] by (simp add: store_bounded_def)
  ultimately show ?thesis using sqlite.waiting_bound[OF inv] g(3) by (simp add: waiters_ok_def mult.commute)
qed

lemma waiter_memory_bound_witness:
  "\<exists>s. reachable sample_lib sqlite_ops sample_cfg sqlite_view True sample_start s \<and> tasks s 0 = Some (InboxGetTask ''k'' 0) \<and>
     length (chans_of (waiters_map (waiting s))) \<le> 40"
proof -
  obtain s where s: "reachable sample_lib sqlite_ops sample_cfg sqlite_view True sample_start s"
      "tasks s 0 = Some (InboxGetTask ''k'' 0)"
    using sample_inbox_wait by auto
  from waiter_memory_bound[OF sample_db_ok sample_db_known s(1)[unfolded sample_start_def]] s show ?thesis
    by (auto simp: sample_db_max)
qed

section \<open>Restart\<close>

text \<open>C15.  A message that is undelivered when the relay stops is served after a restart: if the
  database file that \<open>--persist-db\<close> names holds what the stopped relay had in its database, and the new
  server starts, even with a smaller \<open>max_entries\<close>, then the first GET of the ID returns the message
  while it is not expired and the database can be read.\<close>

theorem restart_serves:
  assumes "sqlite_invar db" and "entries_known (sqlite_view db) P K"
    and "reachable lib sqlite_ops cfg sqlite_view dep (relay_start sqlite_ops db now P K) s"
    and "sqlite_view (repository (waiting s)) k = Some x" and "\<not> acked x" and "length k \<le> 256"
    and "files path = Some (table (repository (waiting s)))" and "arg_persist_db args = Some path"
    and "start link_compat io sqlite_ops (sqlite_open failing files) (main_config args) = Inr running"
    and "\<not> is_expired (t_check e) (expires_at x)" and "reliable e"
  shows "\<exists>b. message_body x = Some b \<and>
    inbox_get lib sqlite_ops e ch k (pending_list (served_state running)) =
      (pending_list (served_state running), [],
       Responded (message_response lib \<lparr>body = b, msg_content_type = content_type x\<rparr>))"
proof -
  have "relay_inv sqlite_ops sqlite_invar sqlite_view s"
    by (rule sqlite.reachable_inv[OF assms(3) sqlite.start_inv[OF assms(1,2)]])
  then have inv: "sqlite_invar (repository (waiting s))" using sqlite.goodD(1) by (simp add: relay_inv_def)
  obtain b where b: "message_body x = Some b"
    using sqlite.body_iff_unacked[OF inv assms(4)] assms(5) by auto
  obtain r where r: "sqlite_open failing files (persist_db (main_config args)) (max_entries (main_config args)) = Inr r"
    "pending_list (served_state running) = waiting_list_new sqlite_ops r"
    by (rule start_state[OF assms(9)]) (rule that; simp)
  have "persist_db (main_config args) = Some path" using assms(8) by (simp add: main_config_def build_def)
  then have "table r = table (repository (waiting s))"
    using r(1) assms(7) by (auto simp: sqlite_open_def sqlite_new_def create_schema_def split: if_splits)
  then have v: "sqlite_view r = sqlite_view (repository (waiting s))" and inv': "sqlite_invar r"
    using inv by (simp_all add: sqlite_view_def sqlite_invar_def)
  have "sqlite_get e r k = Inr (Some x)"
    using sqlite.get_calm[OF inv' assms(11), of k] by (simp add: v assms(4))
  with b assms(6,10) show ?thesis
    by (simp add: r(2) inbox_get_def validate_id_length_def max_id_length_def get_or_subscribe_def waiting_list_new_def)
qed

definition sample_files :: "string \<Rightarrow> row list option" where
  "sample_files path = (if path = ''relay.db'' then Some (table sample_db) else None)"

definition sample_args :: "nat args" where
  "sample_args = args_default\<lparr>arg_persist_db := Some ''relay.db'', arg_max_entries := 1\<rparr>"

lemma sample_starts: "\<exists>running. start link_compat sample_io sqlite_ops (sqlite_open (\<lambda>_. False) files) cfg = Inr running"
proof -
  have "\<exists>r. sqlite_open (\<lambda>_. False) files (persist_db cfg) (max_entries cfg) = Inr r"
    by (simp add: sqlite_open_def)
  then obtain r where "sqlite_open (\<lambda>_. False) files (persist_db cfg) (max_entries cfg) = Inr r" ..
  then have "app_state_new sqlite_ops (sqlite_open (\<lambda>_. False) files) cfg =
      Inr \<lparr>app_config = cfg, pending_list = waiting_list_new sqlite_ops r\<rparr>"
    by (simp add: app_state_new_def)
  then show ?thesis by (simp add: start_def sample_io_def)
qed

lemma restart_serves_witness:
  "\<exists>running resp. start True sample_io sqlite_ops (sqlite_open (\<lambda>_. False) sample_files) (main_config sample_args) = Inr running \<and>
     inbox_get sample_lib sqlite_ops (calm 50) 3 ''c'' (pending_list (served_state running)) =
       (pending_list (served_state running), [], Responded resp) \<and> response_body resp = [7]"
proof -
  let ?x = "\<lparr>message_body = Some [7], content_type = None, acked = False, expires_at = 100\<rparr> :: stored_entry"
  obtain running where
    st: "start True sample_io sqlite_ops (sqlite_open (\<lambda>_. False) sample_files) (main_config sample_args) = Inr running"
    using sample_starts by blast
  have r: "repository (waiting (relay_start sqlite_ops sample_db now P K)) = sample_db" for now P K
    by (simp add: relay_start_def waiting_list_new_def)
  have x: "sqlite_view (repository (waiting (relay_start sqlite_ops sample_db 0
        {(''c'', \<lparr>body = [7], msg_content_type = None\<rparr>)} {''a''}))) ''c'' = Some ?x"
    by (simp add: r sample_db_view)
  have f: "sample_files ''relay.db'' = Some (table (repository (waiting (relay_start sqlite_ops sample_db 0
        {(''c'', \<lparr>body = [7], msg_content_type = None\<rparr>)} {''a''}))))"
    by (simp add: r sample_files_def)
  have a: "arg_persist_db sample_args = Some ''relay.db''" by (simp add: sample_args_def)
  have t: "\<not> is_expired (t_check (calm 50)) (expires_at ?x)" by (simp add: is_expired_def)
  from restart_serves[OF sample_db_ok sample_db_known reachable.start x _ _ f a st t calm_env_ok(2), of sample_lib 3] st
  show ?thesis by auto
qed

end
