(* ===== verification/Relay_Spec.thy ===== *)
theory Relay_Spec
  imports Relay_System
begin

text \<open>
  What the relay promises, without how it does it: a shelf of entries, and requests that wait for
  news about an ID.  There are no channels, no waiter map and no lock here.  Publishing a message
  puts it on the shelf and tells it to everyone who waits for the ID, in one step; so do an
  acknowledgement and an expiry.  The limits on waiters appear only as the freedom to answer 503.
  \<open>Relay_Refines\<close> proves that every step of the relay is a step of this specification.
\<close>

section \<open>State\<close>

datatype news = News message | Acknowledged | Gone

datatype endpoint = Inbox_get | Inbox_await | Link_get | Link_post

datatype purpose = For_message | For_ack

fun purpose_of :: "endpoint \<Rightarrow> purpose" where
  "purpose_of Inbox_get = For_message"
| "purpose_of Link_get = For_message"
| "purpose_of Inbox_await = For_ack"
| "purpose_of Link_post = For_ack"

text \<open>A request in progress: it waits, it has been told, or it is about to acknowledge.\<close>

datatype wait = Pending endpoint string | Told endpoint string news | Acking string message

record relay_spec =
  shelf :: "string \<rightharpoonup> stored_entry"
  capacity :: nat
  waits :: "nat \<rightharpoonup> wait"
  spec_clock :: i64

text \<open>What is told to those who wait for an ID for a purpose.\<close>

type_synonym bulletin = "purpose \<Rightarrow> string \<Rightarrow> news option"

definition silence :: bulletin where
  "silence p j = None"

definition published :: "string \<Rightarrow> message \<Rightarrow> bulletin" where
  "published k m p j = (if j \<noteq> k then None else Some (case p of For_message \<Rightarrow> News m | For_ack \<Rightarrow> Gone))"

definition acknowledged :: "string \<Rightarrow> bulletin" where
  "acknowledged k p j = (if j = k \<and> p = For_ack then Some Acknowledged else None)"

definition withdrawn :: "string set \<Rightarrow> bulletin" where
  "withdrawn X p j = (if j \<in> X then Some Gone else None)"

lemmas bulletin_defs [relay_defs] = silence_def published_def acknowledged_def withdrawn_def

fun tell :: "bulletin \<Rightarrow> wait \<Rightarrow> wait" where
  "tell f (Pending ep k) = (case f (purpose_of ep) k of None \<Rightarrow> Pending ep k | Some n \<Rightarrow> Told ep k n)"
| "tell f w = w"

definition tell_all :: "bulletin \<Rightarrow> (nat \<rightharpoonup> wait) \<Rightarrow> (nat \<rightharpoonup> wait)" where
  "tell_all f ws r = map_option (tell f) (ws r)"

lemma tell_silence [simp]: "tell silence w = w"
  by (cases w) (simp_all add: silence_def)

lemma tell_all_silence [simp]: "tell_all silence ws = ws"
  by (simp add: fun_eq_iff tell_all_def option.map_ident_strong)

section \<open>What one request does\<close>

text \<open>An entry that a reader sees at the time \<open>t\<close>.\<close>

definition seen :: "i64 \<Rightarrow> (string \<rightharpoonup> stored_entry) \<Rightarrow> string \<Rightarrow> stored_entry \<Rightarrow> bool" where
  "seen t v k x \<longleftrightarrow> v k = Some x \<and> \<not> is_expired t (expires_at x)"

text \<open>
  Putting a message on the shelf at the time \<open>t\<close>, with room for \<open>cap\<close> undelivered ones.  A new ID
  may displace disposable entries; it is refused when \<open>cap\<close> IDs are held.
\<close>

definition shelved ::
    "nat \<Rightarrow> i64 \<Rightarrow> string \<Rightarrow> message \<Rightarrow> i64 \<Rightarrow> (string \<rightharpoonup> stored_entry) \<Rightarrow> (string \<rightharpoonup> stored_entry) \<Rightarrow> bool" where
  "shelved cap t k m x v v' \<longleftrightarrow>
     (\<exists>u. (if v k = None then purged t v u \<and> card (held t v) < cap else u = v) \<and>
          v' = u(k \<mapsto> fresh_entry (body m) (msg_content_type m) x))"

definition shelf_full ::
    "nat \<Rightarrow> i64 \<Rightarrow> string \<Rightarrow> (string \<rightharpoonup> stored_entry) \<Rightarrow> (string \<rightharpoonup> stored_entry) \<Rightarrow> bool" where
  "shelf_full cap t k v v' \<longleftrightarrow> v k = None \<and> v' = v |` held t v \<and> cap \<le> card (held t v)"

definition plain :: "http_lib \<Rightarrow> status_code \<Rightarrow> string \<Rightarrow> response" where
  "plain lib st words = into_response lib st (text_bytes words)"

datatype reply = Reply response | Stay wait

text \<open>
  \<open>serves lib cfg cap now req v f v' a\<close>: by the time \<open>now\<close>, the request \<open>req\<close> turns the shelf \<open>v\<close>
  into \<open>v'\<close>, tells the bulletin \<open>f\<close> to those who wait, and is answered or has to wait.
\<close>

inductive serves ::
    "http_lib \<Rightarrow> 'net config \<Rightarrow> nat \<Rightarrow> i64 \<Rightarrow> request \<Rightarrow> (string \<rightharpoonup> stored_entry) \<Rightarrow> bulletin \<Rightarrow>
     (string \<rightharpoonup> stored_entry) \<Rightarrow> reply \<Rightarrow> bool"
  for lib cfg cap now
where
  too_long: "256 < length (request_id req) \<Longrightarrow> status resp = BAD_REQUEST \<Longrightarrow>
    serves lib cfg cap now req v silence v (Reply resp)"
| busy: "req \<in> {InboxGet k, InboxAwait k, LinkGet k, LinkPost k h b} \<Longrightarrow>
    serves lib cfg cap now req v silence v
      (Reply (plain lib SERVICE_UNAVAILABLE ''Too many concurrent requests''))"
| full: "req \<in> {InboxPost k h b, LinkPost k h b} \<Longrightarrow> sint t \<le> sint now \<Longrightarrow> shelf_full cap t k v v' \<Longrightarrow>
    serves lib cfg cap now req v silence v' (Reply (plain lib SERVICE_UNAVAILABLE ''Server at capacity''))"
| posted: "sint t \<le> sint now \<Longrightarrow> sint t2 \<le> sint now \<Longrightarrow>
    m = \<lparr>body = b, msg_content_type = request_content_type lib h\<rparr> \<Longrightarrow>
    shelved cap t k m (t2 + of_nat (as_millis (inbox_cache_ttl cfg))) v v' \<Longrightarrow>
    serves lib cfg cap now (InboxPost k h b) v (published k m) v' (Reply (plain lib STATUS_OK ''''))"
| got: "sint t \<le> sint now \<Longrightarrow> seen t v k x \<Longrightarrow> message_body x = Some b \<Longrightarrow>
    serves lib cfg cap now (InboxGet k) v silence v
      (Reply (message_response lib \<lparr>body = b, msg_content_type = content_type x\<rparr>))"
| get_waits: "sint t \<le> sint now \<Longrightarrow> \<nexists>x. seen t v k x \<and> \<not> acked x \<Longrightarrow>
    serves lib cfg cap now (InboxGet k) v silence v (Stay (Pending Inbox_get k))"
| link_got: "sint t \<le> sint now \<Longrightarrow> seen t v k x \<Longrightarrow> message_body x = Some b \<Longrightarrow>
    serves lib cfg cap now (LinkGet k) v silence v
      (Stay (Acking k \<lparr>body = b, msg_content_type = content_type x\<rparr>))"
| link_waits: "sint t \<le> sint now \<Longrightarrow> \<nexists>x. seen t v k x \<and> \<not> acked x \<Longrightarrow>
    serves lib cfg cap now (LinkGet k) v silence v (Stay (Pending Link_get k))"
| deleted: "sint t \<le> sint now \<Longrightarrow> seen t v k x \<Longrightarrow> \<not> acked x \<Longrightarrow>
    serves lib cfg cap now (InboxDelete k) v (acknowledged k) (v(k \<mapsto> acked_entry x))
      (Reply (plain lib STATUS_OK ''''))"
| deleted_again: "sint t \<le> sint now \<Longrightarrow> seen t v k x \<Longrightarrow> acked x \<Longrightarrow>
    serves lib cfg cap now (InboxDelete k) v silence v (Reply (plain lib STATUS_OK ''''))"
| missing: "req \<in> {InboxDelete k, InboxAck k, InboxAwait k} \<Longrightarrow> sint t \<le> sint now \<Longrightarrow> \<nexists>x. seen t v k x \<Longrightarrow>
    serves lib cfg cap now req v silence v (Reply (plain lib NOT_FOUND ''Not found''))"
| ack_status: "sint t \<le> sint now \<Longrightarrow> seen t v k x \<Longrightarrow>
    serves lib cfg cap now (InboxAck k) v silence v
      (Reply (plain lib STATUS_OK (if acked x then ''true'' else ''false'')))"
| awaited: "sint t \<le> sint now \<Longrightarrow> seen t v k x \<Longrightarrow> acked x \<Longrightarrow>
    serves lib cfg cap now (InboxAwait k) v silence v (Reply (plain lib STATUS_OK ''''))"
| await_waits: "sint t \<le> sint now \<Longrightarrow> seen t v k x \<Longrightarrow> \<not> acked x \<Longrightarrow>
    serves lib cfg cap now (InboxAwait k) v silence v (Stay (Pending Inbox_await k))"
| await_told: "sint t \<le> sint now \<Longrightarrow> seen t v k x \<Longrightarrow> acked x \<Longrightarrow>
    serves lib cfg cap now (InboxAwait k) v silence v (Stay (Told Inbox_await k Acknowledged))"
| link_posted: "sint t \<le> sint now \<Longrightarrow> sint t2 \<le> sint now \<Longrightarrow>
    m = \<lparr>body = b, msg_content_type = request_content_type lib h\<rparr> \<Longrightarrow>
    shelved cap t k m (t2 + of_nat (as_millis (link_timeout cfg))) v v' \<Longrightarrow>
    serves lib cfg cap now (LinkPost k h b) v (published k m) v' (Stay (Pending Link_post k))"
| link_lapsed: "sint t \<le> sint now \<Longrightarrow> sint t2 \<le> sint now \<Longrightarrow>
    m = \<lparr>body = b, msg_content_type = request_content_type lib h\<rparr> \<Longrightarrow>
    shelved cap t k m (t2 + of_nat (as_millis (link_timeout cfg))) v v' \<Longrightarrow>
    is_expired now (t2 + of_nat (as_millis (link_timeout cfg))) \<Longrightarrow>
    serves lib cfg cap now (LinkPost k h b) v (published k m) v' (Reply (plain lib NOT_FOUND ''Entry expired''))"

section \<open>Steps\<close>

text \<open>What a request that was told something does next.\<close>

fun react :: "http_lib \<Rightarrow> wait \<Rightarrow> reply option" where
  "react lib (Told Inbox_get k (News m)) = Some (Reply (message_response lib m))"
| "react lib (Told Link_get k (News m)) = Some (Stay (Acking k m))"
| "react lib (Told Inbox_get k Gone) = Some (Reply (plain lib NOT_FOUND ''Entry expired''))"
| "react lib (Told Link_get k Gone) = Some (Reply (plain lib NOT_FOUND ''Entry expired''))"
| "react lib (Told Inbox_await k Acknowledged) = Some (Reply (plain lib STATUS_OK ''''))"
| "react lib (Told Link_post k Acknowledged) = Some (Reply (deprecated (plain lib STATUS_OK '''')))"
| "react lib (Told Inbox_await k Gone) = Some (Reply (plain lib NOT_FOUND ''Not found''))"
| "react lib (Told Link_post k Gone) = Some (Reply (deprecated (plain lib NOT_FOUND ''Entry expired'')))"
| "react lib _ = None"

fun late :: "http_lib \<Rightarrow> endpoint \<Rightarrow> response" where
  "late lib Link_post = deprecated (plain lib REQUEST_TIMEOUT ''Request timed out'')"
| "late lib _ = plain lib REQUEST_TIMEOUT ''Request timed out''"

fun settle :: "nat \<Rightarrow> reply \<Rightarrow> (nat \<rightharpoonup> wait) \<Rightarrow> (nat \<rightharpoonup> wait)" where
  "settle r (Reply _) ws = ws(r := None)"
| "settle r (Stay w) ws = ws(r \<mapsto> w)"

datatype spec_event =
    Asked nat request reply
  | Woken nat reply
  | Lapsed nat response
  | Handed nat response
  | Left nat
  | Swept nat
  | Passed

inductive spec_step :: "http_lib \<Rightarrow> 'net config \<Rightarrow> relay_spec \<Rightarrow> spec_event \<Rightarrow> relay_spec \<Rightarrow> bool"
  for lib cfg
where
  asked: "waits s r = None \<Longrightarrow> sint (spec_clock s) \<le> sint now \<Longrightarrow>
    serves lib cfg (capacity s) now req (shelf s) f v a \<Longrightarrow>
    spec_step lib cfg s (Asked r req a)
      (s\<lparr>shelf := v, waits := settle r a (tell_all f (waits s)), spec_clock := now\<rparr>)"
| woken: "waits s r = Some w \<Longrightarrow> react lib w = Some a \<Longrightarrow>
    spec_step lib cfg s (Woken r a) (s\<lparr>waits := settle r a (waits s)\<rparr>)"
| lapsed: "waits s r = Some (Pending ep k) \<Longrightarrow>
    spec_step lib cfg s (Lapsed r (late lib ep)) (s\<lparr>waits := (waits s)(r := None)\<rparr>)"
| handed: "waits s r = Some (Acking k m) \<Longrightarrow> sint (spec_clock s) \<le> sint now \<Longrightarrow> sint t \<le> sint now \<Longrightarrow>
    (if \<exists>x. seen t (shelf s) k x \<and> \<not> acked x
     then f = acknowledged k \<and> v = (shelf s)(k \<mapsto> acked_entry (the (shelf s k)))
     else f = silence \<and> v = shelf s) \<Longrightarrow>
    spec_step lib cfg s (Handed r (deprecated (message_response lib m)))
      (s\<lparr>shelf := v, waits := (tell_all f (waits s))(r := None), spec_clock := now\<rparr>)"
| left: "waits s r = Some w \<Longrightarrow> spec_step lib cfg s (Left r) (s\<lparr>waits := (waits s)(r := None)\<rparr>)"
| swept: "sint (spec_clock s) \<le> sint now \<Longrightarrow> sint t \<le> sint now \<Longrightarrow>
    X = {k. \<exists>x. shelf s k = Some x \<and> expired_before t (expires_at x)} \<Longrightarrow>
    spec_step lib cfg s (Swept (card X))
      (s\<lparr>shelf := shelf s |` (- X), waits := tell_all (withdrawn X) (waits s), spec_clock := now\<rparr>)"
| passed: "sint (spec_clock s) \<le> sint now \<Longrightarrow> spec_step lib cfg s Passed (s\<lparr>spec_clock := now\<rparr>)"

end
