(* ===== verification/Relay_Refines.thy ===== *)
theory Relay_Refines
  imports Relay_Spec Relay_Answers Simulation
begin

text \<open>
  The relay implements \<open>Relay_Spec\<close> while the store works: a forward simulation.  \<open>abs_relay\<close>
  forgets channels, waiter map and mailboxes and keeps what each request has been told.  The key
  notion is \<open>tells\<close>: an operation of the waiting list gives exactly the news of a bulletin to the
  waiters whose receivers are still there, and leaves the others where they are.
\<close>

section \<open>Abstraction\<close>

fun news_of :: "signal \<Rightarrow> news" where
  "news_of (SentMessage _ m) = News m"
| "news_of (SentAck _) = Acknowledged"
| "news_of (Dropped _) = Gone"

fun heard :: "endpoint \<Rightarrow> string \<Rightarrow> signal option \<Rightarrow> wait" where
  "heard ep k None = Pending ep k"
| "heard ep k (Some sig) = Told ep k (news_of sig)"

fun abs_task :: "(chan \<rightharpoonup> signal) \<Rightarrow> task \<Rightarrow> wait" where
  "abs_task mb (InboxGetTask k c) = heard Inbox_get k (mb c)"
| "abs_task mb (InboxAwaitTask k c) = heard Inbox_await k (mb c)"
| "abs_task mb (LinkGetTask k c) = heard Link_get k (mb c)"
| "abs_task mb (LinkPostTask k c) = heard Link_post k (mb c)"
| "abs_task mb (LinkAckTask k m) = Acking k m"

definition abs_tasks :: "(chan \<rightharpoonup> signal) \<Rightarrow> (nat \<rightharpoonup> task) \<Rightarrow> (nat \<rightharpoonup> wait)" where
  "abs_tasks mb ts r = map_option (abs_task mb) (ts r)"

definition abs_relay :: "('r \<Rightarrow> string \<rightharpoonup> stored_entry) \<Rightarrow> 'r relay \<Rightarrow> relay_spec" where
  "abs_relay view s = \<lparr>shelf = view (repository (waiting s)), capacity = max_waiting_ids (waiting s),
     waits = abs_tasks (mailbox s) (tasks s), spec_clock = clock s\<rparr>"

text \<open>Nobody waits at the start.\<close>

definition spec_start :: "(string \<rightharpoonup> stored_entry) \<Rightarrow> nat \<Rightarrow> i64 \<Rightarrow> relay_spec" where
  "spec_start v n now = \<lparr>shelf = v, capacity = n, waits = Map.empty, spec_clock = now\<rparr>"

lemma abs_relay_start: "abs_relay view (relay_start ops r now P K) = spec_start (view r) (repo_max ops r) now"
  by (simp add: abs_relay_def spec_start_def relay_start_def waiting_list_new_def abs_tasks_def fun_eq_iff)

lemma abs_relay_simps [simp]:
  "shelf (abs_relay view s) = view (repository (waiting s))"
  "capacity (abs_relay view s) = max_waiting_ids (waiting s)"
  "waits (abs_relay view s) = abs_tasks (mailbox s) (tasks s)"
  "spec_clock (abs_relay view s) = clock s"
  by (simp_all add: abs_relay_def)

fun abs_progress :: "(chan \<rightharpoonup> signal) \<Rightarrow> progress \<Rightarrow> reply option" where
  "abs_progress mb (Answer resp) = Some (Reply resp)"
| "abs_progress mb (Continue t) = Some (Stay (abs_task mb t))"
| "abs_progress mb Abort = None"

lemma finish_abs:
  "abs_progress mb p = Some a \<Longrightarrow> abs_tasks mb (finish r p ts) = settle r a (abs_tasks mb ts)"
  by (cases p) (auto simp: abs_tasks_def fun_eq_iff)

lemma finish_abs_None: "abs_tasks mb (ts(r := None)) = (abs_tasks mb ts)(r := None)"
  by (auto simp: abs_tasks_def fun_eq_iff)

text \<open>The event that the specification shows for an event of the relay.\<close>

fun answer_of :: "progress \<Rightarrow> response option" where
  "answer_of (Answer resp) = Some resp"
| "answer_of _ = None"

fun matches :: "event \<Rightarrow> spec_event \<Rightarrow> bool" where
  "matches (Began r req p) (Asked r' req' a) = (r = r' \<and> req = req' \<and>
     (case a of Reply resp \<Rightarrow> p = Answer resp | Stay _ \<Rightarrow> \<exists>t. p = Continue t))"
| "matches (Resumed r t p) (Woken r' a) = (r = r' \<and>
     (case a of Reply resp \<Rightarrow> p = Answer resp | Stay _ \<Rightarrow> \<exists>t. p = Continue t))"
| "matches (TimedOut r t p) (Lapsed r' resp) = (r = r' \<and> p = Answer resp)"
| "matches (LinkAcked r k m resp) (Handed r' resp') = (r = r' \<and> resp = resp')"
| "matches (Disconnected r) (Left r') = (r = r')"
| "matches (CleanedUp n) (Swept n') = (n = n')"
| "matches Ticked Passed = True"
| "matches _ _ = False"

section \<open>What an operation tells\<close>

definition informed :: "news option \<Rightarrow> chan \<Rightarrow> chan list \<Rightarrow> signal list \<Rightarrow> bool" where
  "informed n c place sigs =
     (case n of None \<Rightarrow> c \<in> set place | Some x \<Rightarrow> \<exists>s \<in> set sigs. signal_chan s = c \<and> news_of s = x)"

lemma informed_simps [simp]:
  "informed None c place sigs = (c \<in> set place)"
  "informed (Some x) c place sigs = (\<exists>s \<in> set sigs. signal_chan s = c \<and> news_of s = x)"
  by (simp_all add: informed_def)

definition tells ::
    "(chan \<Rightarrow> bool) \<Rightarrow> bulletin \<Rightarrow> (string, waiters) hash_map \<Rightarrow> (string, waiters) hash_map \<Rightarrow> signal list \<Rightarrow> bool" where
  "tells cl f m m' sigs \<longleftrightarrow>
     (\<forall>k c. \<not> cl c \<longrightarrow>
        (c \<in> set (msgs_at m k) \<longrightarrow> informed (f For_message k) c (msgs_at m' k) sigs) \<and>
        (c \<in> set (acks_at m k) \<longrightarrow> informed (f For_ack k) c (acks_at m' k) sigs))"

lemma tells_refl [simp]: "tells cl silence m m sigs"
  by (simp add: tells_def silence_def)

lemma tells_kept: "carried cl (\<lambda>_ _. False) (\<lambda>_ _. False) m m' sigs' \<Longrightarrow> tells cl silence m m' sigs"
  by (auto simp: tells_def carried_def silence_def)

lemma tells_after: "tells cl silence m m1 s1 \<Longrightarrow> tells cl f m1 m2 s2 \<Longrightarrow> tells cl f m m2 (s1 @ s2)"
  unfolding tells_def silence_def informed_simps(1)
  by (fastforce simp: informed_def split: option.splits)

lemma tells_before: "tells cl f m m1 s1 \<Longrightarrow> tells cl silence m1 m2 s2 \<Longrightarrow> tells cl f m m2 (s1 @ s2)"
  unfolding tells_def silence_def informed_simps(1)
  by (fastforce simp: informed_def split: option.splits)

text \<open>
  \<open>answered view lib cfg now s req wl' sigs p\<close>: the lock section that ends with \<open>wl'\<close>, \<open>sigs\<close> and
  \<open>p\<close> does what the specification says.
\<close>

definition answered ::
    "('r \<Rightarrow> string \<rightharpoonup> stored_entry) \<Rightarrow> http_lib \<Rightarrow> 'net config \<Rightarrow> i64 \<Rightarrow> 'r relay \<Rightarrow> request \<Rightarrow>
     'r waiting_list \<Rightarrow> signal list \<Rightarrow> progress \<Rightarrow> bool" where
  "answered view lib cfg now s req wl' sigs p \<longleftrightarrow>
     (\<exists>f a. serves lib cfg (max_waiting_ids (waiting s)) now req
              (view (repository (waiting s))) f (view (repository wl')) a \<and>
        tells (gone s) f (waiters_map (waiting s)) (waiters_map wl') sigs \<and>
        abs_progress (deliver sigs (mailbox s)) p = Some a \<and>
        max_waiting_ids wl' = max_waiting_ids (waiting s))"

lemma answeredI:
  "serves lib cfg (max_waiting_ids (waiting s)) now req (view (repository (waiting s))) f (view (repository wl')) a \<Longrightarrow>
   tells (gone s) f (waiters_map (waiting s)) (waiters_map wl') sigs \<Longrightarrow>
   abs_progress (deliver sigs (mailbox s)) p = Some a \<Longrightarrow>
   max_waiting_ids wl' = max_waiting_ids (waiting s) \<Longrightarrow> answered view lib cfg now s req wl' sigs p"
  unfolding answered_def by blast

text \<open>A section that changes neither the shelf nor what anybody knows.\<close>

lemma answered_same:
  "serves lib cfg (max_waiting_ids (waiting s)) now req (view (repository (waiting s))) silence
     (view (repository (waiting s))) a \<Longrightarrow> abs_progress (deliver sigs (mailbox s)) p = Some a \<Longrightarrow>
   answered view lib cfg now s req (waiting s) sigs p"
  by (rule answeredI[OF _ tells_refl]) simp_all

lemma ensure_tells:
  "ensure_waiter_capacity e k wl = (wl', sigs, res) \<Longrightarrow> waiters_ok (max_waiting_ids wl) (waiters_map wl) \<Longrightarrow>
   tells (closed e) silence (waiters_map wl) (waiters_map wl') extra"
  by (rule tells_kept[OF ensure_carried])

context entry_store
begin

lemma store_tells:
  assumes st: "store ops e k m ttl wl = (wl', sigs, res)" and res: "res \<noteq> Inr StoreFull"
  shows "tells cl (published k m) (waiters_map wl) (waiters_map wl') sigs"
proof -
  from st res have m': "waiters_map wl' = hm_remove k (waiters_map wl)"
    and sigs: "sigs = map Dropped (acks_at (waiters_map wl) k) @ map (\<lambda>c. SentMessage c m) (msgs_at (waiters_map wl) k)"
    by (auto simp: store_eq split: prod.splits if_splits)
  show ?thesis
    unfolding tells_def
  proof (intro allI impI conjI)
    fix j c
    show "informed (published k m For_message j) c (msgs_at (waiters_map wl') j) sigs"
      if "c \<in> set (msgs_at (waiters_map wl) j)"
      using that by (auto simp: published_def m' sigs intro!: bexI[of _ "SentMessage c m"])
    show "informed (published k m For_ack j) c (acks_at (waiters_map wl') j) sigs"
      if "c \<in> set (acks_at (waiters_map wl) j)"
      using that by (auto simp: published_def m' sigs intro!: bexI[of _ "Dropped c"])
  qed
qed

lemma ack_tells:
  assumes g: "good wl" and n: "wl_notify_ack_waiters k (wl\<lparr>repository := r\<rparr>) = (wl', sigs)"
  shows "tells cl (acknowledged k) (waiters_map wl) (waiters_map wl') sigs"
proof -
  note ns = notify_ack_step[OF n, of "max_waiting_ids wl"]
  have at: "waiters_at (waiters_map wl') j =
      (if j = k then (waiters_at (waiters_map wl) k)\<lparr>ack_waiters := []\<rparr> else waiters_at (waiters_map wl) j)" for j
    using ns(3)[of j] goodD(3)[OF g] by simp
  have sigs: "sigs = map SentAck (acks_at (waiters_map wl) k)" using ns(5) goodD(3)[OF g] by simp
  show ?thesis
    unfolding tells_def
    by (auto simp: acknowledged_def at sigs intro!: bexI[of _ "SentAck c" for c])
qed

lemma cleanup_tells:
  assumes g: "good wl" and fair: "fair_scan e" and rel: "reliable e"
    and cl: "cleanup_expired ops e wl = (wl', sigs, n)"
    and X: "X = {k. \<exists>s. view (repository wl) k = Some s \<and> expired_before (t_purge e) (expires_at s)}"
  shows "tells (closed e) (withdrawn X) (waiters_map wl) (waiters_map wl') sigs \<and>
    n = card X \<and> view (repository wl') = view (repository wl) |` (- X) \<and> max_waiting_ids wl' = max_waiting_ids wl"
proof -
  obtain Y where Y: "reliable e \<longrightarrow> Y = {k. \<exists>s. view (repository wl) k = Some s \<and> expired_before (t_purge e) (expires_at s)}"
    and n: "n = card Y" and v: "view (repository wl') = view (repository wl) |` (- Y)"
    and at: "\<forall>j. waiters_at (waiters_map wl') j =
        (if j \<in> Y then waiters_new else open_waiters (closed e) (waiters_at (waiters_map wl) j))"
    and mx: "max_waiting_ids wl' = max_waiting_ids wl"
    and told: "\<forall>k \<in> Y. \<forall>c \<in> set (waiters_chans (waiters_at (waiters_map wl) k)). Dropped c \<in> set sigs"
    using cleanup_spec[OF g fair cl] by (elim exE conjE) (rule that; assumption)
  have Y: "Y = X" using Y rel X by simp
  have "tells (closed e) (withdrawn X) (waiters_map wl) (waiters_map wl') sigs"
    unfolding tells_def
  proof (intro allI impI conjI)
    fix j c assume c: "\<not> closed e c"
    have drop: "informed (withdrawn X p j) c place sigs"
      if "j \<in> X" "c \<in> set (waiters_chans (waiters_at (waiters_map wl) j))" for p place
      using told Y that by (auto simp: withdrawn_def intro!: bexI[of _ "Dropped c"])
    show "informed (withdrawn X For_message j) c (msgs_at (waiters_map wl') j) sigs"
      if "c \<in> set (msgs_at (waiters_map wl) j)"
      using that c at Y drop by (cases "j \<in> X") (auto simp: withdrawn_def waiters_chans_def)
    show "informed (withdrawn X For_ack j) c (acks_at (waiters_map wl') j) sigs"
      if "c \<in> set (acks_at (waiters_map wl) j)"
      using that c at Y drop by (cases "j \<in> X") (auto simp: withdrawn_def waiters_chans_def)
  qed
  with Y n v mx show ?thesis by simp
qed

section \<open>The requests that wait\<close>

text \<open>An effect of the waiting list with a bulletin does to every waiting request what the bulletin says.\<close>

lemma effect_abs_task:
  assumes inv: "relay_inv ops invar view s" and eff: "effect cl new P K X (waiting s) wl' sigs"
    and new: "new = {#} \<or> new = {#next_chan s#}"
    and tl: "tells (gone s) f (waiters_map (waiting s)) (waiters_map wl') sigs"
    and t: "tasks s r = Some t"
  shows "abs_task (deliver sigs (mailbox s)) t = tell f (abs_task (mailbox s) t)"
proof -
  have ok: "channels_ok s" using inv by (simp add: relay_inv_def)
  then have d: "distinct (chans_of (waiters_map (waiting s)))" "next_chan s \<notin> set (chans_of (waiters_map (waiting s)))"
    by (auto simp: channels_ok_def)
  have "balanced (waiters_map (waiting s)) new (waiters_map wl') sigs" and g': "good wl'"
    using eff by (simp_all add: op_effect_def)
  note bd = balanced_distinct[OF this(1) d(1) new d(2)]
  have old: "deliver sigs (mailbox s) c = Some sig" if "mailbox s c = Some sig" for c sig
  proof -
    have "c \<notin> signal_chan ` set sigs"
    proof
      assume "c \<in> signal_chan ` set sigs"
      then have "c \<in> set (chans_of (waiters_map (waiting s))) \<or> c = next_chan s" using bd(4) new by auto
      then show False using that ok unfolding channels_ok_def by (metis less_irrefl option.distinct(1))
    qed
    then show ?thesis using that by (simp add: deliver_other)
  qed
  have stay: "deliver sigs (mailbox s) c = None"
    if "c \<in> set (waiters_chans (waiters_at (waiters_map wl') k))" "mailbox s c = None" for c k
  proof -
    have "c \<in> set (chans_of (waiters_map wl'))" using that(1) chans_at goodD(4)[OF g'] by blast
    then have "c \<notin> signal_chan ` set sigs" using bd(3) by blast
    then show ?thesis using that(2) by (simp add: deliver_other)
  qed
  have hear: "heard ep k (deliver sigs (mailbox s) c) = tell f (heard ep k (mailbox s c))"
    if i: "mailbox s c = None \<Longrightarrow> informed (f (purpose_of ep) k) c place sigs"
      and place: "set place \<subseteq> set (waiters_chans (waiters_at (waiters_map wl') k))" for ep k c place
  proof (cases "mailbox s c")
    case (Some sig)
    with old[OF Some] show ?thesis by simp
  next
    case None
    show ?thesis
    proof (cases "f (purpose_of ep) k")
      case fN: None
      then have "c \<in> set place" using i None by simp
      with fN None stay[of c k] place show ?thesis by auto
    next
      case (Some n)
      then obtain x where "x \<in> set sigs" "signal_chan x = c" "news_of x = n" using i None by auto
      with Some None deliver_signal[OF bd(2) this(1)] show ?thesis by auto
    qed
  qed
  have alive: "\<not> gone s c" if "task_chan t = Some c" for c
    using t that by (auto simp: gone_def ran_def)
  have msg: "heard ep k (deliver sigs (mailbox s) c) = tell f (heard ep k (mailbox s c))"
    if w: "waits_message t k c" and c: "task_chan t = Some c" and ep: "purpose_of ep = For_message" for ep k c
  proof (rule hear[of c ep k "msgs_at (waiters_map wl') k"])
    assume "mailbox s c = None"
    then have "c \<in> set (msgs_at (waiters_map (waiting s)) k)" using waiting_message[OF inv t w] by simp
    then show "informed (f (purpose_of ep) k) c (msgs_at (waiters_map wl') k) sigs"
      using tl alive[OF c] ep unfolding tells_def by metis
  qed (simp add: waiters_chans_def)
  have ack: "heard ep k (deliver sigs (mailbox s) c) = tell f (heard ep k (mailbox s c))"
    if w: "waits_ack t k c" and c: "task_chan t = Some c" and ep: "purpose_of ep = For_ack" for ep k c
  proof (rule hear[of c ep k "acks_at (waiters_map wl') k"])
    assume "mailbox s c = None"
    then have "c \<in> set (acks_at (waiters_map (waiting s)) k)" using waiting_ack[OF inv t w] by simp
    then show "informed (f (purpose_of ep) k) c (acks_at (waiters_map wl') k) sigs"
      using tl alive[OF c] ep unfolding tells_def by metis
  qed (simp add: waiters_chans_def)
  show ?thesis
    using msg ack by (cases t) simp_all
qed

lemma effect_abs_tasks:
  assumes "relay_inv ops invar view s" and "effect cl new P K X (waiting s) wl' sigs"
    and "new = {#} \<or> new = {#next_chan s#}"
    and "tells (gone s) f (waiters_map (waiting s)) (waiters_map wl') sigs"
  shows "abs_tasks (deliver sigs (mailbox s)) (tasks s) = tell_all f (abs_tasks (mailbox s) (tasks s))"
proof
  fix r
  show "abs_tasks (deliver sigs (mailbox s)) (tasks s) r = tell_all f (abs_tasks (mailbox s) (tasks s)) r"
    using effect_abs_task[OF assms, of r] by (cases "tasks s r") (simp_all add: abs_tasks_def tell_all_def)
qed

text \<open>A new request that is registered has not been told anything.\<close>

lemma registered_unheard:
  assumes inv: "relay_inv ops invar view s" and eff: "effect cl new P K X (waiting s) wl' sigs"
    and new: "new = {#} \<or> new = {#next_chan s#}"
    and at: "next_chan s \<in> set (waiters_chans (waiters_at (waiters_map wl') k))"
  shows "deliver sigs (mailbox s) (next_chan s) = None"
proof -
  have ok: "channels_ok s" using inv by (simp add: relay_inv_def)
  then have d: "distinct (chans_of (waiters_map (waiting s)))" "next_chan s \<notin> set (chans_of (waiters_map (waiting s)))"
    by (auto simp: channels_ok_def)
  have "balanced (waiters_map (waiting s)) new (waiters_map wl') sigs" and g': "good wl'"
    using eff by (simp_all add: op_effect_def)
  note bd = balanced_distinct[OF this(1) d(1) new d(2)]
  have "next_chan s \<in> set (chans_of (waiters_map wl'))" using at chans_at goodD(4)[OF g'] by blast
  then have "next_chan s \<notin> signal_chan ` set sigs" using bd(3) by blast
  moreover have "mailbox s (next_chan s) = None"
    using ok unfolding channels_ok_def by (metis less_irrefl)
  ultimately show ?thesis by (simp add: deliver_other)
qed

section \<open>The first lock section of a request\<close>

lemma store_shelf:
  assumes g: "good wl" and fair: "fair_scan e" and st: "store ops e k m ttl wl = (wl', sigs, res)"
  shows "res = Inr Stored \<Longrightarrow> shelved (max_waiting_ids wl) (t_purge e) k m (t_store e + of_nat (as_millis ttl))
      (view (repository wl)) (view (repository wl'))"
    and "res = Inr StoreFull \<Longrightarrow>
      shelf_full (max_waiting_ids wl) (t_purge e) k (view (repository wl)) (view (repository wl'))"
proof -
  obtain r where ins: "repo_insert ops e (repository wl) k (body m) (msg_content_type m)
      (t_store e + of_nat (as_millis ttl)) = (r, res)" and r: "repository wl' = r"
    using st by (auto simp: store_eq split: prod.splits if_splits)
  note inv = goodD(1)[OF g]
  show "shelved (max_waiting_ids wl) (t_purge e) k m (t_store e + of_nat (as_millis ttl))
      (view (repository wl)) (view (repository wl'))" if "res = Inr Stored"
    using insert_stored[OF inv fair ins[unfolded that]] goodD(2)[OF g] r
    unfolding shelved_def by (cases "view (repository wl) k = None") auto
  show "shelf_full (max_waiting_ids wl) (t_purge e) k (view (repository wl)) (view (repository wl'))"
    if "res = Inr StoreFull"
    using insert_full[OF inv fair ins[unfolded that]] goodD(2)[OF g] r unfolding shelf_full_def by simp
qed

lemma store_answers:
  assumes g: "good wl" and rel: "reliable e" and st: "store ops e k m ttl wl = (wl', sigs, res)"
  shows "res = Inr Stored \<or> res = Inr StoreFull"
proof -
  obtain r where "repo_insert ops e (repository wl) k (body m) (msg_content_type m)
      (t_store e + of_nat (as_millis ttl)) = (r, res)"
    using st by (auto simp: store_eq split: prod.splits if_splits)
  then have "\<exists>out. res = Inr out"
    using insert_reliable[OF goodD(1)[OF g] rel] by (metis snd_conv)
  then show ?thesis by (metis insert_outcome.exhaust)
qed

lemma live_seen: "live_at t v k x = seen t v k x"
  by (simp add: live_at_def seen_def)

lemma get_or_subscribe_tells:
  "good wl \<Longrightarrow> get_or_subscribe ops e ch k wl = (wl', sigs, res) \<Longrightarrow>
   tells (closed e) silence (waiters_map wl) (waiters_map wl') extra"
  by (rule tells_kept[OF get_or_subscribe_carried])

lemma subscribe_ack_tells:
  "good wl \<Longrightarrow> subscribe_ack ops e ch k wl = (wl', sigs, res) \<Longrightarrow>
   tells (closed e) silence (waiters_map wl) (waiters_map wl') extra"
  by (rule tells_kept[OF subscribe_ack_carried])

lemma too_long_answered:
  assumes "max_id_length < length (request_id req)"
    and "begin_request lib ops cfg e0 e (next_chan s) req (waiting s) = (wl', sigs, p)"
  shows "answered view lib cfg now s req wl' sigs p"
proof -
  obtain resp where "wl' = waiting s" "p = Answer resp" "status resp = BAD_REQUEST"
    using assms by (cases req) (auto simp: inbox_defs link_defs validate_id_length_def)
  moreover have "256 < length (request_id req)" using assms(1) by (simp add: max_id_length_def)
  ultimately show ?thesis by (auto intro!: answered_same serves.too_long)
qed

lemma inbox_post_answered:
  assumes g: "good (waiting s)" and adm: "admissible True s now e" and len: "length k \<le> max_id_length"
    and br: "inbox_post lib ops cfg e k h b (waiting s) = (wl', sigs, resp)"
  shows "answered view lib cfg now s (InboxPost k h b) wl' sigs (Answer resp)"
proof -
  let ?m = "\<lparr>body = b, msg_content_type = request_content_type lib h\<rparr>"
  note ad = admissibleD[OF adm]
  obtain res where st: "store ops e k ?m (inbox_cache_ttl cfg) (waiting s) = (wl', sigs, res)"
    and resp: "resp = (case res of Inr Stored \<Rightarrow> into_response lib STATUS_OK []
      | Inr StoreFull \<Rightarrow> into_response lib SERVICE_UNAVAILABLE (text_bytes ''Server at capacity'')
      | Inl err \<Rightarrow> into_response lib INTERNAL_SERVER_ERROR (text_bytes ''Failed to store message''))"
    using br len by (auto simp: inbox_post_def validate_id_length_def split: prod.splits)
  note mx = store_step(3)[OF g ad(1) st]
  from store_answers[OF g ad(2)[OF TrueI] st] show ?thesis
  proof
    assume ok: "res = Inr Stored"
    with resp have resp: "resp = plain lib STATUS_OK ''''" by (simp add: plain_def)
    show ?thesis
      by (rule answeredI[OF serves.posted[OF ad(5,4) refl store_shelf(1)[OF g ad(1) st ok]] store_tells[OF st] _ mx])
        (simp_all add: ok resp)
  next
    assume full: "res = Inr StoreFull"
    with resp have resp: "resp = plain lib SERVICE_UNAVAILABLE ''Server at capacity''" by (simp add: plain_def)
    have "InboxPost k h b \<in> {InboxPost k h b, LinkPost k h b}" by simp
    from serves.full[OF this ad(5) store_shelf(2)[OF g ad(1) st full]] show ?thesis
      by (rule answeredI[OF _ _ _ mx]) (simp_all add: resp store_full(2)[OF g ad(1) st[unfolded full]])
  qed
qed

text \<open>The look-up of both GET handlers.\<close>

lemma get_waits_tells:
  assumes inv: "relay_inv ops invar view s" and adm: "admissible True s now e"
    and gs: "get_or_subscribe ops e (next_chan s) k (waiting s) = (wl', sigs, res)"
  shows "tells (gone s) silence (waiters_map (waiting s)) (waiters_map wl') sigs"
    and "view (repository wl') = view (repository (waiting s))" "max_waiting_ids wl' = max_waiting_ids (waiting s)"
    and "res = Inr (Waiting c) \<Longrightarrow> deliver sigs (mailbox s) (next_chan s) = None"
    and "res = Inr (Waiting c) \<Longrightarrow> \<nexists>x. seen (t_check e) (view (repository (waiting s))) k x \<and> \<not> acked x"
proof -
  have g: "good (waiting s)" using inv by (simp add: relay_inv_def)
  note ad = admissibleD[OF adm] and st = get_or_subscribe_step[OF g gs]
  show "tells (gone s) silence (waiters_map (waiting s)) (waiters_map wl') sigs"
    using get_or_subscribe_tells[OF g gs, of sigs] ad(3) by simp
  show "view (repository wl') = view (repository (waiting s))" "max_waiting_ids wl' = max_waiting_ids (waiting s)"
    using st by simp_all
  assume res: "res = Inr (Waiting c)"
  obtain new where "new = {#} \<or> new = {#next_chan s#}" and "effect (closed e) new {} {} {} (waiting s) wl' sigs"
    using get_or_subscribe_effect[OF g gs] by blast
  moreover have "next_chan s \<in> set (waiters_chans (waiters_at (waiters_map wl') k))"
    using get_or_subscribe_registered[OF g gs[unfolded res]] by (simp add: waiters_chans_def)
  ultimately show "deliver sigs (mailbox s) (next_chan s) = None" using registered_unheard[OF inv] by blast
  show "\<nexists>x. seen (t_check e) (view (repository (waiting s))) k x \<and> \<not> acked x"
    using g gs by (cases rule: get_or_subscribe_cases) (use ad(2) res in \<open>auto simp: live_seen\<close>)
qed

lemma inbox_get_answered:
  assumes inv: "relay_inv ops invar view s" and adm: "admissible True s now e" and len: "length k \<le> max_id_length"
    and br: "inbox_get lib ops e (next_chan s) k (waiting s) = (wl', sigs, out)"
  shows "answered view lib cfg now s (InboxGet k) wl' sigs (progress_of (InboxGetTask k) out)"
proof -
  have g: "good (waiting s)" using inv by (simp add: relay_inv_def)
  note now = admissibleD(6)[OF adm]
  show ?thesis
    using g len br
  proof (cases rule: inbox_get_cases)
    case (found x b)
    show ?thesis
      unfolding found(2)
      by (rule answered_same, rule serves.got[OF now found(4)[unfolded live_seen] found(5)], simp add: found(1))
  next
    case waits
    note w = get_waits_tells[OF inv adm waits(2)]
    show ?thesis
      by (rule answeredI[OF _ w(1) _ w(3)], unfold w(2), rule serves.get_waits[OF now w(5)[OF refl]])
        (simp add: waits(1) w(4)[OF refl])
  next
    case limit
    note w = get_waits_tells[OF inv adm limit(2)]
    have "InboxGet k \<in> {InboxGet k, InboxAwait k, LinkGet k, LinkPost k undefined undefined}" by simp
    then show ?thesis
      by (intro answeredI[OF _ w(1) _ w(3)], unfold w(2)) (rule serves.busy, assumption, simp add: limit(1) plain_def)
  qed
qed

lemma link_get_answered:
  assumes inv: "relay_inv ops invar view s" and adm: "admissible True s now e" and len: "length k \<le> max_id_length"
    and br: "link_get lib ops e (next_chan s) k (waiting s) = (wl', sigs, out)"
  shows "answered view lib cfg now s (LinkGet k) wl' sigs (link_progress k out)"
proof -
  have g: "good (waiting s)" using inv by (simp add: relay_inv_def)
  note now = admissibleD(6)[OF adm]
  show ?thesis
    using g len br
  proof (cases rule: link_get_cases)
    case (found x b)
    show ?thesis
      unfolding found(2)
      by (rule answered_same, rule serves.link_got[OF now found(4)[unfolded live_seen] found(5)], simp add: found(1))
  next
    case waits
    note w = get_waits_tells[OF inv adm waits(2)]
    show ?thesis
      by (rule answeredI[OF _ w(1) _ w(3)], unfold w(2), rule serves.link_waits[OF now w(5)[OF refl]])
        (simp add: waits(1) w(4)[OF refl])
  next
    case limit
    note w = get_waits_tells[OF inv adm limit(2)]
    have "LinkGet k \<in> {InboxGet k, InboxAwait k, LinkGet k, LinkPost k undefined undefined}" by simp
    then show ?thesis
      by (intro answeredI[OF _ w(1) _ w(3)], unfold w(2)) (rule serves.busy, assumption, simp add: limit(1) plain_def)
  qed
qed

lemma inbox_delete_answered:
  assumes g: "good (waiting s)" and adm: "admissible True s now e" and len: "length k \<le> max_id_length"
    and br: "inbox_delete lib ops e k (waiting s) = (wl', sigs, resp)"
  shows "answered view lib cfg now s (InboxDelete k) wl' sigs (Answer resp)"
proof -
  note now = admissibleD(6)[OF adm] and rel = admissibleD(2)[OF adm TrueI]
  obtain ok where ak: "ack ops e k (waiting s) = (wl', sigs, ok)"
    and resp: "resp = (if ok then plain lib STATUS_OK '''' else plain lib NOT_FOUND ''Not found'')"
    using br len by (auto simp: inbox_delete_def validate_id_length_def plain_def split: prod.splits)
  show ?thesis
    using g ak
  proof (cases rule: ack_cases)
    case refused
    have "InboxDelete k \<in> {InboxDelete k, InboxAck k, InboxAwait k}" by simp
    from serves.missing[OF this now refused(4)[OF rel, unfolded live_seen]] show ?thesis
      unfolding refused(2) by (rule answered_same) (simp add: resp refused(1))
  next
    case (failed r)
    with rel show ?thesis by simp
  next
    case (again x)
    show ?thesis
      unfolding again(2)
      by (rule answered_same, rule serves.deleted_again[OF now again(4)[unfolded live_seen] again(5)])
        (simp add: resp again(1))
  next
    case (acked x r)
    have v: "view (repository wl') = (view (repository (waiting s)))(k \<mapsto> acked_entry x)"
      using ack_done(1)[OF g ak[unfolded acked(1)]] acked(2) by (auto simp: live_at_def)
    have mx: "max_waiting_ids wl' = max_waiting_ids (waiting s)" using ack_step[OF g ak] by blast
    show ?thesis
      by (rule answeredI[OF _ ack_tells[OF g acked(4)] _ mx], unfold v,
          rule serves.deleted[OF now acked(2)[unfolded live_seen] acked(3)])
        (simp add: resp acked(1))
  qed
qed

lemma inbox_ack_answered:
  assumes g: "good (waiting s)" and adm: "admissible True s now e" and len: "length k \<le> max_id_length"
  shows "answered view lib cfg now s (InboxAck k) (waiting s) [] (Answer (inbox_ack lib ops e k (waiting s)))"
proof (cases "\<exists>x. seen (t_check e) (view (repository (waiting s))) k x")
  note now = admissibleD(6)[OF adm] and eq = is_acked_eq[OF g admissibleD(2)[OF adm TrueI], of k]
  case True
  then obtain x where x: "seen (t_check e) (view (repository (waiting s))) k x" by blast
  then have a: "inbox_ack lib ops e k (waiting s) = plain lib STATUS_OK (if acked x then ''true'' else ''false'')"
    using len eq by (simp add: inbox_ack_def validate_id_length_def seen_def plain_def)
  show ?thesis by (rule answered_same, rule serves.ack_status[OF now x], simp add: a)
next
  note now = admissibleD(6)[OF adm] and eq = is_acked_eq[OF g admissibleD(2)[OF adm TrueI], of k]
  case False
  then have n: "\<nexists>x. seen (t_check e) (view (repository (waiting s))) k x" by blast
  from False have a: "inbox_ack lib ops e k (waiting s) = plain lib NOT_FOUND ''Not found''"
    using len eq by (auto simp: inbox_ack_def validate_id_length_def seen_def plain_def split: option.splits)
  show ?thesis by (rule answered_same, rule serves.missing[OF _ now n]) (simp_all add: a)
qed

lemma inbox_await_answered:
  assumes inv: "relay_inv ops invar view s" and adm0: "admissible True s now e0" and adm: "admissible True s now e"
    and len: "length k \<le> max_id_length"
    and br: "inbox_await lib ops e0 e (next_chan s) k (waiting s) = (wl', sigs, out)"
  shows "answered view lib cfg now s (InboxAwait k) wl' sigs (progress_of (InboxAwaitTask k) out)"
proof (cases "is_acked ops e0 k (waiting s) = Some True")
  have g: "good (waiting s)" using inv by (simp add: relay_inv_def)
  case True
  then obtain x where x: "seen (t_check e0) (view (repository (waiting s))) k x" "acked x"
    using is_acked_eq[OF g admissibleD(2)[OF adm0 TrueI], of k]
    by (auto simp: seen_def split: option.splits if_splits)
  have "wl' = waiting s" "out = Responded (plain lib STATUS_OK '''')"
    using br len True by (auto simp: inbox_await_def validate_id_length_def plain_def)
  then show ?thesis
    by (auto intro!: answered_same serves.awaited[OF admissibleD(6)[OF adm0] x])
next
  have g: "good (waiting s)" using inv by (simp add: relay_inv_def)
  note now = admissibleD(6)[OF adm] and rel = admissibleD(2)[OF adm TrueI]
  case False
  obtain res where sa: "subscribe_ack ops e (next_chan s) k (waiting s) = (wl', sigs, res)"
    and out: "out = (case res of Inr rx \<Rightarrow> Waits rx | Inl NotFound \<Rightarrow> Responded (plain lib NOT_FOUND ''Not found'')
      | Inl WaiterLimitReached \<Rightarrow> Responded (plain lib SERVICE_UNAVAILABLE ''Too many concurrent requests''))"
    using br len False by (auto simp: inbox_await_def validate_id_length_def plain_def
        split: prod.splits sum.splits subscribe_error.splits)
  have st: "repository wl' = repository (waiting s)" "max_waiting_ids wl' = max_waiting_ids (waiting s)"
    using subscribe_ack_step[OF g sa] by simp_all
  have tl: "tells (gone s) silence (waiters_map (waiting s)) (waiters_map wl') sigs"
    using subscribe_ack_tells[OF g sa, of sigs] admissibleD(3)[OF adm] by simp
  have busy: ?thesis if "res = Inl WaiterLimitReached"
    by (rule answeredI[OF _ tl _ st(2)], unfold st(1), rule serves.busy[of _ k "\<lambda>_. []" "[]"])
      (simp_all add: out that)
  show ?thesis
    using g sa
  proof (cases rule: subscribe_ack_cases)
    case missing
    show ?thesis
      unfolding missing(2)
      by (rule answered_same, rule serves.missing[OF _ now missing(4)[OF rel, unfolded live_seen]])
        (simp_all add: out missing(1))
  next
    case (done_already x)
    have d: "deliver sigs (mailbox s) (next_chan s) = Some (SentAck (next_chan s))"
      using done_already(3) by (simp add: deliver_def)
    show ?thesis
      unfolding done_already(2)
      by (rule answered_same, rule serves.await_told[OF now done_already(4)[unfolded live_seen] done_already(5)])
        (simp add: out done_already(1) d)
  next
    case no_room
    then show ?thesis using busy by simp
  next
    case (added x wl1 s1 s2 w w' ok)
    show ?thesis
    proof (cases ok)
      case True
      with added(5) have res: "res = Inr (next_chan s)" by simp
      have "effect (closed e) {#next_chan s#} {} {} {} (waiting s) wl' sigs"
        using subscribe_ack_effect[OF g sa] res by simp
      moreover have "next_chan s \<in> set (waiters_chans (waiters_at (waiters_map wl') k))"
        using subscribe_ack_registered[OF g sa[unfolded res]] added(6,7)
        by (auto simp: waiters_chans_def live_at_def)
      ultimately have d: "deliver sigs (mailbox s) (next_chan s) = None" using registered_unheard[OF inv] by blast
      show ?thesis
        by (rule answeredI[OF _ tl _ st(2)], unfold st(1),
            rule serves.await_waits[OF now added(6)[unfolded live_seen] added(7)]) (simp add: out res d)
    next
      case False
      with added(5) busy show ?thesis by simp
    qed
  qed
qed

lemma link_post_answered:
  assumes inv: "relay_inv ops invar view s" and adm: "admissible True s now e" and len: "length k \<le> max_id_length"
    and br: "link_post lib ops cfg e (next_chan s) k h b (waiting s) = (wl', sigs, out)"
  shows "answered view lib cfg now s (LinkPost k h b) wl' sigs (progress_of (LinkPostTask k) out)"
proof -
  let ?m = "\<lparr>body = b, msg_content_type = request_content_type lib h\<rparr>"
  have g: "good (waiting s)" using inv by (simp add: relay_inv_def)
  note ad = admissibleD[OF adm] and rel = admissibleD(2)[OF adm TrueI]
  obtain res where sas: "store_and_subscribe_ack ops e (next_chan s) k ?m (link_timeout cfg) (waiting s) = (wl', sigs, res)"
    and out: "out = (case res of Inr rx \<Rightarrow> Waits rx
      | Inl SasWaiterLimitReached \<Rightarrow> Responded (plain lib SERVICE_UNAVAILABLE ''Too many concurrent requests'')
      | Inl SasStoreFull \<Rightarrow> Responded (plain lib SERVICE_UNAVAILABLE ''Server at capacity'')
      | Inl SasNotFound \<Rightarrow> Responded (plain lib NOT_FOUND ''Entry expired'')
      | Inl (SasStorage err) \<Rightarrow> Responded (plain lib INTERNAL_SERVER_ERROR ''Failed to store message''))"
    unfolding plain_def using br len by (auto simp: link_post_def validate_id_length_def split: prod.splits)
  note mx = sas_step[OF g ad(1) sas, THEN conjunct2, THEN conjunct2, THEN conjunct1]
  show ?thesis
    using g ad(1) sas
  proof (cases rule: sas_cases)
    case no_room
    have tl: "tells (gone s) silence (waiters_map (waiting s)) (waiters_map wl') sigs"
      using ensure_tells[OF no_room(1) goodD(3)[OF g]] ad(3) by simp
    have rep: "repository wl' = repository (waiting s)" using ensure_good[OF g no_room(1)] by blast
    show ?thesis
      by (rule answeredI[OF _ tl _ mx], unfold rep, rule serves.busy[of _ k h b]) (simp_all add: out no_room(2))
  next
    case (stored wl1 s1 wl2 s2 s3 sres)
    note ens = ensure_good[OF g stored(1)]
    have rep1: "repository wl1 = repository (waiting s)" and mx1: "max_waiting_ids wl1 = max_waiting_ids (waiting s)"
      using ens by blast+
    have rep2: "repository wl' = repository wl2" using subscribe_ack_step[OF stored(6,3)] by blast
    note sh = store_shelf(1)[OF stored(5) ad(1) stored(2) refl, unfolded rep1 mx1]
    have tl: "tells (gone s) (published k ?m) (waiters_map (waiting s)) (waiters_map wl') sigs"
      using tells_after[OF ensure_tells[OF stored(1) goodD(3)[OF g]]
          tells_before[OF store_tells[OF stored(2)] subscribe_ack_tells[OF stored(6,3), of s3]], of s1]
        stored(4) ad(3) by simp
    from stored(7) show ?thesis
    proof (elim disjE conjE)
      assume r: "sres = Inr (next_chan s)" "res = Inr (next_chan s)"
      have "effect (closed e) {#next_chan s#} {(k, ?m)} {} {} (waiting s) wl' sigs"
        using sas_effect[OF g ad(1) sas] r(2) by simp
      moreover have "next_chan s \<in> set (waiters_chans (waiters_at (waiters_map wl') k))"
        using sas_registered[OF g ad(1) sas[unfolded r(2)]] by (simp add: waiters_chans_def)
      ultimately have d: "deliver sigs (mailbox s) (next_chan s) = None" using registered_unheard[OF inv] by blast
      show ?thesis
        by (rule answeredI[OF _ tl _ mx], unfold rep2, rule serves.link_posted[OF ad(5,4) refl sh])
          (simp add: out r(2) d)
    next
      assume r: "sres = Inl NotFound" "res = Inl SasNotFound"
      have "\<nexists>x. seen (t_check e) (view (repository wl2)) k x"
        using stored(6,3) by (cases rule: subscribe_ack_cases) (use r rel in \<open>auto simp: live_seen split: if_splits\<close>)
      then have "is_expired (t_check e) (t_store e + of_nat (as_millis (link_timeout cfg)))"
        using store_stored(1)[OF stored(5) ad(1) stored(2)] by (simp add: seen_def)
      then have ex: "is_expired now (t_store e + of_nat (as_millis (link_timeout cfg)))"
        using ad(6) by (auto simp: is_expired_def)
      show ?thesis
        by (rule answeredI[OF _ tl _ mx], unfold rep2, rule serves.link_lapsed[OF ad(5,4) refl sh ex])
          (simp add: out r(2))
    qed
  next
    case (failed wl1 s1 s2 sres)
    note ens = ensure_good[OF g failed(1)]
    have rep1: "repository wl1 = repository (waiting s)" and mx1: "max_waiting_ids wl1 = max_waiting_ids (waiting s)"
      using ens by blast+
    have full: "sres = Inr StoreFull" "res = Inl SasStoreFull"
      using failed(5) store_answers[OF failed(4) rel failed(2)] by auto
    note sh = store_shelf(2)[OF failed(4) ad(1) failed(2) full(1), unfolded rep1 mx1]
    have same: "waiters_map wl' = waiters_map wl1" by (rule store_full(2)[OF failed(4) ad(1) failed(2)[unfolded full(1)]])
    have tl: "tells (gone s) silence (waiters_map (waiting s)) (waiters_map wl') sigs"
      unfolding same using ensure_tells[OF failed(1) goodD(3)[OF g]] ad(3) by simp
    show ?thesis
      by (rule answeredI[OF _ tl _ mx], rule serves.full[of _ k h b, OF _ ad(5) sh]) (simp_all add: out full(2))
  qed
qed

lemma begin_answered:
  assumes inv: "relay_inv ops invar view s" and adm0: "admissible True s now e0" and adm: "admissible True s now e"
    and br: "begin_request lib ops cfg e0 e (next_chan s) req (waiting s) = (wl', sigs, p)"
  shows "answered view lib cfg now s req wl' sigs p"
proof (cases "length (request_id req) \<le> max_id_length")
  case False
  then show ?thesis using too_long_answered[OF _ br] by simp
next
  case True
  have g: "good (waiting s)" using inv by (simp add: relay_inv_def)
  show ?thesis
    using br True inbox_post_answered[OF g adm] inbox_get_answered[OF inv adm] inbox_delete_answered[OF g adm]
      inbox_ack_answered[OF g adm] inbox_await_answered[OF inv adm0 adm] link_get_answered[OF inv adm]
      link_post_answered[OF inv adm]
    by (cases req) (auto split: prod.splits)
qed

section \<open>Simulation\<close>

lemma resume_reacts:
  assumes "task_chan t = Some c" and "mb c = Some sig" and "resume_task lib t (Some sig) = Some p"
  shows "\<exists>a. react lib (abs_task mb t) = Some a \<and> abs_progress mb p = Some a"
  using assms
  by (cases t; cases sig) (auto simp: inbox_get_resume_def inbox_await_resume_def link_get_resume_def
      link_post_resume_def plain_def)

lemma timeout_lapses:
  assumes "task_chan t = Some c" and "mb c = None" and "resume_task lib t None = Some p"
  shows "\<exists>ep k. abs_task mb t = Pending ep k \<and> p = Answer (late lib ep)"
  using assms
  by (cases t) (auto simp: inbox_get_resume_def inbox_await_resume_def link_get_resume_def
      link_post_resume_def plain_def)

lemma abs_progress_matches:
  "abs_progress mb p = Some a \<Longrightarrow> (case a of Reply resp \<Rightarrow> p = Answer resp | Stay _ \<Rightarrow> \<exists>t. p = Continue t)"
  by (cases p) auto

lemma begins_refines:
  assumes inv: "relay_inv ops invar view s" and free: "tasks s r = None"
    and adm0: "admissible True s now e0" and adm: "admissible True s now e" and later: "sint (clock s) \<le> sint now"
    and br: "begin_request lib ops cfg e0 e (next_chan s) req (waiting s) = (wl', sigs, p)"
    and s': "s' = s\<lparr>waiting := wl', mailbox := deliver sigs (mailbox s), tasks := finish r p (tasks s),
         next_chan := Suc (next_chan s), clock := now, posted := posted s \<union> posts lib req,
         ack_requests := ack_requests s \<union> acks_of req\<rparr>"
  shows "\<exists>sev. spec_step lib cfg (abs_relay view s) sev (abs_relay view s') \<and> matches (Began r req p) sev"
proof -
  have g: "good (waiting s)" using inv by (simp add: relay_inv_def)
  note ad = admissibleD[OF adm]
  obtain f a where sv: "serves lib cfg (max_waiting_ids (waiting s)) now req
      (view (repository (waiting s))) f (view (repository wl')) a"
    and tl: "tells (gone s) f (waiters_map (waiting s)) (waiters_map wl') sigs"
    and p: "abs_progress (deliver sigs (mailbox s)) p = Some a"
    and mx: "max_waiting_ids wl' = max_waiting_ids (waiting s)"
    using begin_answered[OF inv adm0 adm br] unfolding answered_def by blast
  obtain new where new: "new = {#} \<or> new = {#next_chan s#}"
    and eff: "effect (closed e) new (posts lib req) (acks_of req) {} (waiting s) wl' sigs"
    using begin_effect[OF g ad(1) br] by blast
  have "abs_relay view s' = (abs_relay view s)\<lparr>shelf := view (repository wl'),
      waits := settle r a (tell_all f (waits (abs_relay view s))), spec_clock := now\<rparr>"
    using finish_abs[OF p] effect_abs_tasks[OF inv eff new tl] mx by (simp add: s' abs_relay_def)
  moreover have "waits (abs_relay view s) r = None" using free by (simp add: abs_tasks_def)
  ultimately have "spec_step lib cfg (abs_relay view s) (Asked r req a) (abs_relay view s')"
    using spec_step.asked[of "abs_relay view s" r now lib cfg req f "view (repository wl')" a] sv later by simp
  then show ?thesis using abs_progress_matches[OF p] by (intro exI conjI) auto
qed

lemma link_acks_refines:
  assumes inv: "relay_inv ops invar view s" and t: "tasks s r = Some (LinkAckTask k m)"
    and adm: "admissible True s now e" and later: "sint (clock s) \<le> sint now"
    and lg: "link_get_ack lib ops e k m (waiting s) = (wl', sigs, resp)"
    and s': "s' = s\<lparr>waiting := wl', mailbox := deliver sigs (mailbox s), tasks := (tasks s)(r := None),
         clock := now, ack_requests := insert k (ack_requests s)\<rparr>"
  shows "\<exists>sev. spec_step lib cfg (abs_relay view s) sev (abs_relay view s') \<and> matches (LinkAcked r k m resp) sev"
proof -
  have g: "good (waiting s)" using inv by (simp add: relay_inv_def)
  note ad = admissibleD[OF adm] and rel = admissibleD(2)[OF adm TrueI]
  obtain ok where ak: "ack ops e k (waiting s) = (wl', sigs, ok)"
    and resp: "resp = deprecated (message_response lib m)"
    using lg by (auto simp: link_get_ack_def split: prod.splits)
  have mx: "max_waiting_ids wl' = max_waiting_ids (waiting s)" using ack_step[OF g ak] by blast
  let ?v = "view (repository (waiting s))"
  obtain f where tl: "tells (gone s) f (waiters_map (waiting s)) (waiters_map wl') sigs"
    and f: "if \<exists>x. seen (t_check e) ?v k x \<and> \<not> acked x
      then f = acknowledged k \<and> view (repository wl') = ?v(k \<mapsto> acked_entry (the (?v k)))
      else f = silence \<and> view (repository wl') = ?v"
    using g ak
  proof (cases rule: ack_cases)
    case (acked x u)
    have "view (repository wl') = ?v(k \<mapsto> acked_entry x)"
      using ack_done(1)[OF g ak[unfolded acked(1)]] acked(2) by (auto simp: live_at_def)
    with ack_tells[OF g acked(4)] acked(2,3) that[of "acknowledged k"] show thesis
      by (fastforce simp: seen_def live_at_def)
  next
    case (again x)
    with that[of silence] show thesis by (auto simp: seen_def live_at_def)
  qed (use rel that[of silence] in \<open>auto simp: live_seen\<close>)
  have "waits (abs_relay view s) r = Some (Acking k m)" using t by (simp add: abs_tasks_def)
  from spec_step.handed[OF this _ ad(6), of f "view (repository wl')" lib cfg] f later
  have "spec_step lib cfg (abs_relay view s) (Handed r resp) ((abs_relay view s)\<lparr>shelf := view (repository wl'),
      waits := (tell_all f (waits (abs_relay view s)))(r := None), spec_clock := now\<rparr>)"
    by (simp add: resp)
  moreover have "abs_relay view s' = (abs_relay view s)\<lparr>shelf := view (repository wl'),
      waits := (tell_all f (waits (abs_relay view s)))(r := None), spec_clock := now\<rparr>"
    using effect_abs_tasks[OF inv ack_effect[OF g ak, of "gone s"] _ tl] mx
    by (simp add: s' abs_relay_def finish_abs_None)
  ultimately show ?thesis by (intro exI[of _ "Handed r resp"]) simp
qed

lemma cleans_up_refines:
  assumes inv: "relay_inv ops invar view s" and adm: "admissible True s now e" and later: "sint (clock s) \<le> sint now"
    and cl: "cleanup_expired ops e (waiting s) = (wl', sigs, n)"
    and s': "s' = s\<lparr>waiting := wl', mailbox := deliver sigs (mailbox s), clock := now, expired_ids := X'\<rparr>"
  shows "\<exists>sev. spec_step lib cfg (abs_relay view s) sev (abs_relay view s') \<and> matches (CleanedUp n) sev"
proof -
  have g: "good (waiting s)" using inv by (simp add: relay_inv_def)
  note ad = admissibleD[OF adm] and rel = admissibleD(2)[OF adm TrueI]
  define X where "X = {k. \<exists>x. view (repository (waiting s)) k = Some x \<and> expired_before (t_purge e) (expires_at x)}"
  note ct = cleanup_tells[OF g ad(1) rel cl X_def]
  have tl: "tells (gone s) (withdrawn X) (waiters_map (waiting s)) (waiters_map wl') sigs"
    using ct ad(3) by simp
  have "spec_step lib cfg (abs_relay view s) (Swept (card X)) ((abs_relay view s)\<lparr>shelf := shelf (abs_relay view s) |` (- X),
      waits := tell_all (withdrawn X) (waits (abs_relay view s)), spec_clock := now\<rparr>)"
    by (rule spec_step.swept[OF _ ad(5)]) (use later in \<open>simp_all add: X_def\<close>)
  moreover have "abs_relay view s' = (abs_relay view s)\<lparr>shelf := shelf (abs_relay view s) |` (- X),
      waits := tell_all (withdrawn X) (waits (abs_relay view s)), spec_clock := now\<rparr>"
    using effect_abs_tasks[OF inv cleanup_effect[OF g ad(1) cl] _ tl] ct
    by (simp add: s' abs_relay_def)
  ultimately show ?thesis using ct by (intro exI[of _ "Swept n"]) simp
qed

lemma step_refines:
  assumes inv: "relay_inv ops invar view s" and st: "step lib ops cfg view True s ev s'"
  shows "\<exists>sev. spec_step lib cfg (abs_relay view s) sev (abs_relay view s') \<and> matches ev sev"
  using st
proof (cases rule: step.cases)
  case (begins r now e0 e req wl' sigs p)
  from begins_refines[OF inv begins(3-7,2)] show ?thesis by (simp only: begins(1))
next
  case (resumes r t c sig p)
  obtain a where a: "react lib (abs_task (mailbox s) t) = Some a" "abs_progress (mailbox s) p = Some a"
    using resume_reacts[of t c "mailbox s" sig lib p] resumes(4,5,6) by blast
  have "waits (abs_relay view s) r = Some (abs_task (mailbox s) t)" using resumes(3) by (simp add: abs_tasks_def)
  from spec_step.woken[OF this a(1)] show ?thesis
    using finish_abs[OF a(2)] abs_progress_matches[OF a(2)]
    by (intro exI[of _ "Woken r a"]) (auto simp: resumes(1,2) abs_relay_def)
next
  case (times_out r t c p)
  obtain ep k where ep: "abs_task (mailbox s) t = Pending ep k" "p = Answer (late lib ep)"
    using timeout_lapses[of t c "mailbox s" lib p] times_out(4,5,6) by blast
  have "waits (abs_relay view s) r = Some (Pending ep k)" using times_out(3) ep by (simp add: abs_tasks_def)
  from spec_step.lapsed[OF this] show ?thesis
    by (intro exI[of _ "Lapsed r (late lib ep)"]) (simp add: times_out(1,2) ep(2) abs_relay_def finish_abs_None)
next
  case (link_acks r k m now e wl' sigs resp)
  from link_acks_refines[OF inv link_acks(3-6,2)] show ?thesis by (simp only: link_acks(1))
next
  case (disconnects r t)
  have "waits (abs_relay view s) r = Some (abs_task (mailbox s) t)" using disconnects(3) by (simp add: abs_tasks_def)
  from spec_step.left[OF this] show ?thesis
    by (intro exI[of _ "Left r"]) (simp add: disconnects(1,2) abs_relay_def finish_abs_None)
next
  case (cleans_up now e wl' sigs n)
  from cleans_up_refines[OF inv cleans_up(3-5,2)] show ?thesis by (simp only: cleans_up(1))
next
  case (ticks now)
  have "abs_relay view s' = (abs_relay view s)\<lparr>spec_clock := now\<rparr>" by (simp add: ticks(2) abs_relay_def)
  then show ?thesis
    using spec_step.passed[of "abs_relay view s" now lib cfg] ticks(3)
    by (intro exI[of _ Passed]) (simp add: ticks(1))
qed

end

section \<open>Both back ends\<close>

interpretation sqlite_sim: forward_simulation "step lib sqlite_ops cfg sqlite_view True" "spec_step lib cfg"
    "relay_inv sqlite_ops sqlite_invar sqlite_view" "abs_relay sqlite_view" matches
  for lib :: http_lib and cfg :: "'net config"
  by unfold_locales (rule sqlite.step_inv, assumption+, rule sqlite.step_refines, assumption+)

interpretation memory_sim: forward_simulation "step lib memory_ops cfg memory_view True" "spec_step lib cfg"
    "relay_inv memory_ops memory_invar memory_view" "abs_relay memory_view" matches
  for lib :: http_lib and cfg :: "'net config"
  by unfold_locales (rule memory.step_inv, assumption+, rule memory.step_refines, assumption+)

end
