(* ===== verification/Test_Harness.thy ===== *)
theory Test_Harness
  imports Relay_Machine
begin

text \<open>
  The vocabulary of the repository's tests, as scripts of \<open>Relay_Machine\<close>: calls to a repository or
  to a waiting list, receivers that a test holds or drops, and assertions.  The theories \<open>Test_*\<close>
  translate the tests and prove that the model passes them; \<open>replay\<close> are the facts by which \<open>simp\<close>
  runs a test.
\<close>

named_theorems replay

text \<open>The machine at the start of a test, on some day of the year 2023.\<close>

definition lab :: "('r, 'x) repo_ops \<Rightarrow> 'r \<Rightarrow> 'r machine" where
  "lab ops r = (machine_new ops r)\<lparr>m_clock := 1700000000000\<rparr>"

definition now_millis :: "('r, i64) script" where
  "now_millis = State (\<lambda>m. (m_clock m, m))"

section \<open>Calls to a repository\<close>

definition on_repo :: "('x env \<Rightarrow> 'r \<Rightarrow> 'r \<times> 'a) \<Rightarrow> ('r, 'a) script" where
  "on_repo f = State (\<lambda>m. let (r, a) = f (m_env m) (repository (m_waiting m))
     in (a, m\<lparr>m_waiting := (m_waiting m)\<lparr>repository := r\<rparr>\<rparr>))"

definition r_insert ::
    "('r, 'x) repo_ops \<Rightarrow> string \<Rightarrow> string \<Rightarrow> string option \<Rightarrow> i64 \<Rightarrow> ('r, anyhow + insert_outcome) script" where
  "r_insert ops k b ct x = on_repo (\<lambda>e r. repo_insert ops e r k (text_bytes b) ct x)"

definition r_get :: "('r, 'x) repo_ops \<Rightarrow> string \<Rightarrow> ('r, anyhow + stored_entry option) script" where
  "r_get ops k = on_repo (\<lambda>e r. (r, repo_get ops e r k))"

definition r_ack :: "('r, 'x) repo_ops \<Rightarrow> string \<Rightarrow> ('r, anyhow + bool) script" where
  "r_ack ops k = on_repo (\<lambda>e r. repo_ack ops e r k)"

definition r_delete :: "('r, 'x) repo_ops \<Rightarrow> string \<Rightarrow> ('r, anyhow + bool) script" where
  "r_delete ops k = on_repo (\<lambda>e r. repo_delete ops e r k)"

definition r_cleanup :: "('r, 'x) repo_ops \<Rightarrow> ('r, anyhow + string list) script" where
  "r_cleanup ops = on_repo (\<lambda>e r. repo_cleanup ops e r)"

definition r_count :: "('r, 'x) repo_ops \<Rightarrow> ('r, anyhow + nat) script" where
  "r_count ops = on_repo (\<lambda>e r. (r, repo_count ops e r))"

section \<open>Calls to a waiting list\<close>

definition on_list :: "('x env \<Rightarrow> 'r waiting_list \<Rightarrow> 'r waiting_list \<times> signal list \<times> 'a) \<Rightarrow> ('r, 'a) script" where
  "on_list f = State (\<lambda>m. let (wl, sigs, a) = f (m_env m) (m_waiting m)
     in (a, m\<lparr>m_waiting := wl, m_mailbox := m_deliver sigs (m_mailbox m)\<rparr>))"

text \<open>A call that makes a channel: the test holds the receiver that comes back.\<close>

definition on_list_held ::
    "('a \<Rightarrow> bool) \<Rightarrow> ('x env \<Rightarrow> chan \<Rightarrow> 'r waiting_list \<Rightarrow> 'r waiting_list \<times> signal list \<times> 'a) \<Rightarrow> ('r, 'a) script" where
  "on_list_held holds f = State (\<lambda>m. let ch = m_next m; (wl, sigs, a) = f (m_env m) ch (m_waiting m)
     in (a, m\<lparr>m_waiting := wl, m_mailbox := m_deliver sigs (m_mailbox m), m_next := Suc ch,
              m_held := (if holds a then ch # m_held m else m_held m)\<rparr>))"

fun is_waiting :: "subscribe_error + get_or_subscribe_result \<Rightarrow> bool" where
  "is_waiting (Inr (Waiting _)) = True"
| "is_waiting _ = False"

fun is_ok :: "'e + 'a \<Rightarrow> bool" where
  "is_ok (Inr _) = True"
| "is_ok (Inl _) = False"

definition l_store ::
    "('r, 'x) repo_ops \<Rightarrow> string \<Rightarrow> message \<Rightarrow> duration \<Rightarrow> ('r, anyhow + insert_outcome) script" where
  "l_store ops k m ttl = on_list (\<lambda>e wl. store ops e k m ttl wl)"

definition l_ack :: "('r, 'x) repo_ops \<Rightarrow> string \<Rightarrow> ('r, bool) script" where
  "l_ack ops k = on_list (\<lambda>e wl. ack ops e k wl)"

definition l_is_acked :: "('r, 'x) repo_ops \<Rightarrow> string \<Rightarrow> ('r, bool option) script" where
  "l_is_acked ops k = on_list (\<lambda>e wl. (wl, [], is_acked ops e k wl))"

definition l_get_or_subscribe ::
    "('r, 'x) repo_ops \<Rightarrow> string \<Rightarrow> ('r, subscribe_error + get_or_subscribe_result) script" where
  "l_get_or_subscribe ops k = on_list_held is_waiting (\<lambda>e ch wl. get_or_subscribe ops e ch k wl)"

definition l_subscribe_ack :: "('r, 'x) repo_ops \<Rightarrow> string \<Rightarrow> ('r, subscribe_error + chan) script" where
  "l_subscribe_ack ops k = on_list_held is_ok (\<lambda>e ch wl. subscribe_ack ops e ch k wl)"

definition l_store_and_subscribe_ack ::
    "('r, 'x) repo_ops \<Rightarrow> string \<Rightarrow> message \<Rightarrow> duration \<Rightarrow> ('r, store_and_subscribe_error + chan) script" where
  "l_store_and_subscribe_ack ops k m ttl =
     on_list_held is_ok (\<lambda>e ch wl. store_and_subscribe_ack ops e ch k m ttl wl)"

definition l_ensure_waiter_capacity :: "string \<Rightarrow> ('r, subscribe_error + unit) script" where
  "l_ensure_waiter_capacity k = on_list (\<lambda>(e :: unit env) wl. ensure_waiter_capacity e k wl)"

definition l_cleanup_expired :: "('r, 'x) repo_ops \<Rightarrow> ('r, nat) script" where
  "l_cleanup_expired ops = on_list (\<lambda>e wl. cleanup_expired ops e wl)"

text \<open>\<open>len\<close> of the test build: the number of entries, 0 if it cannot be read.\<close>

definition l_len :: "('r, 'x) repo_ops \<Rightarrow> ('r, nat) script" where
  "l_len ops = on_list (\<lambda>e wl. (wl, [], case repo_count ops e (repository wl) of Inr n \<Rightarrow> n | Inl _ \<Rightarrow> 0))"

definition l_has_waiters :: "string \<Rightarrow> ('r, bool) script" where
  "l_has_waiters k = State (\<lambda>m. (hm_contains k (waiters_map (m_waiting m)), m))"

definition l_no_waiters :: "('r, bool) script" where
  "l_no_waiters = State (\<lambda>m. (waiters_map (m_waiting m) = [], m))"

section \<open>Receivers\<close>

definition drop_receiver :: "chan \<Rightarrow> ('r, unit) script" where
  "drop_receiver c = State (\<lambda>m. ((), m\<lparr>m_held := remove1 c (m_held m)\<rparr>))"

text \<open>What a receiver has got: \<open>None\<close> means that it would still wait.\<close>

definition received :: "chan \<Rightarrow> ('r, signal option) script" where
  "received c = State (\<lambda>m. (map_of (m_mailbox m) c, m))"

definition expect_waiting :: "subscribe_error + get_or_subscribe_result \<Rightarrow> ('r, chan) script" where
  "expect_waiting res = (case res of Inr (Waiting c) \<Rightarrow> State_Monad.return c
     | _ \<Rightarrow> State_Monad.bind fail (\<lambda>_. State_Monad.return 0))"

definition expect_ok :: "'e + chan \<Rightarrow> ('r, chan) script" where
  "expect_ok res = (case res of Inr c \<Rightarrow> State_Monad.return c
     | Inl _ \<Rightarrow> State_Monad.bind fail (\<lambda>_. State_Monad.return 0))"

text \<open>\<open>unwrap\<close>: an error is a panic of the test.\<close>

definition unwrap :: "('r, 'e + 'a) script \<Rightarrow> ('r, unit) script" where
  "unwrap script = State_Monad.bind script (\<lambda>res. assert_that (is_ok res))"

text \<open>\<open>n\<close> times the same call.\<close>

fun repeat :: "nat \<Rightarrow> ('r, 'a) script \<Rightarrow> ('r, unit) script" where
  "repeat 0 script = State_Monad.return ()"
| "repeat (Suc n) script = State_Monad.bind script (\<lambda>_. repeat n script)"

fun for_each :: "'b list \<Rightarrow> ('b \<Rightarrow> ('r, unit) script) \<Rightarrow> ('r, unit) script" where
  "for_each [] f = State_Monad.return ()"
| "for_each (x # xs) f = State_Monad.bind (f x) (\<lambda>_. for_each xs f)"

lemma repeat_numeral [replay]: "repeat (numeral n) script = State_Monad.bind script (\<lambda>_. repeat (pred_numeral n) script)"
  by (simp add: numeral_eq_Suc)

text \<open>A suite: its tests, each with the room of the repository it starts from.\<close>

definition suite_passes :: "('r, 'x) repo_ops \<Rightarrow> (nat \<Rightarrow> 'r) \<Rightarrow> (nat \<times> ('r, unit) script) list \<Rightarrow> bool" where
  "suite_passes ops fresh suite = list_all (\<lambda>(n, test). passes test (lab ops (fresh n))) suite"

lemma suite_passes_simps:
  "suite_passes ops fresh []"
  "suite_passes ops fresh ((n, test) # suite) \<longleftrightarrow> passes test (lab ops (fresh n)) \<and> suite_passes ops fresh suite"
  by (simp_all add: suite_passes_def)

section \<open>Requests\<close>

text \<open>
  A server with a configuration of its own, as \<open>create_test_server\<close> makes it; \<open>fresh n\<close> is a new
  repository with room for \<open>n\<close> entries.
\<close>

definition on_server ::
    "('r, 'x) repo_ops \<Rightarrow> (nat \<Rightarrow> 'r) \<Rightarrow> unit config \<Rightarrow> (unit config \<Rightarrow> ('r, unit) script) \<Rightarrow> bool" where
  "on_server ops fresh cfg test =
     (case app_state_new ops (\<lambda>_ n. Inr (fresh n)) cfg of
        Inl _ \<Rightarrow> False
      | Inr app \<Rightarrow> passes (test (app_config app)) ((lab ops (fresh (max_entries cfg)))\<lparr>m_waiting := pending_list app\<rparr>))"

text \<open>The requests of the tests have no headers but those that a test sets.\<close>

definition no_headers :: header_map where
  "no_headers = (\<lambda>_. [])"

definition with_content_type :: "string \<Rightarrow> header_map" where
  "with_content_type t = no_headers(''content-type'' := [text_bytes t])"

definition expect_status :: "response \<Rightarrow> nat \<Rightarrow> ('r, unit) script" where
  "expect_status resp n = assert_that (status_as_u16 (status resp) = n)"

definition expect_text :: "response \<Rightarrow> string \<Rightarrow> ('r, unit) script" where
  "expect_text resp t = assert_that (response_body resp = text_bytes t)"

definition expect_header :: "http_lib \<Rightarrow> response \<Rightarrow> string \<Rightarrow> string \<Rightarrow> ('r, unit) script" where
  "expect_header lib resp name t =
     assert_that (Option.bind (header_get name (response_headers resp)) (to_str lib) = Some t)"

text \<open>
  What the tests rely on in crate http: a text of visible ASCII characters is a header value, and
  reads back as itself.
\<close>

definition visible_ascii :: "char \<Rightarrow> bool" where
  "visible_ascii c \<longleftrightarrow> 32 \<le> (of_char c :: nat) \<and> (of_char c :: nat) < 127"

definition keeps_text :: "http_lib \<Rightarrow> bool" where
  "keeps_text lib \<longleftrightarrow> (\<forall>s. list_all visible_ascii s \<longrightarrow>
     to_str lib (text_bytes s) = Some s \<and> parse_value lib s = Some (text_bytes s))"

lemma keeps_textD:
  "keeps_text lib \<Longrightarrow> list_all visible_ascii s \<Longrightarrow> to_str lib (text_bytes s) = Some s"
  "keeps_text lib \<Longrightarrow> list_all visible_ascii s \<Longrightarrow> parse_value lib s = Some (text_bytes s)"
  by (simp_all add: keeps_text_def)

lemmas harness_defs [replay] =
  lab_def now_millis_def on_repo_def r_insert_def r_get_def r_ack_def r_delete_def r_cleanup_def r_count_def
  on_list_def on_list_held_def l_store_def l_ack_def l_is_acked_def l_get_or_subscribe_def l_subscribe_ack_def
  l_store_and_subscribe_ack_def l_ensure_waiter_capacity_def l_cleanup_expired_def l_len_def l_has_waiters_def
  l_no_waiters_def drop_receiver_def received_def expect_waiting_def expect_ok_def unwrap_def as_millis_def from_secs_def
  on_server_def app_state_new_def no_headers_def with_content_type_def expect_status_def expect_text_def expect_header_def
  visible_ascii_def header_get_def header_insert_def request_content_type_def message_response_headers

lemmas machine_defs [replay] = machine_new_def m_env_def m_deliver_def m_gone_def passes_def script_defs

lemmas memory_defs [replay] =
  memory_insert_def memory_make_room_def memory_get_def memory_ack_def memory_delete_def memory_delete_expired_def
  memory_cleanup_expired_def oldest_acked_id_def memory_new_def stored_of_entry_def memory_count_def

lemmas sqlite_defs [replay] =
  sqlite_insert_def sqlite_write_def make_room_def contains_def count_entries_def delete_expired_def sqlite_get_def
  sqlite_ack_def sqlite_delete_def sqlite_cleanup_expired_def sqlite_count_def sqlite_new_def create_schema_def
  sql_exists_def sql_upsert_def sql_delete_expired_def sql_oldest_acked_def sql_delete_acked_def
  stored_of_row_def sql_select_def sql_ack_def sql_delete_def

lemmas list_defs [replay] =
  waiting_list_new_def store_def ack_def is_acked_def subscribe_ack_def store_and_subscribe_ack_def
  get_or_subscribe_def waiters_for_def ensure_waiter_capacity_def remove_closed_waiters_def
  remove_closed_senders_def wl_notify_message_waiters_def wl_notify_ack_waiters_def notify_message_waiters_def
  notify_ack_waiters_def waiters_is_empty_def waiters_new_def add_message_waiter_def add_ack_waiter_def
  retain_open_def max_waiters_per_entry_def cleanup_expired_def drop_waiters_def full_map_prune_interval_def
  is_expired_def expired_before_def hm_contains_def Let_def

lemmas handler_defs [replay] = inbox_defs link_defs validate_id_length_def max_id_length_def config_defs

text \<open>A script runs from its first call: what comes later is not touched before its turn.\<close>

lemma bind_weak_cong: "s = t \<Longrightarrow> State_Monad.bind s f = State_Monad.bind t f"
  by (rule arg_cong)

lemma State_weak_cong: "State f = State f"
  by (rule refl)

lemmas in_turn = bind_weak_cong State_weak_cong let_weak_cong prod.case_cong_weak option.case_cong_weak
  list.case_cong_weak sum.case_cong_weak

end
