(* ===== verification/Test_Waiting_List.thy ===== *)
theory Test_Waiting_List
  imports Test_Harness
begin

text \<open>
  The unit tests of \<open>waiting_list.rs\<close>.  Each is a script over a repository interface, and the model
  passes it with both back ends; \<open>fresh\<close> is the repository that \<open>new_in_memory\<close> makes for a capacity.
  A wait for a receiver that would not end is a failed assertion here.
\<close>

definition make_message :: "string \<Rightarrow> message" where
  "make_message b = \<lparr>body = text_bytes b, msg_content_type = Some ''text/plain''\<rparr>"

abbreviation secs60 :: duration where
  "secs60 \<equiv> from_secs 60"

abbreviation millis10 :: duration where
  "millis10 \<equiv> 10 * 1000000"

abbreviation got :: "chan \<Rightarrow> string \<Rightarrow> signal option \<Rightarrow> bool" where
  "got c b s \<equiv> s = Some (SentMessage c (make_message b))"

declare make_message_def [replay]

section \<open>Clean-up\<close>

definition cleanup_expired_removes_expired_entries :: "('r, 'x) repo_ops \<Rightarrow> ('r, unit) script" where
  "cleanup_expired_removes_expired_entries ops = do {
     unwrap (l_store ops ''expires-soon'' (make_message ''a'') millis10);
     unwrap (l_store ops ''stays-alive'' (make_message ''b'') secs60);
     n \<leftarrow> l_len ops; assert_that (n = 2);
     sleep 20;
     removed \<leftarrow> l_cleanup_expired ops; assert_that (removed = 1);
     n \<leftarrow> l_len ops; assert_that (n = 1) }"

definition cleanup_expired_returns_zero_when_nothing_expired :: "('r, 'x) repo_ops \<Rightarrow> ('r, unit) script" where
  "cleanup_expired_returns_zero_when_nothing_expired ops = do {
     unwrap (l_store ops ''a'' (make_message ''a'') secs60);
     unwrap (l_store ops ''b'' (make_message ''b'') secs60);
     removed \<leftarrow> l_cleanup_expired ops; assert_that (removed = 0);
     n \<leftarrow> l_len ops; assert_that (n = 2) }"

section \<open>Overwriting\<close>

definition store_notifies_message_waiters_on_overwrite :: "('r, 'x) repo_ops \<Rightarrow> ('r, unit) script" where
  "store_notifies_message_waiters_on_overwrite ops = do {
     result \<leftarrow> l_get_or_subscribe ops ''id1''; rx \<leftarrow> expect_waiting result;
     unwrap (l_store ops ''id1'' (make_message ''overwrite'') secs60);
     s \<leftarrow> received rx; assert_that (got rx ''overwrite'' s) }"

definition store_drops_ack_waiters_on_overwrite :: "('r, 'x) repo_ops \<Rightarrow> ('r, unit) script" where
  "store_drops_ack_waiters_on_overwrite ops = do {
     unwrap (l_store ops ''id1'' (make_message ''first'') secs60);
     result \<leftarrow> l_subscribe_ack ops ''id1''; rx \<leftarrow> expect_ok result;
     unwrap (l_store ops ''id1'' (make_message ''second'') secs60);
     s \<leftarrow> received rx; assert_that (s = Some (Dropped rx)) }"

definition store_when_full_rejects_message_and_does_not_notify_waiters ::
    "('r, 'x) repo_ops \<Rightarrow> ('r, unit) script" where
  "store_when_full_rejects_message_and_does_not_notify_waiters ops = do {
     unwrap (l_store ops ''undelivered'' (make_message ''first'') secs60);
     result \<leftarrow> l_get_or_subscribe ops ''waiting''; rx \<leftarrow> expect_waiting result;
     outcome \<leftarrow> l_store ops ''waiting'' (make_message ''second'') secs60;
     assert_that (outcome = Inr StoreFull);
     s \<leftarrow> received rx; assert_that (s = None);
     b \<leftarrow> l_has_waiters ''waiting''; assert_that b }"

section \<open>Limits\<close>

definition subscribe_ack_returns_limit_error :: "('r, 'x) repo_ops \<Rightarrow> ('r, unit) script" where
  "subscribe_ack_returns_limit_error ops = do {
     unwrap (l_store ops ''id1'' (make_message ''test'') secs60);
     repeat max_waiters_per_entry (do { r \<leftarrow> l_subscribe_ack ops ''id1''; assert_that (is_ok r) });
     result \<leftarrow> l_subscribe_ack ops ''id1''; assert_that (result = Inl WaiterLimitReached) }"

definition get_or_subscribe_returns_limit_error :: "('r, 'x) repo_ops \<Rightarrow> ('r, unit) script" where
  "get_or_subscribe_returns_limit_error ops = do {
     repeat max_waiters_per_entry (do { r \<leftarrow> l_get_or_subscribe ops ''id1''; assert_that (is_ok r) });
     result \<leftarrow> l_get_or_subscribe ops ''id1''; assert_that (result = Inl WaiterLimitReached) }"

definition closed_message_waiters_do_not_count_toward_limit :: "('r, 'x) repo_ops \<Rightarrow> ('r, unit) script" where
  "closed_message_waiters_do_not_count_toward_limit ops = do {
     repeat max_waiters_per_entry
       (do { r \<leftarrow> l_get_or_subscribe ops ''id1''; c \<leftarrow> expect_waiting r; drop_receiver c });
     result \<leftarrow> l_get_or_subscribe ops ''id1''; assert_that (is_ok result) }"

definition closed_ack_waiters_do_not_count_toward_limit :: "('r, 'x) repo_ops \<Rightarrow> ('r, unit) script" where
  "closed_ack_waiters_do_not_count_toward_limit ops = do {
     unwrap (l_store ops ''id1'' (make_message ''test'') secs60);
     repeat max_waiters_per_entry
       (do { r \<leftarrow> l_subscribe_ack ops ''id1''; c \<leftarrow> expect_ok r; drop_receiver c });
     result \<leftarrow> l_subscribe_ack ops ''id1''; assert_that (is_ok result) }"

definition new_id_beyond_waiting_id_limit_is_rejected :: "('r, 'x) repo_ops \<Rightarrow> ('r, unit) script" where
  "new_id_beyond_waiting_id_limit_is_rejected ops = do {
     a \<leftarrow> l_get_or_subscribe ops ''a''; assert_that (is_ok a);
     b \<leftarrow> l_get_or_subscribe ops ''b''; assert_that (is_ok b);
     result \<leftarrow> l_get_or_subscribe ops ''c''; assert_that (result = Inl WaiterLimitReached);
     w \<leftarrow> l_has_waiters ''c''; assert_that (\<not> w) }"

definition existing_id_accepts_waiters_at_waiting_id_limit :: "('r, 'x) repo_ops \<Rightarrow> ('r, unit) script" where
  "existing_id_accepts_waiters_at_waiting_id_limit ops = do {
     a \<leftarrow> l_get_or_subscribe ops ''a''; assert_that (is_ok a);
     b \<leftarrow> l_get_or_subscribe ops ''b''; assert_that (is_ok b);
     result \<leftarrow> l_get_or_subscribe ops ''a''; assert_that (is_ok result) }"

definition new_id_reuses_slot_of_disconnected_waiters :: "('r, 'x) repo_ops \<Rightarrow> ('r, unit) script" where
  "new_id_reuses_slot_of_disconnected_waiters ops = do {
     a \<leftarrow> l_get_or_subscribe ops ''a''; assert_that (is_ok a);
     b \<leftarrow> l_get_or_subscribe ops ''b''; c \<leftarrow> expect_waiting b; drop_receiver c;
     result \<leftarrow> l_get_or_subscribe ops ''c''; assert_that (is_ok result);
     w \<leftarrow> l_has_waiters ''b''; assert_that (\<not> w) }"

definition full_map_is_pruned_at_most_once_per_interval :: "('r, 'x) repo_ops \<Rightarrow> ('r, unit) script" where
  "full_map_is_pruned_at_most_once_per_interval ops = do {
     a \<leftarrow> l_get_or_subscribe ops ''a''; assert_that (is_ok a);
     b \<leftarrow> l_get_or_subscribe ops ''b''; rb \<leftarrow> expect_waiting b; drop_receiver rb;
     c \<leftarrow> l_get_or_subscribe ops ''c''; rc \<leftarrow> expect_waiting c; drop_receiver rc;
     result \<leftarrow> l_get_or_subscribe ops ''d''; assert_that (result = Inl WaiterLimitReached);
     w \<leftarrow> l_has_waiters ''c''; assert_that w }"

definition ensure_waiter_capacity_does_not_add_id :: "('r, unit) script" where
  "ensure_waiter_capacity_does_not_add_id = do {
     result \<leftarrow> l_ensure_waiter_capacity ''a''; assert_that (is_ok result);
     w \<leftarrow> l_no_waiters; assert_that w }"

section \<open>\<open>store_and_subscribe_ack\<close>\<close>

definition store_and_subscribe_ack_at_waiting_id_limit_does_not_store ::
    "('r, 'x) repo_ops \<Rightarrow> ('r, unit) script" where
  "store_and_subscribe_ack_at_waiting_id_limit_does_not_store ops = do {
     w \<leftarrow> l_get_or_subscribe ops ''occupied''; assert_that (is_ok w);
     result \<leftarrow> l_store_and_subscribe_ack ops ''new'' (make_message ''rejected'') secs60;
     assert_that (result = Inl SasWaiterLimitReached);
     a \<leftarrow> l_is_acked ops ''new''; assert_that (a = None) }"

definition store_and_subscribe_ack_when_store_full_does_not_subscribe ::
    "('r, 'x) repo_ops \<Rightarrow> ('r, unit) script" where
  "store_and_subscribe_ack_when_store_full_does_not_subscribe ops = do {
     unwrap (l_store ops ''undelivered'' (make_message ''first'') secs60);
     result \<leftarrow> l_store_and_subscribe_ack ops ''new'' (make_message ''rejected'') secs60;
     assert_that (result = Inl SasStoreFull);
     w \<leftarrow> l_has_waiters ''new''; assert_that (\<not> w) }"

definition store_and_subscribe_ack_for_waiting_id_at_limit_succeeds ::
    "('r, 'x) repo_ops \<Rightarrow> ('r, unit) script" where
  "store_and_subscribe_ack_for_waiting_id_at_limit_succeeds ops = do {
     w \<leftarrow> l_get_or_subscribe ops ''id1''; consumer \<leftarrow> expect_waiting w;
     result \<leftarrow> l_store_and_subscribe_ack ops ''id1'' (make_message ''hello'') secs60;
     assert_that (is_ok result);
     s \<leftarrow> received consumer; assert_that (got consumer ''hello'' s) }"

definition store_and_subscribe_ack_replaces_ack_waiters_at_per_id_limit ::
    "('r, 'x) repo_ops \<Rightarrow> ('r, unit) script" where
  "store_and_subscribe_ack_replaces_ack_waiters_at_per_id_limit ops = do {
     unwrap (l_store ops ''id1'' (make_message ''first'') secs60);
     repeat max_waiters_per_entry (do { r \<leftarrow> l_subscribe_ack ops ''id1''; assert_that (is_ok r) });
     result \<leftarrow> l_store_and_subscribe_ack ops ''id1'' (make_message ''second'') secs60;
     assert_that (is_ok result) }"

section \<open>Acknowledgement\<close>

definition is_acked_false_before_ack :: "('r, 'x) repo_ops \<Rightarrow> ('r, unit) script" where
  "is_acked_false_before_ack ops = do {
     unwrap (l_store ops ''id1'' (make_message ''test'') secs60);
     a \<leftarrow> l_is_acked ops ''id1''; assert_that (a = Some False) }"

definition is_acked_true_after_ack :: "('r, 'x) repo_ops \<Rightarrow> ('r, unit) script" where
  "is_acked_true_after_ack ops = do {
     unwrap (l_store ops ''id1'' (make_message ''test'') secs60);
     ok \<leftarrow> l_ack ops ''id1''; assert_that ok;
     a \<leftarrow> l_is_acked ops ''id1''; assert_that (a = Some True) }"

definition ack_notifies_waiters :: "('r, 'x) repo_ops \<Rightarrow> ('r, unit) script" where
  "ack_notifies_waiters ops = do {
     unwrap (l_store ops ''id1'' (make_message ''test'') secs60);
     result \<leftarrow> l_subscribe_ack ops ''id1''; rx \<leftarrow> expect_ok result;
     l_ack ops ''id1'';
     s \<leftarrow> received rx; assert_that (s = Some (SentAck rx)) }"

definition ack_fails_for_expired_entry :: "('r, 'x) repo_ops \<Rightarrow> ('r, unit) script" where
  "ack_fails_for_expired_entry ops = do {
     unwrap (l_store ops ''id1'' (make_message ''test'') millis10);
     sleep 20;
     ok \<leftarrow> l_ack ops ''id1''; assert_that (\<not> ok);
     a \<leftarrow> l_is_acked ops ''id1''; assert_that (a = None) }"

definition ack_fails_for_nonexistent_entry :: "('r, 'x) repo_ops \<Rightarrow> ('r, unit) script" where
  "ack_fails_for_nonexistent_entry ops = do {
     ok \<leftarrow> l_ack ops ''nonexistent''; assert_that (\<not> ok);
     a \<leftarrow> l_is_acked ops ''nonexistent''; assert_that (a = None) }"

section \<open>\<open>get_or_subscribe\<close>\<close>

definition get_or_subscribe_returns_existing_message :: "('r, 'x) repo_ops \<Rightarrow> ('r, unit) script" where
  "get_or_subscribe_returns_existing_message ops = do {
     unwrap (l_store ops ''id1'' (make_message ''existing'') secs60);
     result \<leftarrow> l_get_or_subscribe ops ''id1'';
     assert_that (result = Inr (GotMessage (make_message ''existing''))) }"

definition get_or_subscribe_returns_receiver_when_no_entry :: "('r, 'x) repo_ops \<Rightarrow> ('r, unit) script" where
  "get_or_subscribe_returns_receiver_when_no_entry ops = do {
     result \<leftarrow> l_get_or_subscribe ops ''id1''; assert_that (is_waiting result);
     w \<leftarrow> l_has_waiters ''id1''; assert_that w }"

definition get_or_subscribe_receiver_gets_message_when_stored :: "('r, 'x) repo_ops \<Rightarrow> ('r, unit) script" where
  "get_or_subscribe_receiver_gets_message_when_stored ops = do {
     result \<leftarrow> l_get_or_subscribe ops ''id1''; rx \<leftarrow> expect_waiting result;
     unwrap (l_store ops ''id1'' (make_message ''arrived'') secs60);
     s \<leftarrow> received rx; assert_that (got rx ''arrived'' s) }"

definition get_or_subscribe_ignores_expired_message :: "('r, 'x) repo_ops \<Rightarrow> ('r, unit) script" where
  "get_or_subscribe_ignores_expired_message ops = do {
     unwrap (l_store ops ''id1'' (make_message ''expired'') millis10);
     sleep 20;
     result \<leftarrow> l_get_or_subscribe ops ''id1''; assert_that (is_waiting result) }"

section \<open>Clean-up and waiters\<close>

definition cleanup_does_not_remove_waiters_without_entry :: "('r, 'x) repo_ops \<Rightarrow> ('r, unit) script" where
  "cleanup_does_not_remove_waiters_without_entry ops = do {
     result \<leftarrow> l_get_or_subscribe ops ''consumer-first''; rx \<leftarrow> expect_waiting result;
     l_cleanup_expired ops;
     unwrap (l_store ops ''consumer-first'' (make_message ''delayed'') secs60);
     s \<leftarrow> received rx; assert_that (got rx ''delayed'' s) }"

definition cleanup_removes_waiters_for_expired_entries :: "('r, 'x) repo_ops \<Rightarrow> ('r, unit) script" where
  "cleanup_removes_waiters_for_expired_entries ops = do {
     unwrap (l_store ops ''will-expire'' (make_message ''test'') millis10);
     result \<leftarrow> l_subscribe_ack ops ''will-expire''; rx \<leftarrow> expect_ok result;
     sleep 20;
     l_cleanup_expired ops;
     s \<leftarrow> received rx; assert_that (s = Some (Dropped rx)) }"

definition cleanup_removes_closed_senders :: "('r, 'x) repo_ops \<Rightarrow> ('r, unit) script" where
  "cleanup_removes_closed_senders ops = do {
     result \<leftarrow> l_get_or_subscribe ops ''dropped-receiver''; rx \<leftarrow> expect_waiting result;
     drop_receiver rx;
     w \<leftarrow> l_has_waiters ''dropped-receiver''; assert_that w;
     l_cleanup_expired ops;
     w \<leftarrow> l_has_waiters ''dropped-receiver''; assert_that (\<not> w) }"

section \<open>The suite\<close>

text \<open>Each test with the room of its list (\<open>create_test_list\<close> has room for 100 entries).\<close>

definition waiting_list_suite :: "('r, 'x) repo_ops \<Rightarrow> (nat \<times> ('r, unit) script) list" where
  "waiting_list_suite ops =
    [(100, cleanup_expired_removes_expired_entries ops),
     (100, cleanup_expired_returns_zero_when_nothing_expired ops),
     (100, store_notifies_message_waiters_on_overwrite ops),
     (100, store_drops_ack_waiters_on_overwrite ops),
     (1, store_when_full_rejects_message_and_does_not_notify_waiters ops),
     (100, subscribe_ack_returns_limit_error ops),
     (100, get_or_subscribe_returns_limit_error ops),
     (100, closed_message_waiters_do_not_count_toward_limit ops),
     (100, closed_ack_waiters_do_not_count_toward_limit ops),
     (2, new_id_beyond_waiting_id_limit_is_rejected ops),
     (2, existing_id_accepts_waiters_at_waiting_id_limit ops),
     (2, new_id_reuses_slot_of_disconnected_waiters ops),
     (2, full_map_is_pruned_at_most_once_per_interval ops),
     (1, ensure_waiter_capacity_does_not_add_id),
     (1, store_and_subscribe_ack_at_waiting_id_limit_does_not_store ops),
     (1, store_and_subscribe_ack_when_store_full_does_not_subscribe ops),
     (1, store_and_subscribe_ack_for_waiting_id_at_limit_succeeds ops),
     (100, store_and_subscribe_ack_replaces_ack_waiters_at_per_id_limit ops),
     (100, is_acked_false_before_ack ops),
     (100, is_acked_true_after_ack ops),
     (100, ack_notifies_waiters ops),
     (100, ack_fails_for_expired_entry ops),
     (100, ack_fails_for_nonexistent_entry ops),
     (100, get_or_subscribe_returns_existing_message ops),
     (100, get_or_subscribe_returns_receiver_when_no_entry ops),
     (100, get_or_subscribe_receiver_gets_message_when_stored ops),
     (100, get_or_subscribe_ignores_expired_message ops),
     (100, cleanup_does_not_remove_waiters_without_entry ops),
     (100, cleanup_removes_waiters_for_expired_entries ops),
     (100, cleanup_removes_closed_senders ops)]"

text \<open>The facts that run a test of this theory.\<close>

lemmas waiting_list_tests =
  cleanup_expired_removes_expired_entries_def
  cleanup_expired_returns_zero_when_nothing_expired_def
  store_notifies_message_waiters_on_overwrite_def
  store_drops_ack_waiters_on_overwrite_def
  store_when_full_rejects_message_and_does_not_notify_waiters_def
  subscribe_ack_returns_limit_error_def
  get_or_subscribe_returns_limit_error_def
  closed_message_waiters_do_not_count_toward_limit_def
  closed_ack_waiters_do_not_count_toward_limit_def
  new_id_beyond_waiting_id_limit_is_rejected_def
  existing_id_accepts_waiters_at_waiting_id_limit_def
  new_id_reuses_slot_of_disconnected_waiters_def
  full_map_is_pruned_at_most_once_per_interval_def
  ensure_waiter_capacity_does_not_add_id_def
  store_and_subscribe_ack_at_waiting_id_limit_does_not_store_def
  store_and_subscribe_ack_when_store_full_does_not_subscribe_def
  store_and_subscribe_ack_for_waiting_id_at_limit_succeeds_def
  store_and_subscribe_ack_replaces_ack_waiters_at_per_id_limit_def
  is_acked_false_before_ack_def
  is_acked_true_after_ack_def
  ack_notifies_waiters_def
  ack_fails_for_expired_entry_def
  ack_fails_for_nonexistent_entry_def
  get_or_subscribe_returns_existing_message_def
  get_or_subscribe_returns_receiver_when_no_entry_def
  get_or_subscribe_receiver_gets_message_when_stored_def
  get_or_subscribe_ignores_expired_message_def
  cleanup_does_not_remove_waiters_without_entry_def
  cleanup_removes_waiters_for_expired_entries_def
  cleanup_removes_closed_senders_def

lemma waiting_list_tests_memory:
  "passes (cleanup_expired_removes_expired_entries memory_ops) (lab memory_ops (memory_new 100))"
  "passes (cleanup_expired_returns_zero_when_nothing_expired memory_ops) (lab memory_ops (memory_new 100))"
  "passes (store_notifies_message_waiters_on_overwrite memory_ops) (lab memory_ops (memory_new 100))"
  "passes (store_drops_ack_waiters_on_overwrite memory_ops) (lab memory_ops (memory_new 100))"
  "passes (store_when_full_rejects_message_and_does_not_notify_waiters memory_ops) (lab memory_ops (memory_new 1))"
  "passes (subscribe_ack_returns_limit_error memory_ops) (lab memory_ops (memory_new 100))"
  "passes (get_or_subscribe_returns_limit_error memory_ops) (lab memory_ops (memory_new 100))"
  "passes (closed_message_waiters_do_not_count_toward_limit memory_ops) (lab memory_ops (memory_new 100))"
  "passes (closed_ack_waiters_do_not_count_toward_limit memory_ops) (lab memory_ops (memory_new 100))"
  "passes (new_id_beyond_waiting_id_limit_is_rejected memory_ops) (lab memory_ops (memory_new 2))"
  "passes (existing_id_accepts_waiters_at_waiting_id_limit memory_ops) (lab memory_ops (memory_new 2))"
  "passes (new_id_reuses_slot_of_disconnected_waiters memory_ops) (lab memory_ops (memory_new 2))"
  "passes (full_map_is_pruned_at_most_once_per_interval memory_ops) (lab memory_ops (memory_new 2))"
  "passes ensure_waiter_capacity_does_not_add_id (lab memory_ops (memory_new 1))"
  "passes (store_and_subscribe_ack_at_waiting_id_limit_does_not_store memory_ops) (lab memory_ops (memory_new 1))"
  "passes (store_and_subscribe_ack_when_store_full_does_not_subscribe memory_ops) (lab memory_ops (memory_new 1))"
  "passes (store_and_subscribe_ack_for_waiting_id_at_limit_succeeds memory_ops) (lab memory_ops (memory_new 1))"
  "passes (store_and_subscribe_ack_replaces_ack_waiters_at_per_id_limit memory_ops) (lab memory_ops (memory_new 100))"
  "passes (is_acked_false_before_ack memory_ops) (lab memory_ops (memory_new 100))"
  "passes (is_acked_true_after_ack memory_ops) (lab memory_ops (memory_new 100))"
  "passes (ack_notifies_waiters memory_ops) (lab memory_ops (memory_new 100))"
  "passes (ack_fails_for_expired_entry memory_ops) (lab memory_ops (memory_new 100))"
  "passes (ack_fails_for_nonexistent_entry memory_ops) (lab memory_ops (memory_new 100))"
  "passes (get_or_subscribe_returns_existing_message memory_ops) (lab memory_ops (memory_new 100))"
  "passes (get_or_subscribe_returns_receiver_when_no_entry memory_ops) (lab memory_ops (memory_new 100))"
  "passes (get_or_subscribe_receiver_gets_message_when_stored memory_ops) (lab memory_ops (memory_new 100))"
  "passes (get_or_subscribe_ignores_expired_message memory_ops) (lab memory_ops (memory_new 100))"
  "passes (cleanup_does_not_remove_waiters_without_entry memory_ops) (lab memory_ops (memory_new 100))"
  "passes (cleanup_removes_waiters_for_expired_entries memory_ops) (lab memory_ops (memory_new 100))"
  "passes (cleanup_removes_closed_senders memory_ops) (lab memory_ops (memory_new 100))"
  by (simp_all add: replay waiting_list_tests cong: in_turn)

lemma waiting_list_tests_sqlite:
  "passes (cleanup_expired_removes_expired_entries sqlite_ops) (lab sqlite_ops (sqlite_new None 100))"
  "passes (cleanup_expired_returns_zero_when_nothing_expired sqlite_ops) (lab sqlite_ops (sqlite_new None 100))"
  "passes (store_notifies_message_waiters_on_overwrite sqlite_ops) (lab sqlite_ops (sqlite_new None 100))"
  "passes (store_drops_ack_waiters_on_overwrite sqlite_ops) (lab sqlite_ops (sqlite_new None 100))"
  "passes (store_when_full_rejects_message_and_does_not_notify_waiters sqlite_ops) (lab sqlite_ops (sqlite_new None 1))"
  "passes (subscribe_ack_returns_limit_error sqlite_ops) (lab sqlite_ops (sqlite_new None 100))"
  "passes (get_or_subscribe_returns_limit_error sqlite_ops) (lab sqlite_ops (sqlite_new None 100))"
  "passes (closed_message_waiters_do_not_count_toward_limit sqlite_ops) (lab sqlite_ops (sqlite_new None 100))"
  "passes (closed_ack_waiters_do_not_count_toward_limit sqlite_ops) (lab sqlite_ops (sqlite_new None 100))"
  "passes (new_id_beyond_waiting_id_limit_is_rejected sqlite_ops) (lab sqlite_ops (sqlite_new None 2))"
  "passes (existing_id_accepts_waiters_at_waiting_id_limit sqlite_ops) (lab sqlite_ops (sqlite_new None 2))"
  "passes (new_id_reuses_slot_of_disconnected_waiters sqlite_ops) (lab sqlite_ops (sqlite_new None 2))"
  "passes (full_map_is_pruned_at_most_once_per_interval sqlite_ops) (lab sqlite_ops (sqlite_new None 2))"
  "passes ensure_waiter_capacity_does_not_add_id (lab sqlite_ops (sqlite_new None 1))"
  "passes (store_and_subscribe_ack_at_waiting_id_limit_does_not_store sqlite_ops) (lab sqlite_ops (sqlite_new None 1))"
  "passes (store_and_subscribe_ack_when_store_full_does_not_subscribe sqlite_ops) (lab sqlite_ops (sqlite_new None 1))"
  "passes (store_and_subscribe_ack_for_waiting_id_at_limit_succeeds sqlite_ops) (lab sqlite_ops (sqlite_new None 1))"
  "passes (store_and_subscribe_ack_replaces_ack_waiters_at_per_id_limit sqlite_ops) (lab sqlite_ops (sqlite_new None 100))"
  "passes (is_acked_false_before_ack sqlite_ops) (lab sqlite_ops (sqlite_new None 100))"
  "passes (is_acked_true_after_ack sqlite_ops) (lab sqlite_ops (sqlite_new None 100))"
  "passes (ack_notifies_waiters sqlite_ops) (lab sqlite_ops (sqlite_new None 100))"
  "passes (ack_fails_for_expired_entry sqlite_ops) (lab sqlite_ops (sqlite_new None 100))"
  "passes (ack_fails_for_nonexistent_entry sqlite_ops) (lab sqlite_ops (sqlite_new None 100))"
  "passes (get_or_subscribe_returns_existing_message sqlite_ops) (lab sqlite_ops (sqlite_new None 100))"
  "passes (get_or_subscribe_returns_receiver_when_no_entry sqlite_ops) (lab sqlite_ops (sqlite_new None 100))"
  "passes (get_or_subscribe_receiver_gets_message_when_stored sqlite_ops) (lab sqlite_ops (sqlite_new None 100))"
  "passes (get_or_subscribe_ignores_expired_message sqlite_ops) (lab sqlite_ops (sqlite_new None 100))"
  "passes (cleanup_does_not_remove_waiters_without_entry sqlite_ops) (lab sqlite_ops (sqlite_new None 100))"
  "passes (cleanup_removes_waiters_for_expired_entries sqlite_ops) (lab sqlite_ops (sqlite_new None 100))"
  "passes (cleanup_removes_closed_senders sqlite_ops) (lab sqlite_ops (sqlite_new None 100))"
  by (simp_all add: replay waiting_list_tests cong: in_turn)
lemma waiting_list_suites:
  "suite_passes memory_ops memory_new (waiting_list_suite memory_ops)"
  "suite_passes sqlite_ops (sqlite_new None) (waiting_list_suite sqlite_ops)"
  by (simp_all only: waiting_list_suite_def suite_passes_simps waiting_list_tests_memory waiting_list_tests_sqlite)

end
