(* ===== verification/Test_Storage.thy ===== *)
theory Test_Storage
  imports Test_Harness
begin

text \<open>
  The unit tests of the two repositories, \<open>persistence.rs\<close> and \<open>storage_memory.rs\<close>.  The second
  file repeats eight tests of the first, so they are scripts over the interface; the model passes all of them
  with either back end.  The test of \<open>PRAGMA secure_delete\<close> asks SQLite itself and has no counterpart.
\<close>

section \<open>Helpers\<close>

definition an_hour_from_now :: "('r, i64) script" where
  "an_hour_from_now = do { now \<leftarrow> now_millis; State_Monad.return (now + 3600000) }"

definition an_hour_ago :: "('r, i64) script" where
  "an_hour_ago = do { now \<leftarrow> now_millis; State_Monad.return (now - 3600000) }"

text \<open>\<open>get(id).expect(\<dots>).unwrap()\<close> and what the test does with the entry.\<close>

definition with_entry ::
    "('r, 'x) repo_ops \<Rightarrow> string \<Rightarrow> (stored_entry \<Rightarrow> ('r, unit) script) \<Rightarrow> ('r, unit) script" where
  "with_entry ops k f = do {
     res \<leftarrow> r_get ops k;
     case res of Inr (Some w) \<Rightarrow> f w | _ \<Rightarrow> fail }"

definition is_stored :: "('r, 'x) repo_ops \<Rightarrow> string \<Rightarrow> ('r, unit) script" where
  "is_stored ops k = with_entry ops k (\<lambda>_. State_Monad.return ())"

definition is_absent :: "('r, 'x) repo_ops \<Rightarrow> string \<Rightarrow> ('r, unit) script" where
  "is_absent ops k = do { res \<leftarrow> r_get ops k; assert_that (res = Inr None) }"

definition holds_entries :: "('r, 'x) repo_ops \<Rightarrow> nat \<Rightarrow> ('r, unit) script" where
  "holds_entries ops n = do { res \<leftarrow> r_count ops; assert_that (res = Inr n) }"

definition insert_in_order :: "('r, 'x) repo_ops \<Rightarrow> string list \<Rightarrow> i64 \<Rightarrow> ('r, unit) script" where
  "insert_in_order ops ids expires = for_each ids (\<lambda>k. do {
     unwrap (r_insert ops k ''body'' None expires);
     sleep 1 })"

lemmas storage_helpers [replay] =
  an_hour_from_now_def an_hour_ago_def with_entry_def is_stored_def is_absent_def holds_entries_def insert_in_order_def

section \<open>The operations one by one\<close>

definition test_insert_and_get :: "('r, 'x) repo_ops \<Rightarrow> ('r, unit) script" where
  "test_insert_and_get ops = do {
     expires \<leftarrow> an_hour_from_now;
     unwrap (r_insert ops ''test-id'' ''test body'' (Some ''text/plain'') expires);
     with_entry ops ''test-id'' (\<lambda>w. do {
       assert_that (message_body w = Some (text_bytes ''test body''));
       assert_that (content_type w = Some ''text/plain'');
       assert_that (\<not> acked w);
       assert_that (expires_at w = expires) }) }"

definition test_get_nonexistent :: "('r, 'x) repo_ops \<Rightarrow> ('r, unit) script" where
  "test_get_nonexistent ops = is_absent ops ''nonexistent''"

definition test_ack :: "('r, 'x) repo_ops \<Rightarrow> ('r, unit) script" where
  "test_ack ops = do {
     expires \<leftarrow> an_hour_from_now;
     unwrap (r_insert ops ''test-id'' ''test body'' (Some ''text/plain'') expires);
     was_acked \<leftarrow> r_ack ops ''test-id''; assert_that (was_acked = Inr True);
     with_entry ops ''test-id'' (\<lambda>w. do {
       assert_that (acked w);
       assert_that (message_body w = None) }) }"

definition test_ack_nonexistent :: "('r, 'x) repo_ops \<Rightarrow> ('r, unit) script" where
  "test_ack_nonexistent ops = do {
     was_acked \<leftarrow> r_ack ops ''nonexistent''; assert_that (was_acked = Inr False) }"

definition test_delete :: "('r, 'x) repo_ops \<Rightarrow> ('r, unit) script" where
  "test_delete ops = do {
     expires \<leftarrow> an_hour_from_now;
     unwrap (r_insert ops ''test-id'' ''test body'' None expires);
     was_deleted \<leftarrow> r_delete ops ''test-id''; assert_that (was_deleted = Inr True);
     is_absent ops ''test-id'' }"

definition test_delete_nonexistent :: "('r, 'x) repo_ops \<Rightarrow> ('r, unit) script" where
  "test_delete_nonexistent ops = do {
     was_deleted \<leftarrow> r_delete ops ''nonexistent''; assert_that (was_deleted = Inr False) }"

definition test_cleanup_expired :: "('r, 'x) repo_ops \<Rightarrow> ('r, unit) script" where
  "test_cleanup_expired ops = do {
     past \<leftarrow> an_hour_ago;
     future \<leftarrow> an_hour_from_now;
     unwrap (r_insert ops ''expired'' ''old'' None past);
     unwrap (r_insert ops ''valid'' ''new'' None future);
     deleted_ids \<leftarrow> r_cleanup ops; assert_that (deleted_ids = Inr [''expired'']);
     is_absent ops ''expired'';
     is_stored ops ''valid'' }"

definition test_count :: "('r, 'x) repo_ops \<Rightarrow> ('r, unit) script" where
  "test_count ops = do {
     expires \<leftarrow> an_hour_from_now;
     holds_entries ops 0;
     unwrap (r_insert ops ''id1'' ''body1'' None expires);
     holds_entries ops 1;
     unwrap (r_insert ops ''id2'' ''body2'' None expires);
     holds_entries ops 2 }"

definition test_insert_or_replace :: "('r, 'x) repo_ops \<Rightarrow> ('r, unit) script" where
  "test_insert_or_replace ops = do {
     expires \<leftarrow> an_hour_from_now;
     unwrap (r_insert ops ''test-id'' ''original'' (Some ''text/plain'') expires);
     unwrap (r_insert ops ''test-id'' ''replaced'' (Some ''application/json'') expires);
     with_entry ops ''test-id'' (\<lambda>w. do {
       assert_that (message_body w = Some (text_bytes ''replaced''));
       assert_that (content_type w = Some ''application/json'');
       holds_entries ops 1 }) }"

section \<open>A full repository\<close>

definition test_insert_new_id_when_full_of_undelivered_messages_is_rejected ::
    "('r, 'x) repo_ops \<Rightarrow> ('r, unit) script" where
  "test_insert_new_id_when_full_of_undelivered_messages_is_rejected ops = do {
     expires \<leftarrow> an_hour_from_now;
     insert_in_order ops [''id1'', ''id2'', ''id3''] expires;
     outcome \<leftarrow> r_insert ops ''id4'' ''body4'' None expires;
     assert_that (outcome = Inr StoreFull);
     holds_entries ops 3;
     is_absent ops ''id4'';
     for_each [''id1'', ''id2'', ''id3''] (\<lambda>k. with_entry ops k (\<lambda>w.
       assert_that (message_body w = Some (text_bytes ''body'')))) }"

definition test_insert_when_full_deletes_expired_entry :: "('r, 'x) repo_ops \<Rightarrow> ('r, unit) script" where
  "test_insert_when_full_deletes_expired_entry ops = do {
     past \<leftarrow> an_hour_ago;
     future \<leftarrow> an_hour_from_now;
     insert_in_order ops [''id1'', ''id2''] future;
     insert_in_order ops [''expired''] past;
     outcome \<leftarrow> r_insert ops ''id4'' ''body4'' None future;
     assert_that (outcome = Inr Stored);
     is_absent ops ''expired'';
     for_each [''id1'', ''id2'', ''id4''] (is_stored ops) }"

definition test_insert_when_full_deletes_oldest_acked_entry :: "('r, 'x) repo_ops \<Rightarrow> ('r, unit) script" where
  "test_insert_when_full_deletes_oldest_acked_entry ops = do {
     expires \<leftarrow> an_hour_from_now;
     insert_in_order ops [''unacked'', ''older-acked'', ''newer-acked''] expires;
     unwrap (r_ack ops ''older-acked'');
     unwrap (r_ack ops ''newer-acked'');
     outcome \<leftarrow> r_insert ops ''id4'' ''body4'' None expires;
     assert_that (outcome = Inr Stored);
     is_absent ops ''older-acked'';
     for_each [''unacked'', ''newer-acked'', ''id4''] (is_stored ops) }"

definition test_insert_existing_id_when_full_replaces_without_deleting_others ::
    "('r, 'x) repo_ops \<Rightarrow> ('r, unit) script" where
  "test_insert_existing_id_when_full_replaces_without_deleting_others ops = do {
     expires \<leftarrow> an_hour_from_now;
     insert_in_order ops [''A'', ''B'', ''C''] expires;
     outcome \<leftarrow> r_insert ops ''A'' ''updated-A'' None expires;
     assert_that (outcome = Inr Stored);
     holds_entries ops 3;
     with_entry ops ''A'' (\<lambda>w. assert_that (message_body w = Some (text_bytes ''updated-A'')));
     is_stored ops ''B'';
     is_stored ops ''C'' }"

text \<open>This test reaches into the repository: the database reopened with a lower \<open>--max-entries\<close>.\<close>

definition lower_max_entries :: "nat \<Rightarrow> (sqlite_repo, unit) script" where
  "lower_max_entries n = State (\<lambda>m. ((), m\<lparr>m_waiting := (m_waiting m)
     \<lparr>repository := (repository (m_waiting m))\<lparr>sqlite_max_entries := n\<rparr>\<rparr>\<rparr>))"

definition test_insert_when_over_lowered_limit_deletes_enough_acked_entries :: "(sqlite_repo, unit) script" where
  "test_insert_when_over_lowered_limit_deletes_enough_acked_entries = do {
     expires \<leftarrow> an_hour_from_now;
     insert_in_order sqlite_ops [''unacked'', ''acked-1'', ''acked-2'', ''acked-3''] expires;
     for_each [''acked-1'', ''acked-2'', ''acked-3''] (\<lambda>k. unwrap (r_ack sqlite_ops k));
     lower_max_entries 2;
     outcome \<leftarrow> r_insert sqlite_ops ''new'' ''body'' None expires;
     assert_that (outcome = Inr Stored);
     holds_entries sqlite_ops 2;
     is_stored sqlite_ops ''unacked'';
     is_stored sqlite_ops ''new'' }"

section \<open>The tests of the in-memory repository\<close>

text \<open>The same tests once more, on the other back end.\<close>

definition memory_test_insert_and_get :: "(memory_repo, unit) script" where
  "memory_test_insert_and_get = test_insert_and_get memory_ops"

definition memory_test_get_nonexistent :: "(memory_repo, unit) script" where
  "memory_test_get_nonexistent = test_get_nonexistent memory_ops"

definition memory_test_ack :: "(memory_repo, unit) script" where
  "memory_test_ack = test_ack memory_ops"

definition memory_test_cleanup_expired :: "(memory_repo, unit) script" where
  "memory_test_cleanup_expired = test_cleanup_expired memory_ops"

definition memory_test_insert_new_id_when_full_of_undelivered_messages_is_rejected :: "(memory_repo, unit) script" where
  "memory_test_insert_new_id_when_full_of_undelivered_messages_is_rejected = test_insert_new_id_when_full_of_undelivered_messages_is_rejected memory_ops"

definition memory_test_insert_when_full_deletes_expired_entry :: "(memory_repo, unit) script" where
  "memory_test_insert_when_full_deletes_expired_entry = test_insert_when_full_deletes_expired_entry memory_ops"

definition memory_test_insert_when_full_deletes_oldest_acked_entry :: "(memory_repo, unit) script" where
  "memory_test_insert_when_full_deletes_oldest_acked_entry = test_insert_when_full_deletes_oldest_acked_entry memory_ops"

definition memory_test_insert_existing_id_when_full_replaces_without_deleting_others :: "(memory_repo, unit) script" where
  "memory_test_insert_existing_id_when_full_replaces_without_deleting_others = test_insert_existing_id_when_full_replaces_without_deleting_others memory_ops"

section \<open>The suites\<close>

definition storage_suite :: "('r, 'x) repo_ops \<Rightarrow> (nat \<times> ('r, unit) script) list" where
  "storage_suite ops =
    [(100, test_insert_and_get ops),
     (100, test_get_nonexistent ops),
     (100, test_ack ops),
     (100, test_ack_nonexistent ops),
     (100, test_delete ops),
     (100, test_delete_nonexistent ops),
     (100, test_cleanup_expired ops),
     (100, test_count ops),
     (100, test_insert_or_replace ops),
     (3, test_insert_new_id_when_full_of_undelivered_messages_is_rejected ops),
     (3, test_insert_when_full_deletes_expired_entry ops),
     (3, test_insert_when_full_deletes_oldest_acked_entry ops),
     (3, test_insert_existing_id_when_full_replaces_without_deleting_others ops)]"

definition persistence_suite :: "(nat \<times> (sqlite_repo, unit) script) list" where
  "persistence_suite = storage_suite sqlite_ops @ [(4, test_insert_when_over_lowered_limit_deletes_enough_acked_entries)]"

definition memory_suite :: "(nat \<times> (memory_repo, unit) script) list" where
  "memory_suite =
    [(100, memory_test_insert_and_get),
     (100, memory_test_get_nonexistent),
     (100, memory_test_ack),
     (100, memory_test_cleanup_expired),
     (3, memory_test_insert_new_id_when_full_of_undelivered_messages_is_rejected),
     (3, memory_test_insert_when_full_deletes_expired_entry),
     (3, memory_test_insert_when_full_deletes_oldest_acked_entry),
     (3, memory_test_insert_existing_id_when_full_replaces_without_deleting_others)]"

lemmas storage_tests =
  lower_max_entries_def
  test_insert_and_get_def
  test_get_nonexistent_def
  test_ack_def
  test_ack_nonexistent_def
  test_delete_def
  test_delete_nonexistent_def
  test_cleanup_expired_def
  test_count_def
  test_insert_or_replace_def
  test_insert_new_id_when_full_of_undelivered_messages_is_rejected_def
  test_insert_when_full_deletes_expired_entry_def
  test_insert_when_full_deletes_oldest_acked_entry_def
  test_insert_existing_id_when_full_replaces_without_deleting_others_def
  test_insert_when_over_lowered_limit_deletes_enough_acked_entries_def

lemmas memory_tests =
  memory_test_insert_and_get_def
  memory_test_get_nonexistent_def
  memory_test_ack_def
  memory_test_cleanup_expired_def
  memory_test_insert_new_id_when_full_of_undelivered_messages_is_rejected_def
  memory_test_insert_when_full_deletes_expired_entry_def
  memory_test_insert_when_full_deletes_oldest_acked_entry_def
  memory_test_insert_existing_id_when_full_replaces_without_deleting_others_def

lemma storage_tests_memory:
  "passes (test_insert_and_get memory_ops) (lab memory_ops (memory_new 100))"
  "passes (test_get_nonexistent memory_ops) (lab memory_ops (memory_new 100))"
  "passes (test_ack memory_ops) (lab memory_ops (memory_new 100))"
  "passes (test_ack_nonexistent memory_ops) (lab memory_ops (memory_new 100))"
  "passes (test_delete memory_ops) (lab memory_ops (memory_new 100))"
  "passes (test_delete_nonexistent memory_ops) (lab memory_ops (memory_new 100))"
  "passes (test_cleanup_expired memory_ops) (lab memory_ops (memory_new 100))"
  "passes (test_count memory_ops) (lab memory_ops (memory_new 100))"
  "passes (test_insert_or_replace memory_ops) (lab memory_ops (memory_new 100))"
  "passes (test_insert_new_id_when_full_of_undelivered_messages_is_rejected memory_ops) (lab memory_ops (memory_new 3))"
  "passes (test_insert_when_full_deletes_expired_entry memory_ops) (lab memory_ops (memory_new 3))"
  "passes (test_insert_when_full_deletes_oldest_acked_entry memory_ops) (lab memory_ops (memory_new 3))"
  "passes (test_insert_existing_id_when_full_replaces_without_deleting_others memory_ops) (lab memory_ops (memory_new 3))"
  by (simp_all add: replay storage_tests cong: in_turn)

lemma storage_tests_sqlite:
  "passes (test_insert_and_get sqlite_ops) (lab sqlite_ops (sqlite_new None 100))"
  "passes (test_get_nonexistent sqlite_ops) (lab sqlite_ops (sqlite_new None 100))"
  "passes (test_ack sqlite_ops) (lab sqlite_ops (sqlite_new None 100))"
  "passes (test_ack_nonexistent sqlite_ops) (lab sqlite_ops (sqlite_new None 100))"
  "passes (test_delete sqlite_ops) (lab sqlite_ops (sqlite_new None 100))"
  "passes (test_delete_nonexistent sqlite_ops) (lab sqlite_ops (sqlite_new None 100))"
  "passes (test_cleanup_expired sqlite_ops) (lab sqlite_ops (sqlite_new None 100))"
  "passes (test_count sqlite_ops) (lab sqlite_ops (sqlite_new None 100))"
  "passes (test_insert_or_replace sqlite_ops) (lab sqlite_ops (sqlite_new None 100))"
  "passes (test_insert_new_id_when_full_of_undelivered_messages_is_rejected sqlite_ops) (lab sqlite_ops (sqlite_new None 3))"
  "passes (test_insert_when_full_deletes_expired_entry sqlite_ops) (lab sqlite_ops (sqlite_new None 3))"
  "passes (test_insert_when_full_deletes_oldest_acked_entry sqlite_ops) (lab sqlite_ops (sqlite_new None 3))"
  "passes (test_insert_existing_id_when_full_replaces_without_deleting_others sqlite_ops) (lab sqlite_ops (sqlite_new None 3))"
  "passes test_insert_when_over_lowered_limit_deletes_enough_acked_entries (lab sqlite_ops (sqlite_new None 4))"
  by (simp_all add: replay storage_tests cong: in_turn)

lemma storage_suites:
  "suite_passes memory_ops memory_new (storage_suite memory_ops)"
  "suite_passes memory_ops memory_new memory_suite"
  "suite_passes sqlite_ops (sqlite_new None) persistence_suite"
  by (simp_all only: storage_suite_def memory_suite_def persistence_suite_def append.simps suite_passes_simps
      memory_tests storage_tests_memory storage_tests_sqlite)

end
