(* ===== verification/Test_Handlers.thy ===== *)
theory Test_Handlers
  imports Test_Harness
begin

text \<open>
  The tests of \<open>inbox_handler.rs\<close> and \<open>link_handler.rs\<close>, which talk to a server over HTTP.  Futures
  that a test joins become one script: a request is sent, time passes, and its answer is awaited
  later.  What the test client and the router do with a path is left out: a request names its
  handler and its ID.
\<close>

abbreviation millis :: "nat \<Rightarrow> duration" where
  "millis n \<equiv> n * 1000000"

section \<open>Inbox\<close>

definition inbox_test_post_and_get :: "http_lib \<Rightarrow> ('r, 'x) repo_ops \<Rightarrow> (nat \<Rightarrow> 'r) \<Rightarrow> bool" where
  "inbox_test_post_and_get lib ops fresh = on_server ops fresh config_default (\<lambda>cfg. do {
     resp \<leftarrow> request_answer lib ops cfg (InboxPost ''test-123'' no_headers (text_bytes ''hello inbox''));
     expect_status resp 200;
     resp \<leftarrow> request_answer lib ops cfg (InboxGet ''test-123'');
     expect_status resp 200;
     expect_text resp ''hello inbox'';
     n \<leftarrow> l_len ops; assert_that (n = 1) })"

definition inbox_test_get_timeout_when_no_message :: "http_lib \<Rightarrow> ('r, 'x) repo_ops \<Rightarrow> (nat \<Rightarrow> 'r) \<Rightarrow> bool" where
  "inbox_test_get_timeout_when_no_message lib ops fresh =
     on_server ops fresh (config_default\<lparr>inbox_timeout := millis 50\<rparr>) (\<lambda>cfg. do {
     resp \<leftarrow> request_answer lib ops cfg (InboxGet ''nonexistent'');
     expect_status resp 408 })"

definition inbox_test_get_long_poll_receives_message :: "http_lib \<Rightarrow> ('r, 'x) repo_ops \<Rightarrow> (nat \<Rightarrow> 'r) \<Rightarrow> bool" where
  "inbox_test_get_long_poll_receives_message lib ops fresh =
     on_server ops fresh (config_default\<lparr>inbox_timeout := from_secs 5\<rparr>) (\<lambda>cfg. do {
     getter \<leftarrow> send lib ops cfg (InboxGet ''long-poll-test'');
     sleep 50;
     resp \<leftarrow> request_answer lib ops cfg (InboxPost ''long-poll-test'' no_headers (text_bytes ''delayed message''));
     expect_status resp 200;
     resp \<leftarrow> await_answer lib ops cfg getter;
     expect_status resp 200;
     expect_text resp ''delayed message'' })"

definition inbox_test_delete_acks_message :: "http_lib \<Rightarrow> ('r, 'x) repo_ops \<Rightarrow> (nat \<Rightarrow> 'r) \<Rightarrow> bool" where
  "inbox_test_delete_acks_message lib ops fresh =
     on_server ops fresh (config_default\<lparr>inbox_timeout := millis 50\<rparr>) (\<lambda>cfg. do {
     request_answer lib ops cfg (InboxPost ''ack-test'' no_headers (text_bytes ''to be acked''));
     resp \<leftarrow> request_answer lib ops cfg (InboxDelete ''ack-test'');
     expect_status resp 200;
     resp \<leftarrow> request_answer lib ops cfg (InboxAck ''ack-test'');
     expect_text resp ''true'';
     resp \<leftarrow> request_answer lib ops cfg (InboxGet ''ack-test'');
     expect_status resp 408;
     n \<leftarrow> l_len ops; assert_that (n = 1) })"

definition inbox_test_delete_not_found :: "http_lib \<Rightarrow> ('r, 'x) repo_ops \<Rightarrow> (nat \<Rightarrow> 'r) \<Rightarrow> bool" where
  "inbox_test_delete_not_found lib ops fresh = on_server ops fresh config_default (\<lambda>cfg. do {
     resp \<leftarrow> request_answer lib ops cfg (InboxDelete ''nonexistent'');
     expect_status resp 404 })"

definition inbox_test_ack_status_false :: "http_lib \<Rightarrow> ('r, 'x) repo_ops \<Rightarrow> (nat \<Rightarrow> 'r) \<Rightarrow> bool" where
  "inbox_test_ack_status_false lib ops fresh = on_server ops fresh config_default (\<lambda>cfg. do {
     request_answer lib ops cfg (InboxPost ''pending-ack'' no_headers (text_bytes ''pending''));
     resp \<leftarrow> request_answer lib ops cfg (InboxAck ''pending-ack'');
     expect_status resp 200;
     expect_text resp ''false'' })"

definition inbox_test_ack_status_nonexistent :: "http_lib \<Rightarrow> ('r, 'x) repo_ops \<Rightarrow> (nat \<Rightarrow> 'r) \<Rightarrow> bool" where
  "inbox_test_ack_status_nonexistent lib ops fresh = on_server ops fresh config_default (\<lambda>cfg. do {
     resp \<leftarrow> request_answer lib ops cfg (InboxAck ''nonexistent'');
     expect_status resp 404 })"

definition inbox_test_await_returns_when_acked :: "http_lib \<Rightarrow> ('r, 'x) repo_ops \<Rightarrow> (nat \<Rightarrow> 'r) \<Rightarrow> bool" where
  "inbox_test_await_returns_when_acked lib ops fresh = on_server ops fresh config_default (\<lambda>cfg. do {
     request_answer lib ops cfg (InboxPost ''await-test'' no_headers (text_bytes ''await test''));
     awaiter \<leftarrow> send lib ops cfg (InboxAwait ''await-test'');
     sleep 50;
     resp \<leftarrow> request_answer lib ops cfg (InboxDelete ''await-test'');
     expect_status resp 200;
     resp \<leftarrow> await_answer lib ops cfg awaiter;
     expect_status resp 200 })"

definition inbox_test_await_already_acked :: "http_lib \<Rightarrow> ('r, 'x) repo_ops \<Rightarrow> (nat \<Rightarrow> 'r) \<Rightarrow> bool" where
  "inbox_test_await_already_acked lib ops fresh = on_server ops fresh config_default (\<lambda>cfg. do {
     request_answer lib ops cfg (InboxPost ''pre-acked'' no_headers (text_bytes ''pre-acked''));
     request_answer lib ops cfg (InboxDelete ''pre-acked'');
     resp \<leftarrow> request_answer lib ops cfg (InboxAwait ''pre-acked'');
     expect_status resp 200 })"

definition inbox_test_await_timeout :: "http_lib \<Rightarrow> ('r, 'x) repo_ops \<Rightarrow> (nat \<Rightarrow> 'r) \<Rightarrow> bool" where
  "inbox_test_await_timeout lib ops fresh =
     on_server ops fresh (config_default\<lparr>inbox_timeout := millis 50\<rparr>) (\<lambda>cfg. do {
     request_answer lib ops cfg (InboxPost ''timeout-test'' no_headers (text_bytes ''timeout test''));
     resp \<leftarrow> request_answer lib ops cfg (InboxAwait ''timeout-test'');
     expect_status resp 408 })"

definition inbox_test_await_not_found :: "http_lib \<Rightarrow> ('r, 'x) repo_ops \<Rightarrow> (nat \<Rightarrow> 'r) \<Rightarrow> bool" where
  "inbox_test_await_not_found lib ops fresh = on_server ops fresh config_default (\<lambda>cfg. do {
     resp \<leftarrow> request_answer lib ops cfg (InboxAwait ''nonexistent'');
     expect_status resp 404 })"

definition inbox_test_await_not_triggered_by_get :: "http_lib \<Rightarrow> ('r, 'x) repo_ops \<Rightarrow> (nat \<Rightarrow> 'r) \<Rightarrow> bool" where
  "inbox_test_await_not_triggered_by_get lib ops fresh =
     on_server ops fresh (config_default\<lparr>inbox_timeout := millis 300\<rparr>) (\<lambda>cfg. do {
     resp \<leftarrow> request_answer lib ops cfg (InboxPost ''get-doesnt-ack'' no_headers (text_bytes ''test message''));
     expect_status resp 200;
     awaiter \<leftarrow> send lib ops cfg (InboxAwait ''get-doesnt-ack'');
     sleep 50;
     resp \<leftarrow> request_answer lib ops cfg (InboxGet ''get-doesnt-ack'');
     expect_status resp 200;
     expect_text resp ''test message'';
     sleep 50;
     resp \<leftarrow> request_answer lib ops cfg (InboxDelete ''get-doesnt-ack'');
     expect_status resp 200;
     resp \<leftarrow> await_answer lib ops cfg awaiter;
     expect_status resp 200 })"

definition inbox_test_content_type_preserved :: "http_lib \<Rightarrow> ('r, 'x) repo_ops \<Rightarrow> (nat \<Rightarrow> 'r) \<Rightarrow> bool" where
  "inbox_test_content_type_preserved lib ops fresh = on_server ops fresh config_default (\<lambda>cfg. do {
     request_answer lib ops cfg
       (InboxPost ''ct-test'' (with_content_type ''application/json'') (text_bytes ''{\"key\":\"value\"}''));
     resp \<leftarrow> request_answer lib ops cfg (InboxGet ''ct-test'');
     expect_status resp 200;
     expect_header lib resp ''content-type'' ''application/json'' })"

definition inbox_test_html_message_is_served_inert :: "http_lib \<Rightarrow> ('r, 'x) repo_ops \<Rightarrow> (nat \<Rightarrow> 'r) \<Rightarrow> bool" where
  "inbox_test_html_message_is_served_inert lib ops fresh = on_server ops fresh config_default (\<lambda>cfg. do {
     request_answer lib ops cfg
       (InboxPost ''html-test'' (with_content_type ''text/html'') (text_bytes ''<script>alert(1)</script>''));
     resp \<leftarrow> request_answer lib ops cfg (InboxGet ''html-test'');
     expect_status resp 200;
     expect_header lib resp ''content-type'' ''text/html'';
     expect_header lib resp ''content-security-policy'' ''sandbox'';
     expect_header lib resp ''x-content-type-options'' ''nosniff'' })"

definition inbox_test_post_overwrites_previous :: "http_lib \<Rightarrow> ('r, 'x) repo_ops \<Rightarrow> (nat \<Rightarrow> 'r) \<Rightarrow> bool" where
  "inbox_test_post_overwrites_previous lib ops fresh = on_server ops fresh config_default (\<lambda>cfg. do {
     request_answer lib ops cfg (InboxPost ''overwrite'' no_headers (text_bytes ''first''));
     request_answer lib ops cfg (InboxPost ''overwrite'' no_headers (text_bytes ''second''));
     resp \<leftarrow> request_answer lib ops cfg (InboxGet ''overwrite'');
     expect_text resp ''second'' })"

definition inbox_test_post_returns_503_when_store_is_full :: "http_lib \<Rightarrow> ('r, 'x) repo_ops \<Rightarrow> (nat \<Rightarrow> 'r) \<Rightarrow> bool" where
  "inbox_test_post_returns_503_when_store_is_full lib ops fresh =
     on_server ops fresh (config_default\<lparr>max_entries := 1\<rparr>) (\<lambda>cfg. do {
     resp \<leftarrow> request_answer lib ops cfg (InboxPost ''first'' no_headers (text_bytes ''undelivered''));
     expect_status resp 200;
     resp \<leftarrow> request_answer lib ops cfg (InboxPost ''second'' no_headers (text_bytes ''rejected''));
     expect_status resp 503;
     expect_text resp ''Server at capacity'';
     resp \<leftarrow> request_answer lib ops cfg (InboxGet ''first'');
     expect_status resp 200;
     expect_text resp ''undelivered'' })"

definition inbox_test_post_succeeds_when_full_store_has_acked_entry ::
    "http_lib \<Rightarrow> ('r, 'x) repo_ops \<Rightarrow> (nat \<Rightarrow> 'r) \<Rightarrow> bool" where
  "inbox_test_post_succeeds_when_full_store_has_acked_entry lib ops fresh =
     on_server ops fresh (config_default\<lparr>max_entries := 1\<rparr>) (\<lambda>cfg. do {
     request_answer lib ops cfg (InboxPost ''first'' no_headers (text_bytes ''delivered''));
     request_answer lib ops cfg (InboxDelete ''first'');
     resp \<leftarrow> request_answer lib ops cfg (InboxPost ''second'' no_headers (text_bytes ''accepted''));
     expect_status resp 200;
     resp \<leftarrow> request_answer lib ops cfg (InboxGet ''second'');
     expect_text resp ''accepted'' })"

definition too_long_id :: string where
  "too_long_id = replicate (max_id_length + 1) CHR ''x''"

definition inbox_test_inbox_id_too_long :: "http_lib \<Rightarrow> ('r, 'x) repo_ops \<Rightarrow> (nat \<Rightarrow> 'r) \<Rightarrow> bool" where
  "inbox_test_inbox_id_too_long lib ops fresh = on_server ops fresh config_default (\<lambda>cfg. do {
     resp \<leftarrow> request_answer lib ops cfg (InboxPost too_long_id no_headers (text_bytes ''test''));
     expect_status resp 400;
     expect_text resp ''Inbox ID too long'';
     resp \<leftarrow> request_answer lib ops cfg (InboxGet too_long_id);
     expect_status resp 400;
     resp \<leftarrow> request_answer lib ops cfg (InboxDelete too_long_id);
     expect_status resp 400;
     resp \<leftarrow> request_answer lib ops cfg (InboxAck too_long_id);
     expect_status resp 400;
     resp \<leftarrow> request_answer lib ops cfg (InboxAwait too_long_id);
     expect_status resp 400 })"

definition inbox_test_get_waiter_limit :: "http_lib \<Rightarrow> ('r, 'x) repo_ops \<Rightarrow> (nat \<Rightarrow> 'r) \<Rightarrow> bool" where
  "inbox_test_get_waiter_limit lib ops fresh =
     on_server ops fresh (config_default\<lparr>inbox_timeout := millis 100\<rparr>) (\<lambda>cfg. do {
     repeat 10 (l_get_or_subscribe ops ''waiter-limit'');
     resp \<leftarrow> request_answer lib ops cfg (InboxGet ''waiter-limit'');
     expect_status resp 503 })"

definition inbox_test_await_waiter_limit :: "http_lib \<Rightarrow> ('r, 'x) repo_ops \<Rightarrow> (nat \<Rightarrow> 'r) \<Rightarrow> bool" where
  "inbox_test_await_waiter_limit lib ops fresh =
     on_server ops fresh (config_default\<lparr>inbox_timeout := millis 100\<rparr>) (\<lambda>cfg. do {
     request_answer lib ops cfg (InboxPost ''await-limit'' no_headers (text_bytes ''limit test''));
     repeat 10 (l_subscribe_ack ops ''await-limit'');
     resp \<leftarrow> request_answer lib ops cfg (InboxAwait ''await-limit'');
     expect_status resp 503 })"

definition inbox_test_message_expires :: "http_lib \<Rightarrow> ('r, 'x) repo_ops \<Rightarrow> (nat \<Rightarrow> 'r) \<Rightarrow> bool" where
  "inbox_test_message_expires lib ops fresh =
     on_server ops fresh (config_default\<lparr>inbox_cache_ttl := millis 50, inbox_timeout := millis 50\<rparr>) (\<lambda>cfg. do {
     request_answer lib ops cfg (InboxPost ''expire-test'' no_headers (text_bytes ''ephemeral''));
     resp \<leftarrow> request_answer lib ops cfg (InboxGet ''expire-test'');
     expect_status resp 200;
     sleep 60;
     resp \<leftarrow> request_answer lib ops cfg (InboxGet ''expire-test'');
     expect_status resp 408 })"

section \<open>Link\<close>

definition link_test_delayed_producer :: "http_lib \<Rightarrow> ('r, 'x) repo_ops \<Rightarrow> (nat \<Rightarrow> 'r) \<Rightarrow> bool" where
  "link_test_delayed_producer lib ops fresh = on_server ops fresh config_default (\<lambda>cfg. do {
     consumer \<leftarrow> send lib ops cfg (LinkGet ''123'');
     sleep 200;
     producer \<leftarrow> send lib ops cfg (LinkPost ''123'' no_headers (text_bytes ''Hello, world!''));
     resp \<leftarrow> await_answer lib ops cfg consumer;
     expect_status resp 200;
     expect_text resp ''Hello, world!'';
     resp \<leftarrow> await_answer lib ops cfg producer;
     expect_status resp 200;
     acked \<leftarrow> l_is_acked ops ''123''; assert_that (acked = Some True) })"

definition link_test_delayed_consumer :: "http_lib \<Rightarrow> ('r, 'x) repo_ops \<Rightarrow> (nat \<Rightarrow> 'r) \<Rightarrow> bool" where
  "link_test_delayed_consumer lib ops fresh = on_server ops fresh config_default (\<lambda>cfg. do {
     producer \<leftarrow> send lib ops cfg (LinkPost ''123'' no_headers (text_bytes ''Hello, world!''));
     sleep 200;
     resp \<leftarrow> request_answer lib ops cfg (LinkGet ''123'');
     expect_status resp 200;
     expect_text resp ''Hello, world!'';
     resp \<leftarrow> await_answer lib ops cfg producer;
     expect_status resp 200;
     acked \<leftarrow> l_is_acked ops ''123''; assert_that (acked = Some True) })"

definition link_test_link_timeout :: "http_lib \<Rightarrow> ('r, 'x) repo_ops \<Rightarrow> (nat \<Rightarrow> 'r) \<Rightarrow> bool" where
  "link_test_link_timeout lib ops fresh =
     on_server ops fresh (config_default\<lparr>link_timeout := millis 50\<rparr>) (\<lambda>cfg. do {
     resp \<leftarrow> request_answer lib ops cfg (LinkGet ''timeout-test'');
     expect_status resp 408;
     expect_text resp ''Request timed out'';
     resp \<leftarrow> request_answer lib ops cfg (LinkPost ''timeout-test2'' no_headers (text_bytes ''Hello, world!''));
     expect_status resp 408;
     expect_text resp ''Request timed out'' })"

definition link_test_content_type_forwarding :: "http_lib \<Rightarrow> ('r, 'x) repo_ops \<Rightarrow> (nat \<Rightarrow> 'r) \<Rightarrow> bool" where
  "link_test_content_type_forwarding lib ops fresh = on_server ops fresh config_default (\<lambda>cfg. do {
     consumer \<leftarrow> send lib ops cfg (LinkGet ''ct-test'');
     sleep 50;
     producer \<leftarrow> send lib ops cfg
       (LinkPost ''ct-test'' (with_content_type ''application/json'') (text_bytes ''{\"key\":\"value\"}''));
     resp \<leftarrow> await_answer lib ops cfg consumer;
     expect_status resp 200;
     expect_text resp ''{\"key\":\"value\"}'';
     expect_header lib resp ''content-type'' ''application/json'';
     await_answer lib ops cfg producer;
     State_Monad.return () })"

definition link_test_html_message_is_served_inert :: "http_lib \<Rightarrow> ('r, 'x) repo_ops \<Rightarrow> (nat \<Rightarrow> 'r) \<Rightarrow> bool" where
  "link_test_html_message_is_served_inert lib ops fresh = on_server ops fresh config_default (\<lambda>cfg. do {
     consumer \<leftarrow> send lib ops cfg (LinkGet ''html-test'');
     sleep 50;
     producer \<leftarrow> send lib ops cfg
       (LinkPost ''html-test'' (with_content_type ''text/html'') (text_bytes ''<script>alert(1)</script>''));
     resp \<leftarrow> await_answer lib ops cfg consumer;
     expect_status resp 200;
     expect_header lib resp ''content-type'' ''text/html'';
     expect_header lib resp ''content-security-policy'' ''sandbox'';
     expect_header lib resp ''x-content-type-options'' ''nosniff'';
     await_answer lib ops cfg producer;
     State_Monad.return () })"

definition link_test_channel_id_too_long :: "http_lib \<Rightarrow> ('r, 'x) repo_ops \<Rightarrow> (nat \<Rightarrow> 'r) \<Rightarrow> bool" where
  "link_test_channel_id_too_long lib ops fresh =
     on_server ops fresh (config_default\<lparr>link_timeout := millis 50\<rparr>) (\<lambda>cfg. do {
     resp \<leftarrow> request_answer lib ops cfg (LinkGet too_long_id);
     expect_status resp 400;
     expect_text resp ''Channel ID too long'';
     resp \<leftarrow> request_answer lib ops cfg (LinkPost too_long_id no_headers (text_bytes ''test''));
     expect_status resp 400;
     expect_text resp ''Channel ID too long'';
     resp \<leftarrow> request_answer lib ops cfg (LinkGet (replicate max_id_length CHR ''x''));
     assert_that (status_as_u16 (status resp) \<noteq> 400) })"

definition link_test_get_waiter_limit :: "http_lib \<Rightarrow> ('r, 'x) repo_ops \<Rightarrow> (nat \<Rightarrow> 'r) \<Rightarrow> bool" where
  "link_test_get_waiter_limit lib ops fresh =
     on_server ops fresh (config_default\<lparr>link_timeout := millis 100\<rparr>) (\<lambda>cfg. do {
     repeat 10 (l_get_or_subscribe ops ''get-limit'');
     resp \<leftarrow> request_answer lib ops cfg (LinkGet ''get-limit'');
     expect_status resp 503 })"

definition link_test_post_at_waiting_id_limit_does_not_store_message ::
    "http_lib \<Rightarrow> ('r, 'x) repo_ops \<Rightarrow> (nat \<Rightarrow> 'r) \<Rightarrow> bool" where
  "link_test_post_at_waiting_id_limit_does_not_store_message lib ops fresh =
     on_server ops fresh (config_default\<lparr>max_entries := 1, link_timeout := millis 100\<rparr>) (\<lambda>cfg. do {
     unwrap (l_get_or_subscribe ops ''occupied'');
     resp \<leftarrow> request_answer lib ops cfg (LinkPost ''new-channel'' no_headers (text_bytes ''rejected''));
     expect_status resp 503;
     acked \<leftarrow> l_is_acked ops ''new-channel''; assert_that (acked = None) })"

definition link_test_post_returns_503_when_store_is_full :: "http_lib \<Rightarrow> ('r, 'x) repo_ops \<Rightarrow> (nat \<Rightarrow> 'r) \<Rightarrow> bool" where
  "link_test_post_returns_503_when_store_is_full lib ops fresh =
     on_server ops fresh (config_default\<lparr>max_entries := 1, link_timeout := millis 100\<rparr>) (\<lambda>cfg. do {
     resp \<leftarrow> request_answer lib ops cfg (InboxPost ''occupied'' no_headers (text_bytes ''undelivered''));
     expect_status resp 200;
     resp \<leftarrow> request_answer lib ops cfg (LinkPost ''new-channel'' no_headers (text_bytes ''rejected''));
     expect_status resp 503;
     expect_text resp ''Server at capacity'';
     resp \<leftarrow> request_answer lib ops cfg (InboxGet ''occupied'');
     expect_text resp ''undelivered'' })"

definition link_test_deprecation_header :: "http_lib \<Rightarrow> ('r, 'x) repo_ops \<Rightarrow> (nat \<Rightarrow> 'r) \<Rightarrow> bool" where
  "link_test_deprecation_header lib ops fresh =
     on_server ops fresh (config_default\<lparr>link_timeout := millis 100\<rparr>) (\<lambda>cfg. do {
     consumer \<leftarrow> send lib ops cfg (LinkGet ''deprecation-test'');
     sleep 20;
     producer \<leftarrow> send lib ops cfg (LinkPost ''deprecation-test'' no_headers (text_bytes ''test''));
     resp \<leftarrow> await_answer lib ops cfg consumer;
     expect_header lib resp ''deprecation'' ''true'';
     resp \<leftarrow> await_answer lib ops cfg producer;
     expect_header lib resp ''deprecation'' ''true'' })"

section \<open>The suites\<close>

definition inbox_suite :: "http_lib \<Rightarrow> ('r, 'x) repo_ops \<Rightarrow> (nat \<Rightarrow> 'r) \<Rightarrow> bool" where
  "inbox_suite lib ops fresh \<longleftrightarrow>
     inbox_test_post_and_get lib ops fresh \<and>
     inbox_test_get_timeout_when_no_message lib ops fresh \<and>
     inbox_test_get_long_poll_receives_message lib ops fresh \<and>
     inbox_test_delete_acks_message lib ops fresh \<and>
     inbox_test_delete_not_found lib ops fresh \<and>
     inbox_test_ack_status_false lib ops fresh \<and>
     inbox_test_ack_status_nonexistent lib ops fresh \<and>
     inbox_test_await_returns_when_acked lib ops fresh \<and>
     inbox_test_await_already_acked lib ops fresh \<and>
     inbox_test_await_timeout lib ops fresh \<and>
     inbox_test_await_not_found lib ops fresh \<and>
     inbox_test_await_not_triggered_by_get lib ops fresh \<and>
     inbox_test_content_type_preserved lib ops fresh \<and>
     inbox_test_html_message_is_served_inert lib ops fresh \<and>
     inbox_test_post_overwrites_previous lib ops fresh \<and>
     inbox_test_post_returns_503_when_store_is_full lib ops fresh \<and>
     inbox_test_post_succeeds_when_full_store_has_acked_entry lib ops fresh \<and>
     inbox_test_inbox_id_too_long lib ops fresh \<and>
     inbox_test_get_waiter_limit lib ops fresh \<and>
     inbox_test_await_waiter_limit lib ops fresh \<and>
     inbox_test_message_expires lib ops fresh"

definition link_suite :: "http_lib \<Rightarrow> ('r, 'x) repo_ops \<Rightarrow> (nat \<Rightarrow> 'r) \<Rightarrow> bool" where
  "link_suite lib ops fresh \<longleftrightarrow>
     link_test_delayed_producer lib ops fresh \<and>
     link_test_delayed_consumer lib ops fresh \<and>
     link_test_link_timeout lib ops fresh \<and>
     link_test_content_type_forwarding lib ops fresh \<and>
     link_test_html_message_is_served_inert lib ops fresh \<and>
     link_test_channel_id_too_long lib ops fresh \<and>
     link_test_get_waiter_limit lib ops fresh \<and>
     link_test_post_at_waiting_id_limit_does_not_store_message lib ops fresh \<and>
     link_test_post_returns_503_when_store_is_full lib ops fresh \<and>
     link_test_deprecation_header lib ops fresh"

lemmas inbox_tests =
  too_long_id_def
  inbox_test_post_and_get_def
  inbox_test_get_timeout_when_no_message_def
  inbox_test_get_long_poll_receives_message_def
  inbox_test_delete_acks_message_def
  inbox_test_delete_not_found_def
  inbox_test_ack_status_false_def
  inbox_test_ack_status_nonexistent_def
  inbox_test_await_returns_when_acked_def
  inbox_test_await_already_acked_def
  inbox_test_await_timeout_def
  inbox_test_await_not_found_def
  inbox_test_await_not_triggered_by_get_def
  inbox_test_content_type_preserved_def
  inbox_test_html_message_is_served_inert_def
  inbox_test_post_overwrites_previous_def
  inbox_test_post_returns_503_when_store_is_full_def
  inbox_test_post_succeeds_when_full_store_has_acked_entry_def
  inbox_test_inbox_id_too_long_def
  inbox_test_get_waiter_limit_def
  inbox_test_await_waiter_limit_def
  inbox_test_message_expires_def

lemmas link_tests =
  too_long_id_def
  link_test_delayed_producer_def
  link_test_delayed_consumer_def
  link_test_link_timeout_def
  link_test_content_type_forwarding_def
  link_test_html_message_is_served_inert_def
  link_test_channel_id_too_long_def
  link_test_get_waiter_limit_def
  link_test_post_at_waiting_id_limit_does_not_store_message_def
  link_test_post_returns_503_when_store_is_full_def
  link_test_deprecation_header_def

lemma inbox_tests_memory:
  assumes "keeps_text lib"
  shows
    "inbox_test_post_and_get lib memory_ops memory_new"
    "inbox_test_get_timeout_when_no_message lib memory_ops memory_new"
    "inbox_test_get_long_poll_receives_message lib memory_ops memory_new"
    "inbox_test_delete_acks_message lib memory_ops memory_new"
    "inbox_test_delete_not_found lib memory_ops memory_new"
    "inbox_test_ack_status_false lib memory_ops memory_new"
    "inbox_test_ack_status_nonexistent lib memory_ops memory_new"
    "inbox_test_await_returns_when_acked lib memory_ops memory_new"
    "inbox_test_await_already_acked lib memory_ops memory_new"
    "inbox_test_await_timeout lib memory_ops memory_new"
    "inbox_test_await_not_found lib memory_ops memory_new"
    "inbox_test_await_not_triggered_by_get lib memory_ops memory_new"
    "inbox_test_content_type_preserved lib memory_ops memory_new"
    "inbox_test_html_message_is_served_inert lib memory_ops memory_new"
    "inbox_test_post_overwrites_previous lib memory_ops memory_new"
    "inbox_test_post_returns_503_when_store_is_full lib memory_ops memory_new"
    "inbox_test_post_succeeds_when_full_store_has_acked_entry lib memory_ops memory_new"
    "inbox_test_inbox_id_too_long lib memory_ops memory_new"
    "inbox_test_get_waiter_limit lib memory_ops memory_new"
    "inbox_test_await_waiter_limit lib memory_ops memory_new"
    "inbox_test_message_expires lib memory_ops memory_new"
  using assms by (simp_all add: replay inbox_tests keeps_textD cong: in_turn)

lemma inbox_tests_sqlite:
  assumes "keeps_text lib"
  shows
    "inbox_test_post_and_get lib sqlite_ops (sqlite_new None)"
    "inbox_test_get_timeout_when_no_message lib sqlite_ops (sqlite_new None)"
    "inbox_test_get_long_poll_receives_message lib sqlite_ops (sqlite_new None)"
    "inbox_test_delete_acks_message lib sqlite_ops (sqlite_new None)"
    "inbox_test_delete_not_found lib sqlite_ops (sqlite_new None)"
    "inbox_test_ack_status_false lib sqlite_ops (sqlite_new None)"
    "inbox_test_ack_status_nonexistent lib sqlite_ops (sqlite_new None)"
    "inbox_test_await_returns_when_acked lib sqlite_ops (sqlite_new None)"
    "inbox_test_await_already_acked lib sqlite_ops (sqlite_new None)"
    "inbox_test_await_timeout lib sqlite_ops (sqlite_new None)"
    "inbox_test_await_not_found lib sqlite_ops (sqlite_new None)"
    "inbox_test_await_not_triggered_by_get lib sqlite_ops (sqlite_new None)"
    "inbox_test_content_type_preserved lib sqlite_ops (sqlite_new None)"
    "inbox_test_html_message_is_served_inert lib sqlite_ops (sqlite_new None)"
    "inbox_test_post_overwrites_previous lib sqlite_ops (sqlite_new None)"
    "inbox_test_post_returns_503_when_store_is_full lib sqlite_ops (sqlite_new None)"
    "inbox_test_post_succeeds_when_full_store_has_acked_entry lib sqlite_ops (sqlite_new None)"
    "inbox_test_inbox_id_too_long lib sqlite_ops (sqlite_new None)"
    "inbox_test_get_waiter_limit lib sqlite_ops (sqlite_new None)"
    "inbox_test_await_waiter_limit lib sqlite_ops (sqlite_new None)"
    "inbox_test_message_expires lib sqlite_ops (sqlite_new None)"
  using assms by (simp_all add: replay inbox_tests keeps_textD cong: in_turn)

lemma link_tests_memory:
  assumes "keeps_text lib"
  shows
    "link_test_delayed_producer lib memory_ops memory_new"
    "link_test_delayed_consumer lib memory_ops memory_new"
    "link_test_link_timeout lib memory_ops memory_new"
    "link_test_content_type_forwarding lib memory_ops memory_new"
    "link_test_html_message_is_served_inert lib memory_ops memory_new"
    "link_test_channel_id_too_long lib memory_ops memory_new"
    "link_test_get_waiter_limit lib memory_ops memory_new"
    "link_test_post_at_waiting_id_limit_does_not_store_message lib memory_ops memory_new"
    "link_test_post_returns_503_when_store_is_full lib memory_ops memory_new"
    "link_test_deprecation_header lib memory_ops memory_new"
  using assms by (simp_all add: replay link_tests keeps_textD cong: in_turn)

lemma link_tests_sqlite:
  assumes "keeps_text lib"
  shows
    "link_test_delayed_producer lib sqlite_ops (sqlite_new None)"
    "link_test_delayed_consumer lib sqlite_ops (sqlite_new None)"
    "link_test_link_timeout lib sqlite_ops (sqlite_new None)"
    "link_test_content_type_forwarding lib sqlite_ops (sqlite_new None)"
    "link_test_html_message_is_served_inert lib sqlite_ops (sqlite_new None)"
    "link_test_channel_id_too_long lib sqlite_ops (sqlite_new None)"
    "link_test_get_waiter_limit lib sqlite_ops (sqlite_new None)"
    "link_test_post_at_waiting_id_limit_does_not_store_message lib sqlite_ops (sqlite_new None)"
    "link_test_post_returns_503_when_store_is_full lib sqlite_ops (sqlite_new None)"
    "link_test_deprecation_header lib sqlite_ops (sqlite_new None)"
  using assms by (simp_all add: replay link_tests keeps_textD cong: in_turn)

lemma inbox_suites:
  assumes "keeps_text lib"
  shows "inbox_suite lib memory_ops memory_new" "inbox_suite lib sqlite_ops (sqlite_new None)"
  by (simp_all only: inbox_suite_def inbox_tests_memory[OF assms] inbox_tests_sqlite[OF assms] simp_thms)

lemma link_suites:
  assumes "keeps_text lib"
  shows "link_suite lib memory_ops memory_new" "link_suite lib sqlite_ops (sqlite_new None)"
  by (simp_all only: link_suite_def link_tests_memory[OF assms] link_tests_sqlite[OF assms] simp_thms)

end
