(* ===== verification/Test_Client_Ip.thy ===== *)
theory Test_Client_Ip
  imports Test_Harness Server_Router Http_Properties
begin

text \<open>
  The tests of \<open>client_ip.rs\<close> and \<open>main.rs\<close>.  Crate ipnet is the record \<open>net_lib\<close>, and
  \<open>net_lib_documented\<close> is what the tests rely on in it.
\<close>

section \<open>Networks\<close>

record 'net net_lib =
  net_parse :: "string \<Rightarrow> 'net option"
  net_of_ip :: "ip_addr \<Rightarrow> 'net"
  net_contains :: "'net \<Rightarrow> ip_addr \<Rightarrow> bool"

text \<open>The addresses of a network: those that agree with its address in the first \<open>n\<close> bits.\<close>

fun in_prefix :: "ip_addr \<Rightarrow> nat \<Rightarrow> ip_addr \<Rightarrow> bool" where
  "in_prefix (V4 a) n (V4 b) \<longleftrightarrow> drop_bit (32 - n) a = drop_bit (32 - n) b"
| "in_prefix (V6 a) n (V6 b) \<longleftrightarrow> drop_bit (128 - n) a = drop_bit (128 - n) b"
| "in_prefix _ n _ \<longleftrightarrow> False"

text \<open>
  A text without a slash is no network.  The networks that the tests name exist and contain the
  addresses with their prefix; \<open>From<IpAddr>\<close> makes the network of one address.
\<close>

definition net_lib_documented :: "'net net_lib \<Rightarrow> bool" where
  "net_lib_documented nets \<longleftrightarrow>
     (\<forall>s. CHR ''/'' \<notin> set s \<longrightarrow> net_parse nets s = None) \<and>
     (\<forall>a b. net_contains nets (net_of_ip nets a) b \<longleftrightarrow> a = b) \<and>
     (\<exists>n. net_parse nets ''10.0.0.0/8'' = Some n \<and> (\<forall>b. net_contains nets n b \<longleftrightarrow> in_prefix (V4 0x0A000000) 8 b)) \<and>
     (\<exists>n. net_parse nets ''192.0.2.0/24'' = Some n \<and> (\<forall>b. net_contains nets n b \<longleftrightarrow> in_prefix (V4 0xC0000200) 24 b)) \<and>
     net_parse nets ''127.0.0.1/32'' = Some (net_of_ip nets (V4 0x7F000001)) \<and>
     net_parse nets ''::1/128'' = Some (net_of_ip nets (V6 1))"

section \<open>Helpers\<close>

definition ip_of :: "string \<Rightarrow> ip_addr" where
  "ip_of v = the (parse_ip v)"

definition nginx_ip :: string where
  "nginx_ip = ''127.0.0.1''"

definition the_client_ip :: string where
  "the_client_ip = ''198.51.100.8''"

definition trusted :: "'net net_lib \<Rightarrow> string list \<Rightarrow> 'net trusted_proxies" where
  "trusted nets networks =
     map (\<lambda>network. case net_parse nets network of Some n \<Rightarrow> n | None \<Rightarrow> net_of_ip nets (ip_of network)) networks"

definition forwarded_for :: "string list \<Rightarrow> bytes list" where
  "forwarded_for lines = map text_bytes lines"

text \<open>\<open>proxies.client_ip(ip(peer), &headers)\<close>\<close>

definition client_of ::
    "http_lib \<Rightarrow> 'net net_lib \<Rightarrow> 'net trusted_proxies \<Rightarrow> string \<Rightarrow> bytes list \<Rightarrow> forwarded_for_error + ip_addr" where
  "client_of lib nets proxies peer lines = client_ip (to_str lib) (net_contains nets) proxies (ip_of peer) lines"

section \<open>\<open>TrustedProxies::client_ip\<close>\<close>

definition without_trusted_proxies_the_peer_is_the_client :: "http_lib \<Rightarrow> 'net net_lib \<Rightarrow> bool" where
  "without_trusted_proxies_the_peer_is_the_client lib nets \<longleftrightarrow>
     client_of lib nets [] nginx_ip (forwarded_for [the_client_ip]) = Inr (ip_of nginx_ip)"

definition untrusted_peer_is_the_client_and_its_header_is_ignored :: "http_lib \<Rightarrow> 'net net_lib \<Rightarrow> bool" where
  "untrusted_peer_is_the_client_and_its_header_is_ignored lib nets \<longleftrightarrow>
     client_of lib nets (trusted nets [''192.0.2.0/24'']) ''203.0.113.9'' (forwarded_for [the_client_ip]) =
     Inr (ip_of ''203.0.113.9'')"

definition trusted_proxy_entry_is_the_client :: "http_lib \<Rightarrow> 'net net_lib \<Rightarrow> bool" where
  "trusted_proxy_entry_is_the_client lib nets \<longleftrightarrow>
     client_of lib nets (trusted nets [nginx_ip]) nginx_ip (forwarded_for [the_client_ip]) = Inr (ip_of the_client_ip)"

definition rightmost_entry_wins_over_entries_forged_by_the_client :: "http_lib \<Rightarrow> 'net net_lib \<Rightarrow> bool" where
  "rightmost_entry_wins_over_entries_forged_by_the_client lib nets \<longleftrightarrow>
     client_of lib nets (trusted nets [nginx_ip]) nginx_ip (forwarded_for [''6.6.6.6, 198.51.100.8'']) =
     Inr (ip_of the_client_ip)"

definition entries_left_of_the_client_are_not_parsed :: "http_lib \<Rightarrow> 'net net_lib \<Rightarrow> bool" where
  "entries_left_of_the_client_are_not_parsed lib nets \<longleftrightarrow>
     client_of lib nets (trusted nets [nginx_ip]) nginx_ip (forwarded_for [''unknown, 198.51.100.8'']) =
     Inr (ip_of the_client_ip)"

definition trusted_proxies_in_a_chain_are_skipped :: "http_lib \<Rightarrow> 'net net_lib \<Rightarrow> bool" where
  "trusted_proxies_in_a_chain_are_skipped lib nets \<longleftrightarrow>
     client_of lib nets (trusted nets [nginx_ip, ''10.0.0.0/8'']) nginx_ip
       (forwarded_for [''6.6.6.6, 198.51.100.8, 10.0.0.5'']) = Inr (ip_of the_client_ip)"

definition several_header_lines_form_one_list_in_order :: "http_lib \<Rightarrow> 'net net_lib \<Rightarrow> bool" where
  "several_header_lines_form_one_list_in_order lib nets \<longleftrightarrow>
     client_of lib nets (trusted nets [nginx_ip, ''10.0.0.0/8'']) nginx_ip
       (forwarded_for [''6.6.6.6'', ''198.51.100.8'', ''10.0.0.5'']) = Inr (ip_of the_client_ip)"

definition leftmost_entry_is_the_client_when_all_entries_are_trusted :: "http_lib \<Rightarrow> 'net net_lib \<Rightarrow> bool" where
  "leftmost_entry_is_the_client_when_all_entries_are_trusted lib nets \<longleftrightarrow>
     client_of lib nets (trusted nets [nginx_ip, ''10.0.0.0/8'']) nginx_ip
       (forwarded_for [''10.0.0.7, 10.0.0.5'']) = Inr (ip_of ''10.0.0.7'')"

definition ipv6_entries_and_peers_work :: "http_lib \<Rightarrow> 'net net_lib \<Rightarrow> bool" where
  "ipv6_entries_and_peers_work lib nets \<longleftrightarrow>
     client_of lib nets (trusted nets [''::1'']) ''::1'' (forwarded_for [''2001:db8::8'']) = Inr (ip_of ''2001:db8::8'')"

definition ipv4_mapped_peer_matches_ipv4_network :: "http_lib \<Rightarrow> 'net net_lib \<Rightarrow> bool" where
  "ipv4_mapped_peer_matches_ipv4_network lib nets \<longleftrightarrow>
     client_of lib nets (trusted nets [nginx_ip]) ''::ffff:127.0.0.1'' (forwarded_for [the_client_ip]) =
     Inr (ip_of the_client_ip)"

definition ipv4_mapped_untrusted_peer_is_returned_as_ipv4 :: "http_lib \<Rightarrow> 'net net_lib \<Rightarrow> bool" where
  "ipv4_mapped_untrusted_peer_is_returned_as_ipv4 lib nets \<longleftrightarrow>
     client_of lib nets (trusted nets [nginx_ip]) ''::ffff:198.51.100.8'' [] = Inr (ip_of the_client_ip)"

definition trusted_proxy_without_entries_is_an_error :: "http_lib \<Rightarrow> 'net net_lib \<Rightarrow> bool" where
  "trusted_proxy_without_entries_is_an_error lib nets \<longleftrightarrow>
     client_of lib nets (trusted nets [nginx_ip]) nginx_ip [] = Inl Missing \<and>
     client_of lib nets (trusted nets [nginx_ip]) nginx_ip (forwarded_for ['''']) = Inl Missing"

definition entry_that_is_not_an_ip_address_is_an_error :: "http_lib \<Rightarrow> 'net net_lib \<Rightarrow> bool" where
  "entry_that_is_not_an_ip_address_is_an_error lib nets \<longleftrightarrow>
     client_of lib nets (trusted nets [nginx_ip]) nginx_ip (forwarded_for [''198.51.100.8:4242'']) =
     Inl (NotAnIpAddress ''198.51.100.8:4242'')"

definition entry_with_non_ascii_bytes_is_an_error_with_the_bytes_escaped :: "http_lib \<Rightarrow> 'net net_lib \<Rightarrow> bool" where
  "entry_with_non_ascii_bytes_is_an_error_with_the_bytes_escaped lib nets \<longleftrightarrow>
     client_of lib nets (trusted nets [nginx_ip]) nginx_ip [text_bytes ''198.51.100.8'' @ [0xE9]] =
     Inl (NotAnIpAddress (''198.51.100.8'' @ [CHR 0x5C] @ ''xe9''))"

section \<open>The middleware\<close>

text \<open>\<open>serve_client_ip\<close>: a server whose handler answers with the address it was given.\<close>

definition serve_client_ip ::
    "http_lib \<Rightarrow> 'net net_lib \<Rightarrow> 'net trusted_proxies \<Rightarrow> header_map \<Rightarrow> status_code \<times> ip_addr option" where
  "serve_client_ip lib nets proxies headers =
     identify_client lib (\<lambda>st text. (st, None)) (net_contains nets) proxies (ip_of nginx_ip) headers
       (\<lambda>ip. (STATUS_OK, Some ip))"

definition middleware_adds_client_ip_from_trusted_proxy :: "http_lib \<Rightarrow> 'net net_lib \<Rightarrow> bool" where
  "middleware_adds_client_ip_from_trusted_proxy lib nets \<longleftrightarrow>
     serve_client_ip lib nets (trusted nets [nginx_ip]) (no_headers(''x-forwarded-for'' := [text_bytes the_client_ip])) =
     (STATUS_OK, Some (ip_of the_client_ip))"

definition middleware_rejects_trusted_proxy_without_header :: "http_lib \<Rightarrow> 'net net_lib \<Rightarrow> bool" where
  "middleware_rejects_trusted_proxy_without_header lib nets \<longleftrightarrow>
     fst (serve_client_ip lib nets (trusted nets [nginx_ip]) no_headers) = BAD_REQUEST"

section \<open>The command line\<close>

definition test_parse_network_accepts_cidr_and_bare_ip :: "'net net_lib \<Rightarrow> bool" where
  "test_parse_network_accepts_cidr_and_bare_ip nets \<longleftrightarrow>
     (let parse = parse_network (net_parse nets) (net_of_ip nets) in
      parse ''10.0.0.0/8'' = Inr (the (net_parse nets ''10.0.0.0/8'')) \<and>
      parse ''127.0.0.1'' = Inr (the (net_parse nets ''127.0.0.1/32'')) \<and>
      parse ''::1'' = Inr (the (net_parse nets ''::1/128'')) \<and>
      \<not> is_ok (parse ''localhost''))"

definition test_quiet_overrides_verbose :: bool where
  "test_quiet_overrides_verbose \<longleftrightarrow> log_level 3 True = OFF"

definition test_default_is_warn :: bool where
  "test_default_is_warn \<longleftrightarrow> log_level 0 False = WARN"

definition test_verbose_info :: bool where
  "test_verbose_info \<longleftrightarrow> log_level 1 False = INFO"

definition test_verbose_debug :: bool where
  "test_verbose_debug \<longleftrightarrow> log_level 2 False = DEBUG"

definition test_verbose_trace :: bool where
  "test_verbose_trace \<longleftrightarrow> log_level 3 False = TRACE"

section \<open>Addresses that the tests name\<close>

lemmas read_numerals =
  read_octets.simps(2)[of "pred_numeral n" for n, folded numeral_eq_Suc]
  read_groups.simps(2)[of "pred_numeral n" for n, folded numeral_eq_Suc]

lemma replicate_by_numeral: "replicate (numeral n) x = x # replicate (pred_numeral n) x"
  by (simp add: numeral_eq_Suc)

lemmas parse_defs =
  parse_ip_def read_ipv4_addr_def read_ipv6_addr_def read_given_char_def read_separator_def read_number_def
  to_digit_def from_groups_def Let_def read_numerals replicate_by_numeral

lemma parsed_v4:
  "parse_ip ''127.0.0.1'' = Some (V4 0x7F000001)"
  "parse_ip ''198.51.100.8'' = Some (V4 0xC6336408)"
  "parse_ip ''203.0.113.9'' = Some (V4 0xCB007109)"
  "parse_ip ''10.0.0.5'' = Some (V4 0x0A000005)"
  "parse_ip ''10.0.0.7'' = Some (V4 0x0A000007)"
  by (simp_all add: parse_defs cong: in_turn)

lemma parsed_v6:
  "parse_ip ''::1'' = Some (V6 1)"
  "parse_ip ''2001:db8::8'' = Some (V6 0x20010DB8000000000000000000000008)"
  "parse_ip ''::ffff:127.0.0.1'' = Some (V6 0xFFFF7F000001)"
  "parse_ip ''::ffff:198.51.100.8'' = Some (V6 0xFFFFC6336408)"
  by (simp_all add: parse_defs cong: in_turn)

lemma not_parsed:
  "parse_ip ''198.51.100.8:4242'' = None" "parse_ip ''localhost'' = None"
  by (simp_all add: parse_defs cong: in_turn)

lemmas parsed = parsed_v4 parsed_v6 not_parsed

section \<open>The suites\<close>

text \<open>A header value with a byte that is not visible ASCII is no text (\<open>HeaderValue::to_str\<close>).\<close>

definition refuses_bytes :: "http_lib \<Rightarrow> bool" where
  "refuses_bytes lib \<longleftrightarrow> (\<forall>bs. list_ex (\<lambda>b. 127 \<le> b) bs \<longrightarrow> to_str lib bs = None)"

definition client_ip_suite :: "http_lib \<Rightarrow> 'net net_lib \<Rightarrow> bool" where
  "client_ip_suite lib nets \<longleftrightarrow>
     without_trusted_proxies_the_peer_is_the_client lib nets \<and>
     untrusted_peer_is_the_client_and_its_header_is_ignored lib nets \<and>
     trusted_proxy_entry_is_the_client lib nets \<and>
     rightmost_entry_wins_over_entries_forged_by_the_client lib nets \<and>
     entries_left_of_the_client_are_not_parsed lib nets \<and>
     trusted_proxies_in_a_chain_are_skipped lib nets \<and>
     several_header_lines_form_one_list_in_order lib nets \<and>
     leftmost_entry_is_the_client_when_all_entries_are_trusted lib nets \<and>
     ipv6_entries_and_peers_work lib nets \<and>
     ipv4_mapped_peer_matches_ipv4_network lib nets \<and>
     ipv4_mapped_untrusted_peer_is_returned_as_ipv4 lib nets \<and>
     trusted_proxy_without_entries_is_an_error lib nets \<and>
     entry_that_is_not_an_ip_address_is_an_error lib nets \<and>
     entry_with_non_ascii_bytes_is_an_error_with_the_bytes_escaped lib nets \<and>
     middleware_adds_client_ip_from_trusted_proxy lib nets \<and>
     middleware_rejects_trusted_proxy_without_header lib nets"

definition main_suite :: "'net net_lib \<Rightarrow> bool" where
  "main_suite nets \<longleftrightarrow>
     test_parse_network_accepts_cidr_and_bare_ip nets \<and> test_quiet_overrides_verbose \<and>
     test_default_is_warn \<and>
     test_verbose_info \<and>
     test_verbose_debug \<and>
     test_verbose_trace"

lemmas client_ip_tests =
  without_trusted_proxies_the_peer_is_the_client_def
  untrusted_peer_is_the_client_and_its_header_is_ignored_def
  trusted_proxy_entry_is_the_client_def
  rightmost_entry_wins_over_entries_forged_by_the_client_def
  entries_left_of_the_client_are_not_parsed_def
  trusted_proxies_in_a_chain_are_skipped_def
  several_header_lines_form_one_list_in_order_def
  leftmost_entry_is_the_client_when_all_entries_are_trusted_def
  ipv6_entries_and_peers_work_def
  ipv4_mapped_peer_matches_ipv4_network_def
  ipv4_mapped_untrusted_peer_is_returned_as_ipv4_def
  trusted_proxy_without_entries_is_an_error_def
  entry_that_is_not_an_ip_address_is_an_error_def
  entry_with_non_ascii_bytes_is_an_error_with_the_bytes_escaped_def
  middleware_adds_client_ip_from_trusted_proxy_def
  middleware_rejects_trusted_proxy_without_header_def

lemma trusted_simps:
  assumes "net_lib_documented nets"
  obtains ten net24 where
    "trusted nets [] = []"
    "\<And>ns. trusted nets (''127.0.0.1'' # ns) = net_of_ip nets (V4 0x7F000001) # trusted nets ns"
    "\<And>ns. trusted nets (''::1'' # ns) = net_of_ip nets (V6 1) # trusted nets ns"
    "\<And>ns. trusted nets (''10.0.0.0/8'' # ns) = ten # trusted nets ns"
    "\<And>ns. trusted nets (''192.0.2.0/24'' # ns) = net24 # trusted nets ns"
    "\<And>b. net_contains nets ten b \<longleftrightarrow> in_prefix (V4 0x0A000000) 8 b"
    "\<And>b. net_contains nets net24 b \<longleftrightarrow> in_prefix (V4 0xC0000200) 24 b"
    "\<And>a b. net_contains nets (net_of_ip nets a) b \<longleftrightarrow> a = b"
proof -
  have none: "net_parse nets ''127.0.0.1'' = None" "net_parse nets ''::1'' = None"
    using assms by (simp_all add: net_lib_documented_def)
  show thesis
    using assms none
    by (auto simp: net_lib_documented_def trusted_def ip_of_def parsed intro!: that)
qed

lemma keeps_empty: "keeps_text lib \<Longrightarrow> to_str lib [] = Some []"
  using keeps_textD(1)[of lib "[]"] by simp

lemmas client_ip_eval =
  client_of_def client_ip_def contains_ip_def forwarded_for_def ip_of_def nginx_ip_def the_client_ip_def
  parsed keeps_textD keeps_empty visible_ascii_def line_entries_def trim_def is_whitespace_def

lemma escaped_bytes:
  "escape_ascii (text_bytes ''198.51.100.8'' @ [0xE9]) = ''198.51.100.8'' @ [CHR 0x5C] @ ''xe9''"
  by (simp add: text_bytes_def escape_ascii_def escape_ascii_byte_def hex_digit_def Let_def char_of_def bit_Suc_0_iff)

lemma client_ip_suites:
  assumes "keeps_text lib" and "refuses_bytes lib" and "net_lib_documented nets"
  shows "client_ip_suite lib nets"
proof -
  have r: "to_str lib (text_bytes ''198.51.100.8'' @ [0xE9]) = None"
    using assms(2) by (simp add: refuses_bytes_def)
  from assms(3) show ?thesis
  proof (rule trusted_simps, goal_cases)
    case (1 ten net24)
    with assms(1) r show ?case
      unfolding client_ip_suite_def
      by (intro conjI) (simp_all add: client_ip_tests client_ip_eval escaped_bytes serve_client_ip_def
          identify_client_def no_headers_def)
  qed
qed

lemma main_suites: "net_lib_documented nets \<Longrightarrow> main_suite nets"
  by (auto simp: main_suite_def test_parse_network_accepts_cidr_and_bare_ip_def Let_def parse_network_def
      net_lib_documented_def parsed log_level_def test_quiet_overrides_verbose_def test_default_is_warn_def test_verbose_info_def test_verbose_debug_def test_verbose_trace_def)

text \<open>Sample networks: an address and the length of its prefix.\<close>

fun sample_net_of_ip :: "ip_addr \<Rightarrow> ip_addr \<times> nat" where
  "sample_net_of_ip (V4 a) = (V4 a, 32)"
| "sample_net_of_ip (V6 a) = (V6 a, 128)"

definition sample_nets :: "(ip_addr \<times> nat) net_lib" where
  "sample_nets = \<lparr>net_parse = map_of
       [(''10.0.0.0/8'', (V4 0x0A000000, 8)), (''192.0.2.0/24'', (V4 0xC0000200, 24)),
        (''127.0.0.1/32'', (V4 0x7F000001, 32)), (''::1/128'', (V6 1, 128))],
     net_of_ip = sample_net_of_ip, net_contains = (\<lambda>(a, n). in_prefix a n)\<rparr>"

lemma sample_nets_documented: "net_lib_documented sample_nets"
proof -
  have "in_prefix a' n b \<longleftrightarrow> a = b" if "sample_net_of_ip a = (a', n)" for a b a' n
    using that by (cases a; cases b) auto
  then have "net_contains sample_nets (net_of_ip sample_nets a) b \<longleftrightarrow> a = b" for a b
    by (simp add: sample_nets_def split: prod.split)
  moreover have "net_parse sample_nets s = None" if "CHR ''/'' \<notin> set s" for s
  proof -
    have "s \<notin> {''10.0.0.0/8'', ''192.0.2.0/24'', ''127.0.0.1/32'', ''::1/128''}"
      using that by (elim contrapos_nn insertE) simp_all
    then show ?thesis by (simp add: sample_nets_def map_of_eq_None_iff)
  qed
  ultimately show ?thesis
    by (simp add: net_lib_documented_def sample_nets_def)
qed

text \<open>The sample library of \<open>Http_Properties\<close> behaves as documented.\<close>

lemma unat_of_char: "unat (of_char c :: 8 word) = of_char c"
proof -
  have "unat (of_nat (of_char c) :: 8 word) = of_char c"
    by (simp only: unat_of_nat) (simp add: take_bit_nat_eq_self_iff)
  then show ?thesis by (simp only: of_nat_of_char)
qed

lemma visible_byte:
  "visible_ascii c \<Longrightarrow> 32 \<le> (of_char c :: 8 word)" "visible_ascii c \<Longrightarrow> (of_char c :: 8 word) < 127"
  "char_of (unat (of_char c :: 8 word)) = c"
  by (simp_all add: visible_ascii_def word_le_nat_alt word_less_nat_alt unat_of_char)

lemma sample_lib_text: "keeps_text sample_lib" "refuses_bytes sample_lib"
proof -
  have "list_all (\<lambda>b. 32 \<le> b \<and> b < 127) (text_bytes s) \<and> map (\<lambda>b. char_of (unat b)) (text_bytes s) = s"
    if "list_all visible_ascii s" for s
    using that by (induction s) (simp_all add: text_bytes_def visible_byte)
  then show "keeps_text sample_lib" by (simp add: keeps_text_def sample_lib_def text_bytes_def)
  show "refuses_bytes sample_lib" by (auto simp: refuses_bytes_def sample_lib_def list_all_iff list_ex_iff)
qed

end
