(* ===== verification/Spec2Isabelle.thy ===== *)
theory Spec2Isabelle
  imports Relay_Properties Relay_Refines Test_Waiting_List Test_Storage Test_Handlers Test_Client_Ip
begin

text \<open>
  \<^bold>\<open>HTTP relay: model and verification\<close>

  The relay stores messages under IDs until a consumer acknowledges them.  Producers POST to
  /inbox/{id} and may wait for the ACK; consumers GET, waiting if there is nothing yet, and
  acknowledge with DELETE.  /link/{id} is the older synchronous handoff on top of the same store.
  All handlers share one \<open>WaitingList\<close> behind an async mutex; it owns an \<open>EntryRepository\<close> and the
  oneshot senders of the requests that wait.  A background task cleans up every 15 seconds.

  \<^bold>\<open>Theories\<close>, in the order of import:

  \<^item> \<open>Relay_Prelude\<close>: machine types (\<open>i64\<close> as \<open>64 word\<close> read with \<open>sint\<close>, durations in nanoseconds),
    hash maps as association lists with distinct keys.
  \<^item> \<open>Relay_Types\<close>: \<open>Message\<close>, \<open>StoredEntry\<close> and the error enums (types.rs, waiting_list.rs);
    \<open>env\<close>, what one operation reads from outside: every clock reading, which SQL statements fail,
    scan orders, and which receivers are gone.
  \<^item> \<open>Storage_Spec\<close>: the contract of \<open>EntryRepository\<close> as locales \<open>entry_reader\<close> and \<open>entry_store\<close>
    over the abstract content \<open>string \<rightharpoonup> stored_entry\<close>.
  \<^item> \<open>Storage_Sqlite\<close> (persistence.rs, one definition per SQL statement) and \<open>Storage_Memory\<close>
    (storage_memory.rs): both back ends, each with its interpretation of the contract.
    \<open>Storage_Agreement\<close>: the two side by side, with \<open>same_content\<close> kept by every operation.
  \<^item> \<open>Waiters\<close>, \<open>Waiting_List\<close>: \<open>struct Waiters\<close> and \<open>struct WaitingList\<close> (waiting_list.rs), one
    function per method; what a method does to channels is the list of signals it returns.
  \<^item> \<open>Waiting_List_Invariants\<close>, \<open>Waiting_List_Correct\<close>, \<open>Waiting_List_Signals\<close>: the invariant
    \<open>wl_inv\<close>, conservation of channels (\<open>balanced\<close>), no unserved message (\<open>served\<close>), what every
    method does on each of its branches, and what becomes of each waiter (\<open>carried\<close>); all proved
    once in the context of the contract.
  \<^item> \<open>Client_Ip\<close>, \<open>Server_Config\<close>, \<open>Http_Response\<close>, \<open>Inbox_Handler\<close>, \<open>Link_Handler\<close>,
    \<open>Server_Router\<close>: client_ip.rs, the configuration and router of server.rs with main.rs,
    response.rs, and the handlers, cut at their await points.
  \<^item> \<open>Relay_System\<close>: the relay as a transition system whose steps are the lock sections, wake-ups,
    time-outs, disconnections and clean-ups; \<open>Relay_Safety\<close>, \<open>Relay_Correct\<close>, \<open>Relay_Answers\<close>: its
    invariant \<open>relay_inv\<close> and what answers mean.
  \<^item> \<open>Simulation\<close>: runs and forward simulation, as a locale.  \<open>Relay_Spec\<close>: what the relay promises,
    as a mailbox without channels or locks.  \<open>Relay_Refines\<close>: the simulation, interpreted for both back ends.
    \<open>Relay_Progress\<close>: a rank that bounds the steps of a request.
  \<^item> \<open>Relay_Machine\<close>: an executable scheduler for the transition system, in the state monad; its
    scripts only do what the system can do (\<open>replays\<close>).  \<open>Server_Run\<close>: \<open>HttpRelay::start\<close>, its
    clean-up task, shutdown and URLs.
  \<^item> \<open>Test_Harness\<close>, \<open>Test_Waiting_List\<close>, \<open>Test_Storage\<close>, \<open>Test_Handlers\<close>, \<open>Test_Client_Ip\<close>: the
    tests of the repository as scripts and propositions about the model.  That the model passes them
    is a conformance check of the definitions, stated as lemmas; it is not among the properties.
  \<^item> \<open>Storage_Properties\<close>, \<open>Waiting_List_Properties\<close>, \<open>Http_Properties\<close>, \<open>Relay_Properties\<close> and
    this theory: the properties C1 to C40 with their witnesses at sample states.

  \<^bold>\<open>What is proved.\<close>  Storage: the exact admission rule, undelivered messages survive every
  insertion, expired and then the oldest acknowledged entries make room, the two back ends keep the
  same content.  Waiting list: exact outcome of each method, also when a statement fails, waiter
  limits, expiry arithmetic.  System: with either back end it refines the abstract mailbox; answers
  to consumers and producers are truthful in every interleaving, no wake-up is lost, no handler
  panics, every request ends with an answer after at most two further steps and by the timeout of
  its endpoint, memory is bounded, each clean-up round reclaims what expired, undelivered messages
  survive a restart on the same database file.  HTTP: protective headers, ID limit, store and
  forward, client identification.  \<open>link_get_acks_undelivered\<close> and \<open>ttl_wraps\<close> show two defects.
  The properties of the whole system are stated for SQLite, the default back end, from any content
  of the database file; where one assumes that no SQL statement fails, its text says so.

  \<^bold>\<open>Modelling decisions.\<close>  No fuel is needed: every loop of the program is structural, but for the
  endless one of the clean-up task, of which \<open>cleanup_task\<close> runs a given number of rounds.  A failed SQL
  statement changes nothing.  Arithmetic on \<open>i64\<close> wraps, as in a release build.  The transition system
  \<open>step\<close> models what tokio does with the tasks of the server, not a function of the source: its
  steps run the handlers between their await points in any order, one at a time because all of
  them take the same mutex, and a lock is always granted.  In it a deadline may pass at any time, but
  a value that is already in the channel wins, as in \<open>tokio::time::timeout\<close>; the scheduler
  of \<open>Relay_Machine\<close> keeps the deadlines that the handlers set (\<open>task_timeout\<close>).  The clock does not
  run backwards between steps.  The http, axum, ipnet and url crates are parameters (\<open>http_lib\<close>,
  \<open>net_lib\<close>, \<open>url_lib\<close>); what is used of them is a named hypothesis (\<open>values_reparse\<close>,
  \<open>keeps_text\<close>, \<open>refuses_bytes\<close>, \<open>net_lib_documented\<close>).  Sockets are inputs (\<open>net_io\<close>).

  \<^bold>\<open>Not modelled:\<close> TLS, the HTTP parser, path matching, the enforcement of the body limit and the CORS
  headers, which are library calls, and with them the tests of server.rs, which are about HTTP
  exchanges; what clap does with the command line; log output; the test
  \<open>test_secure_delete_is_enabled\<close>, which asks SQLite for a pragma; and mutex poisoning, which needs a
  panic that \<open>never_panics\<close> excludes for handlers.

  A run starts with \<open>relay_start\<close> on a repository: for the in-memory back end an empty one, for
  SQLite the content of the database file, with \<open>P\<close> and \<open>K\<close> accounting for the messages and
  acknowledgements in it (\<open>entries_known\<close>).
\<close>

section \<open>Refinement\<close>

text \<open>C3.  The relay implements \<open>Relay_Spec\<close>: while the store works, every run from a
  database file, however its requests interleave, looks from outside like a run of the specification
  from the same content, event by event, with the same answers.  In the specification a POST reaches
  everyone who waits in one step, and there are no channels, waiter maps or locks.\<close>

theorem relay_refines_spec:
  assumes "sqlite_invar db" and "entries_known (sqlite_view db) P K"
    and "trace (step lib sqlite_ops cfg sqlite_view True) (relay_start sqlite_ops db now P K) evs s"
  shows "\<exists>fs. trace (spec_step lib cfg) (spec_start (sqlite_view db) (sqlite_max_entries db) now) fs (abs_relay sqlite_view s) \<and>
    list_all2 matches evs fs"
  using sqlite_sim.simulate_trace[OF assms(3) sqlite.start_inv[OF assms(1,2)]]
  by (simp add: abs_relay_start)

lemma relay_refines_spec_witness:
  "\<exists>evs fs s. trace (step sample_lib sqlite_ops sample_cfg sqlite_view True) sample_start evs s \<and> evs \<noteq> [] \<and>
     trace (spec_step sample_lib sample_cfg) (spec_start (sqlite_view sample_db) 2 0) fs (abs_relay sqlite_view s) \<and>
     list_all2 matches evs fs"
proof -
  obtain ev s where "step sample_lib sqlite_ops sample_cfg sqlite_view True sample_start ev s"
    using step.ticks[of sample_start] by blast
  then have t: "trace (step sample_lib sqlite_ops sample_cfg sqlite_view True) sample_start [ev] s" by (rule trace_single)
  from relay_refines_spec[OF sample_db_ok sample_db_known t[unfolded sample_start_def]] t show ?thesis
    by (auto simp: sample_db_max)
qed

text \<open>C17.  The relay without a database implements the same \<open>Relay_Spec\<close>: every run with the
  in-memory back end from its empty store looks from outside like a run of the specification from the
  empty mailbox, event by event, with the same answers.\<close>

theorem memory_refines_spec:
  assumes "trace (step lib memory_ops cfg memory_view True) (relay_start memory_ops (memory_new n) now {} {}) evs s"
  shows "\<exists>fs. trace (spec_step lib cfg) (spec_start Map.empty n now) fs (abs_relay memory_view s) \<and>
    list_all2 matches evs fs"
proof -
  have "memory_view (memory_new n) = Map.empty"
    by (simp add: memory_view_def map_view_def memory_new_def fun_eq_iff)
  moreover have "memory_max_entries (memory_new n) = n" by (simp add: memory_new_def)
  ultimately show ?thesis
    using memory_sim.simulate_trace[OF assms memory.start_inv[OF memory_new_ok]] by (simp add: abs_relay_start)
qed

text \<open>The first POST to an empty relay.\<close>

lemma memory_refines_spec_witness:
  "\<exists>resp fs s. trace (step sample_lib memory_ops sample_cfg memory_view True) (relay_start memory_ops (memory_new 2) 0 {} {})
       [Began 0 (InboxPost ''k'' sample_headers [1]) (Answer resp)] s \<and> status resp = STATUS_OK \<and>
     trace (spec_step sample_lib sample_cfg) (spec_start Map.empty 2 0) fs (abs_relay memory_view s) \<and>
     list_all2 matches [Began 0 (InboxPost ''k'' sample_headers [1]) (Answer resp)] fs"
proof -
  let ?s = "relay_start memory_ops (memory_new 2) 0 {} {}"
  let ?e = "calm_env (clock ?s) 0 (gone ?s) :: (string \<times> entry) env"
  obtain wl' sigs p where b: "begin_request sample_lib memory_ops sample_cfg ?e ?e (next_chan ?s)
      (InboxPost ''k'' sample_headers [1]) (waiting ?s) = (wl', sigs, p)" by (metis prod_cases3)
  have p: "p = Answer (into_response sample_lib STATUS_OK [])"
    using b by (auto simp: relay_start_def waiting_list_new_def inbox_post_def validate_id_length_def max_id_length_def
        store_def memory_insert_def memory_make_room_def memory_new_def hm_contains_def split: prod.splits)
  have "tasks ?s 0 = None" by (simp add: relay_start_def)
  from calm_begins[OF this refl b] p obtain s where "step sample_lib memory_ops sample_cfg memory_view True ?s
      (Began 0 (InboxPost ''k'' sample_headers [1]) (Answer (into_response sample_lib STATUS_OK []))) s" by blast
  then have tr: "trace (step sample_lib memory_ops sample_cfg memory_view True) ?s
      [Began 0 (InboxPost ''k'' sample_headers [1]) (Answer (into_response sample_lib STATUS_OK []))] s"
    by (rule trace_single)
  have "status (into_response sample_lib STATUS_OK []) = STATUS_OK" by simp
  with tr memory_refines_spec[OF tr] show ?thesis by blast
qed

section \<open>Every request ends\<close>

text \<open>C11.  Once a request has arrived it takes at most two further steps of its own, with
  either back end and whatever fails, and after two it is over: no request goes on for ever.\<close>

theorem request_terminates:
  assumes "trace (step lib ops cfg view dep) s evs s'" and "\<forall>ev \<in> set evs. \<not> begins_of r ev"
  shows "length (filter (steps_of r) evs) \<le> 2 \<and> (length (filter (steps_of r) evs) = 2 \<longrightarrow> tasks s' r = None)"
proof -
  have "tasks s' r \<noteq> None \<Longrightarrow> 0 < task_rank (tasks s' r)"
    by (cases "tasks s' r" rule: task_rank.cases) auto
  then show ?thesis
    using request_steps[OF assms] task_rank_le[of "tasks s r"] by force
qed

lemma request_terminates_witness:
  "\<exists>s s' resp. trace (step sample_lib sqlite_ops sample_cfg sqlite_view True) s [TimedOut 0 (InboxGetTask ''k'' 0) (Answer resp)] s' \<and>
     length (filter (steps_of 0) [TimedOut 0 (InboxGetTask ''k'' 0) (Answer resp)]) \<le> 2"
proof -
  obtain s where s: "reachable sample_lib sqlite_ops sample_cfg sqlite_view True sample_start s"
      "tasks s = [0 \<mapsto> InboxGetTask ''k'' 0]" "mailbox s = Map.empty"
    using sample_inbox_wait by blast
  have "step sample_lib sqlite_ops sample_cfg sqlite_view True s
      (TimedOut 0 (InboxGetTask ''k'' 0) (Answer (inbox_get_resume sample_lib Elapsed)))
      (s\<lparr>tasks := finish 0 (Answer (inbox_get_resume sample_lib Elapsed)) (tasks s)\<rparr>)"
    by (rule step.times_out[of _ _ _ 0]) (simp_all add: s)
  then have t: "trace (step sample_lib sqlite_ops sample_cfg sqlite_view True) s
      [TimedOut 0 (InboxGetTask ''k'' 0) (Answer (inbox_get_resume sample_lib Elapsed))]
      (s\<lparr>tasks := finish 0 (Answer (inbox_get_resume sample_lib Elapsed)) (tasks s)\<rparr>)"
    by (rule trace_single)
  have "length (filter (steps_of 0) [TimedOut 0 (InboxGetTask ''k'' 0) (Answer (inbox_get_resume sample_lib Elapsed))]) \<le> 2"
    using request_terminates[OF t, of 0] by simp
  with t show ?thesis by (intro exI conjI)
qed

text \<open>C8.  Every request gets an answer in time.  In every state that the relay can reach while no
  SQL statement fails, a request that arrives and is carried on by the scheduler ends with an answer
  and without a panic, and all of this is a run of the transition system.  The answer is 408 only
  for a request that its endpoint makes wait, and then exactly when the timeout of this endpoint has
  passed (\<open>inbox_timeout\<close> for GET and await on /inbox, \<open>link_timeout\<close> on /link); every other answer
  is there without waiting for other requests.\<close>

theorem every_request_answered:
  assumes "sqlite_invar db" and "entries_known (sqlite_view db) P K"
    and "reachable lib sqlite_ops cfg sqlite_view True (relay_start sqlite_ops db now P K) s" and "agrees m s"
    and "0 \<le> sint (m_clock m)"
    and "\<forall>limit. request_timeout cfg req = Some limit \<longrightarrow> sint (m_clock m) + int (as_millis limit) < 2 ^ 63"
  shows "\<exists>resp m' s'. run_state (request_answer lib sqlite_ops cfg req) m = (resp, m') \<and>
    map_of (m_answers m') (m_count m) = Some resp \<and> m_failed m' = m_failed m \<and>
    reachable lib sqlite_ops cfg sqlite_view True (relay_start sqlite_ops db now P K) s' \<and> agrees m' s' \<and>
    (if status resp = REQUEST_TIMEOUT
     then \<exists>limit. request_timeout cfg req = Some limit \<and> sint (m_clock m') = sint (m_clock m) + int (as_millis limit)
     else m_clock m' = m_clock m)"
proof -
  have "relay_inv sqlite_ops sqlite_invar sqlite_view s"
    by (rule sqlite.reachable_inv[OF assms(3) sqlite.start_inv[OF assms(1,2)]])
  note answered = sqlite.request_answered[OF assms(4) this, of lib cfg req]
  obtain evs0 where 0: "trace (step lib sqlite_ops cfg sqlite_view True) (relay_start sqlite_ops db now P K) evs0 s"
    using assms(3) unfolding reachable_trace by blast
  have later: "sint (deadline (m_clock m) limit) = sint (m_clock m) + int (as_millis limit)"
    if "request_timeout cfg req = Some limit" for limit
    unfolding deadline_def using sint_add_i64[OF assms(5)] assms(6) that by blast
  show ?thesis
  proof (rule answered)
    fix resp m' s' evs
    assume r: "run_state (request_answer lib sqlite_ops cfg req) m = (resp, m')"
      "map_of (m_answers m') (m_count m) = Some resp" "m_failed m' = m_failed m" "agrees m' s'"
      and on_time: "answered_on_time (m_clock m) (request_timeout cfg req) resp (m_clock m')"
      and t: "trace (step lib sqlite_ops cfg sqlite_view True) s evs s'"
    have "reachable lib sqlite_ops cfg sqlite_view True (relay_start sqlite_ops db now P K) s'"
      unfolding reachable_trace by (intro exI) (rule trace_append[OF t 0])
    moreover have "if status resp = REQUEST_TIMEOUT
       then \<exists>limit. request_timeout cfg req = Some limit \<and> sint (m_clock m') = sint (m_clock m) + int (as_millis limit)
       else m_clock m' = m_clock m"
      using on_time later by (auto simp: answered_on_time_def)
    ultimately show ?thesis using r by (intro exI conjI)
  qed
qed

text \<open>A GET of an ID that nobody posts to ends 25 seconds later, by the default configuration.\<close>

lemma every_request_answered_witness:
  "\<exists>resp m'. run_state (request_answer sample_lib sqlite_ops sample_cfg (InboxGet ''k'')) (machine_new sqlite_ops sample_db) = (resp, m') \<and>
     map_of (m_answers m') 0 = Some resp \<and> \<not> m_failed m' \<and> m_clock m' = 25000 \<and> status resp = REQUEST_TIMEOUT"
proof -
  let ?m = "machine_new sqlite_ops sample_db" and ?req = "InboxGet ''k''"
  have c: "0 \<le> sint (m_clock ?m)"
    "\<forall>limit. request_timeout sample_cfg ?req = Some limit \<longrightarrow> sint (m_clock ?m) + int (as_millis limit) < 2 ^ 63"
    by (simp_all add: machine_new_def config_defs)
  obtain resp m' where r: "run_state (request_answer sample_lib sqlite_ops sample_cfg ?req) ?m = (resp, m')" by fastforce
  have "status (fst (run_state (request_answer sample_lib sqlite_ops sample_cfg ?req) ?m)) = REQUEST_TIMEOUT \<and>
      m_clock (snd (run_state (request_answer sample_lib sqlite_ops sample_cfg ?req) ?m)) = 25000"
    by (simp add: replay sample_db_def sample_row_def cong: in_turn)
  with r every_request_answered[OF sample_db_ok sample_db_known reachable.start agrees_new c, of sample_lib] show ?thesis
    by (fastforce simp: machine_new_def)
qed

section \<open>The clean-up task\<close>

text \<open>C19.  In every state that the relay can reach while no SQL statement fails, a round of the
  clean-up task, with the interval that \<open>HttpRelay::start\<close> gives it, ends 15 seconds later.  It
  deletes every entry that has expired by then, on whatever ID, and no other entry, and no sender
  stays whose receiver is gone.  So an entry that expires after one round is gone after the next:
  nothing expired stays longer than 15 seconds.  (What a round does when the database fails is in
  \<open>cleanup_exact\<close>: it deletes no entry, and the next round tries again.)\<close>

theorem cleanup_round_reclaims_all:
  assumes "sqlite_invar db" and "entries_known (sqlite_view db) P K"
    and "reachable lib sqlite_ops cfg sqlite_view True (relay_start sqlite_ops db now P K) s" and "agrees m s"
    and "0 \<le> sint (m_clock m)" and "sint (m_clock m) + 15000 < 2 ^ 63"
    and "start link_compat io sqlite_ops repo_new cfg = Inr running"
    and "run_state (cleanup_round sqlite_ops (cleanup_interval running)) m = (n, m')"
  shows "sint (m_clock m') = sint (m_clock m) + 15000 \<and>
    (\<forall>k. sqlite_view (repository (m_waiting m')) k =
       (case sqlite_view (repository (m_waiting m)) k of
          Some x \<Rightarrow> if sint (expires_at x) < sint (m_clock m) + 15000 then None else Some x
        | None \<Rightarrow> None)) \<and>
    (\<forall>k. \<forall>c \<in> set (waiters_chans (waiters_at (waiters_map (m_waiting m')) k)). \<not> m_gone m' c)"
proof -
  have inv: "relay_inv sqlite_ops sqlite_invar sqlite_view s"
    by (rule sqlite.reachable_inv[OF assms(3) sqlite.start_inv[OF assms(1,2)]])
  have ms: "as_millis (cleanup_interval running) = 15000"
    using assms(7) by (auto simp: start_def and_then_Inr)
  from sqlite.cleanup_round_reclaims[OF assms(4) inv assms(8,5)] assms(6)
  have clk: "sint (m_clock m') = sint (m_clock m) + 15000"
    and rest: "(\<forall>k. sqlite_view (repository (m_waiting m')) k = (case sqlite_view (repository (m_waiting m)) k of
        Some x \<Rightarrow> if expired_before (m_clock m') (expires_at x) then None else Some x | None \<Rightarrow> None)) \<and>
    (\<forall>k. \<forall>c \<in> set (waiters_chans (waiters_at (waiters_map (m_waiting m')) k)). \<not> m_gone m' c)"
    by (simp_all add: ms)
  from rest show ?thesis unfolding expired_before_def clk by blast
qed

lemma cleanup_round_reclaims_all_witness:
  "\<exists>running n m'. start True sample_io sqlite_ops (sqlite_open (\<lambda>_. False) sample_files) sample_cfg = Inr running \<and>
     run_state (cleanup_round sqlite_ops (cleanup_interval running)) (machine_new sqlite_ops sample_db) = (n, m') \<and>
     sqlite_view (repository (m_waiting m')) ''c'' = None"
proof -
  obtain running where st: "start True sample_io sqlite_ops (sqlite_open (\<lambda>_. False) sample_files) sample_cfg = Inr running"
    using sample_starts by blast
  let ?m = "machine_new sqlite_ops sample_db"
  obtain n m' where r: "run_state (cleanup_round sqlite_ops (cleanup_interval running)) ?m = (n, m')" by fastforce
  have c: "0 \<le> sint (m_clock ?m)" "sint (m_clock ?m) + 15000 < 2 ^ 63" by (simp_all add: machine_new_def)
  from cleanup_round_reclaims_all[OF sample_db_ok sample_db_known reachable.start agrees_new c st r]
  have "sqlite_view (repository (m_waiting m')) ''c'' = None"
    by (simp add: machine_new_def waiting_list_new_def sample_db_view)
  with st r show ?thesis by blast
qed

end
